(* ===== verification/AFS_Prelude.thy ===== *)
theory AFS_Prelude
  imports
    Main
    "HOL-Library.Word"
    "HOL-Library.Sublist"
    "HOL-Library.Char_ord"
    "HOL-Library.List_Lexorder"
    "HOL-Library.Product_Lexorder"
    "HOL-Library.AList"
    "HOL-Library.Multiset"
begin

text \<open>
  Shared vocabulary of the development: the Go values the components use (byte strings, maps,
  fallible results) and the part of Go's standard library they call (\<open>strings\<close>, \<open>path\<close>,
  \<open>sort\<close>), with the generic lemmas on lists, options and sums.

  \<^item> A Go string is a list of bytes. \<open>char\<close> is a byte, and the lexicographic order of
    HOL-Library is Go's byte-wise string order, so \<open>sort.Strings\<close> is \<open>sort\<close>.
  \<^item> A Go map with string keys is an association list with distinct keys. Go leaves the
    iteration order of a map open; here it is the order of the list, so a theorem about every
    association list is a theorem about every iteration order.
  \<^item> A fallible function returns a sum, \<open>Inl\<close> the error and \<open>Inr\<close> the value.
\<close>

named_theorems go_simps \<open>defining equations of the Go library functions used by the model\<close>

section \<open>Results\<close>

definition rbind :: "'e + 'a \<Rightarrow> ('a \<Rightarrow> 'e + 'b) \<Rightarrow> 'e + 'b" where
  "rbind r f = (case r of Inl e \<Rightarrow> Inl e | Inr a \<Rightarrow> f a)"

lemma rbind_simps [simp]:
  "rbind (Inl e) f = Inl e"
  "rbind (Inr a) f = f a"
  by (simp_all add: rbind_def)

lemma rbind_eq_Inr [simp]: "rbind r f = Inr b \<longleftrightarrow> (\<exists>a. r = Inr a \<and> f a = Inr b)"
  by (cases r) auto

lemma rbind_eq_Inl: "rbind r f = Inl e \<longleftrightarrow> r = Inl e \<or> (\<exists>a. r = Inr a \<and> f a = Inl e)"
  by (cases r) auto

section \<open>Maps\<close>

type_synonym 'v gomap = "(string \<times> 'v) list"

abbreviation gomap_wf :: "'v gomap \<Rightarrow> bool" where
  "gomap_wf m \<equiv> distinct (map fst m)"

abbreviation mset_key :: "string \<Rightarrow> 'v \<Rightarrow> 'v gomap \<Rightarrow> 'v gomap" where
  "mset_key \<equiv> AList.update"

abbreviation mdelete :: "string \<Rightarrow> 'v gomap \<Rightarrow> 'v gomap" where
  "mdelete \<equiv> AList.delete"

lemma gomap_wf_update [simp, intro]: "gomap_wf m \<Longrightarrow> gomap_wf (mset_key k v m)"
  by (rule distinct_update)

lemma gomap_wf_delete [simp, intro]: "gomap_wf m \<Longrightarrow> gomap_wf (mdelete k m)"
  by (rule distinct_delete)

lemma map_of_update [simp]: "map_of (mset_key k v m) = (map_of m)(k \<mapsto> v)"
  by (rule ext) (simp add: update_conv')

lemma map_of_delete [simp]: "map_of (mdelete k m) = (map_of m)(k := None)"
  by (rule ext) (simp add: delete_conv')

lemma gomap_in_map_of: "gomap_wf m \<Longrightarrow> (k, v) \<in> set m \<longleftrightarrow> map_of m k = Some v"
  by (rule map_of_eq_Some_iff [symmetric])

lemma map_of_filter_distinct:
  "gomap_wf m \<Longrightarrow> map_of (filter (\<lambda>(k, v). P k v) m) k =
     (case map_of m k of None \<Rightarrow> None | Some v \<Rightarrow> if P k v then Some v else None)"
  by (induction m) (auto split: option.splits simp: map_of_eq_None_iff image_iff)

lemma gomap_wf_filter [simp, intro]: "gomap_wf m \<Longrightarrow> gomap_wf (filter P m)"
  by (rule distinct_map_filter)

section \<open>Byte strings: Go's \<open>strings\<close> package\<close>

definition HasPrefix :: "string \<Rightarrow> string \<Rightarrow> bool" where
  "HasPrefix s p \<longleftrightarrow> take (length p) s = p"

definition HasSuffix :: "string \<Rightarrow> string \<Rightarrow> bool" where
  "HasSuffix s p \<longleftrightarrow> length p \<le> length s \<and> drop (length s - length p) s = p"

definition TrimPrefix :: "string \<Rightarrow> string \<Rightarrow> string" where
  "TrimPrefix s p = (if HasPrefix s p then drop (length p) s else s)"

definition TrimSuffix :: "string \<Rightarrow> string \<Rightarrow> string" where
  "TrimSuffix s p = (if HasSuffix s p then take (length s - length p) s else s)"

fun Contains :: "string \<Rightarrow> string \<Rightarrow> bool" where
  "Contains [] p \<longleftrightarrow> p = []"
| "Contains (c # s) p \<longleftrightarrow> HasPrefix (c # s) p \<or> Contains s p"

text \<open>\<open>strings.Split(s, sep)\<close> and \<open>strings.Join\<close> for a one-byte separator.\<close>

fun split_on :: "char \<Rightarrow> string \<Rightarrow> string list" where
  "split_on c [] = [[]]"
| "split_on c (x # xs) =
     (if x = c then [] # split_on c xs
      else (case split_on c xs of [] \<Rightarrow> [[x]] | p # ps \<Rightarrow> (x # p) # ps))"

fun join_with :: "char \<Rightarrow> string list \<Rightarrow> string" where
  "join_with c [] = []"
| "join_with c [p] = p"
| "join_with c (p # ps) = p @ c # join_with c ps"

text \<open>\<open>strings.Count(s, "/")\<close>, the depth of a relative path.\<close>

definition slash_count :: "string \<Rightarrow> nat" where
  "slash_count s = length (filter (\<lambda>c. c = CHR ''/'') s)"

text \<open>\<open>strings.TrimSpace\<close>, on the ASCII white space of \<open>unicode.IsSpace\<close>.\<close>

definition is_space :: "char \<Rightarrow> bool" where
  "is_space c \<longleftrightarrow> c \<in> {CHR 0x09, CHR 0x0A, CHR 0x0B, CHR 0x0C, CHR 0x0D, CHR '' ''}"

definition TrimSpace :: "string \<Rightarrow> string" where
  "TrimSpace s = rev (dropWhile is_space (rev (dropWhile is_space s)))"

text \<open>\<open>strings.Trim(s, "/")\<close>.\<close>

definition trim_slashes :: "string \<Rightarrow> string" where
  "trim_slashes s =
     rev (dropWhile (\<lambda>c. c = CHR ''/'') (rev (dropWhile (\<lambda>c. c = CHR ''/'') s)))"

text \<open>\<open>strings.ToLower\<close> on ASCII letters.\<close>

definition lower_char :: "char \<Rightarrow> char" where
  "lower_char c =
     (if CHR ''A'' \<le> c \<and> c \<le> CHR ''Z'' then char_of (of_char c + (32::nat)) else c)"

definition ToLower :: "string \<Rightarrow> string" where
  "ToLower s = map lower_char s"

lemma HasPrefix_prefix: "HasPrefix s p \<longleftrightarrow> prefix p s"
  by (metis HasPrefix_def append_eq_conv_conj prefixE prefixI take_is_prefix)

lemma HasPrefix_append [simp]: "HasPrefix (p @ s) p"
  by (simp add: HasPrefix_def)

lemma TrimPrefix_append [simp]: "TrimPrefix (p @ s) p = s"
  by (simp add: TrimPrefix_def)

lemma split_on_nonempty [simp]: "split_on c s \<noteq> []"
  by (cases s) (auto split: list.splits)

lemma join_split_on [simp]: "join_with c (split_on c s) = s"
proof (induction s)
  case Nil
  then show ?case by simp
next
  case (Cons x s)
  obtain p ps where sp: "split_on c s = p # ps"
    by (cases "split_on c s") auto
  with Cons show ?case by (cases ps) auto
qed

lemma split_on_no_sep: "c \<notin> set p \<Longrightarrow> split_on c p = [p]"
  by (induction p) auto

lemma split_on_append:
  "c \<notin> set p \<Longrightarrow> split_on c (p @ c # s) = p # split_on c s"
  by (induction p) auto

lemma split_on_parts: "p \<in> set (split_on c s) \<Longrightarrow> c \<notin> set p"
proof (induction s arbitrary: p)
  case (Cons x s)
  show ?case
  proof (cases "x = c")
    case True
    with Cons show ?thesis by auto
  next
    case False
    obtain q qs where sp: "split_on c s = q # qs"
      by (cases "split_on c s") auto
    with Cons False show ?thesis by auto
  qed
qed simp

lemma split_join [simp]:
  "ps \<noteq> [] \<Longrightarrow> \<forall>p \<in> set ps. c \<notin> set p \<Longrightarrow> split_on c (join_with c ps) = ps"
  by (induction c ps rule: join_with.induct) (auto simp: split_on_no_sep split_on_append)

lemma slash_count_append [simp]: "slash_count (a @ b) = slash_count a + slash_count b"
  by (simp add: slash_count_def)

lemma slash_count_Cons [simp]:
  "slash_count (c # s) = (if c = CHR ''/'' then Suc (slash_count s) else slash_count s)"
  by (simp add: slash_count_def)

lemma TrimSpace_idem [simp]: "TrimSpace (TrimSpace s) = TrimSpace s"
proof -
  have step: "dropWhile P (rev (dropWhile P (rev (dropWhile P xs)))) = rev (dropWhile P (rev (dropWhile P xs)))"
    for P :: "char \<Rightarrow> bool" and xs
  proof (cases "dropWhile P xs")
    case Nil
    then show ?thesis by (simp only: rev.simps dropWhile.simps)
  next
    case (Cons y ys)
    then have "\<not> P y" by (metis hd_dropWhile list.distinct(1) list.sel(1))
    then have "rev (dropWhile P (rev (y # ys))) = y # rev (dropWhile P (rev ys))"
      by (simp add: dropWhile_append)
    with Cons \<open>\<not> P y\<close> show ?thesis by simp
  qed
  show ?thesis by (simp add: TrimSpace_def step)
qed

text \<open>\<open>strconv.FormatInt(n, 10)\<close>.\<close>

fun decimal :: "nat \<Rightarrow> string" where
  "decimal n = (if n < 10 then [char_of (48 + n)] else decimal (n div 10) @ [char_of (48 + n mod 10)])"

declare decimal.simps [simp del]

definition FormatInt :: "int \<Rightarrow> string" where
  "FormatInt n = (if n < 0 then CHR ''-'' # decimal (nat (- n)) else decimal (nat n))"

definition decimal_value :: "string \<Rightarrow> nat" where
  "decimal_value s = foldl (\<lambda>acc c. acc * 10 + (of_char c - 48)) 0 s"

lemma decimal_value_decimal [simp]: "decimal_value (decimal n) = n"
proof (induction n rule: decimal.induct)
  case (1 n)
  then show ?case
    by (cases "n < 10") (simp_all add: decimal.simps [of n] decimal_value_def)
qed

lemma decimal_digits: "c \<in> set (decimal n) \<Longrightarrow> 48 \<le> (of_char c :: nat) \<and> (of_char c :: nat) < 58"
proof (induction n rule: decimal.induct)
  case (1 n)
  then show ?case
    by (cases "n < 10") (auto simp: decimal.simps [of n])
qed

lemma FormatInt_inject [simp]: "FormatInt m = FormatInt n \<longleftrightarrow> m = n"
proof -
  have minus: "CHR ''-'' # s \<noteq> decimal k" for s k
  proof
    assume "CHR ''-'' # s = decimal k"
    then have "CHR ''-'' \<in> set (decimal k)"
      by (metis list.set_intros(1))
    then show False
      using decimal_digits [of "CHR ''-''" k] by simp
  qed
  have inj: "decimal a = decimal b \<longleftrightarrow> a = b" for a b
    by (metis decimal_value_decimal)
  have "nat m = nat n \<longleftrightarrow> m = n" if "0 \<le> m" "0 \<le> n"
    using that by (simp add: eq_nat_nat_iff)
  then show ?thesis
    unfolding FormatInt_def by (auto simp: inj minus minus [THEN not_sym])
qed

lemma FormatInt_no_nul: "CHR 0x00 \<notin> set (FormatInt n)"
proof
  assume "CHR 0x00 \<in> set (FormatInt n)"
  then obtain k where "CHR 0x00 \<in> set (decimal k)"
    by (auto simp: FormatInt_def split: if_splits)
  then show False
    using decimal_digits [of "CHR 0x00" k] by simp
qed

section \<open>Lists\<close>

lemma sorted_wrt_permute_sym:
  assumes "mset xs = mset ys" and "\<And>a b. R a b \<Longrightarrow> R b a" and "sorted_wrt R xs"
  shows "sorted_wrt R ys"
  using assms(1,3)
proof (induction ys arbitrary: xs)
  case Nil
  then show ?case by simp
next
  case (Cons y ys)
  then have "y \<in> set xs" by (metis list.set_intros(1) set_mset_mset)
  then obtain us vs where xs: "xs = us @ y # vs" by (meson split_list)
  with Cons.prems have perm: "mset (us @ vs) = mset ys" by simp
  from Cons.prems xs have sub: "sorted_wrt R (us @ vs)" and all: "\<forall>z \<in> set (us @ vs). R y z"
    by (auto simp: sorted_wrt_append intro: assms(2))
  from perm have "set ys = set (us @ vs)" by (metis set_mset_mset)
  with all Cons.IH [OF perm sub] show ?case by simp
qed

lemma mset_concat_map_perm: "mset xs = mset ys \<Longrightarrow> mset (concat (map f xs)) = mset (concat (map f ys))"
  by (metis mset_concat mset_map sum_mset_sum_list)

lemma filter_eq_single: "distinct xs \<Longrightarrow> k \<in> set xs \<Longrightarrow> filter (\<lambda>x. x = k) xs = [k]"
  by (induction xs) (auto simp: filter_empty_conv)

text \<open>\<open>sort.Slice\<close> with a comparison of keys that no two elements share: the result is determined.\<close>

lemma sort_key_unique:
  assumes "mset xs = mset ys" "inj_on f (set xs)" "distinct xs"
  shows "sort_key f xs = sort_key f ys"
proof (rule properties_for_sort_key)
  show "mset (sort_key f ys) = mset xs"
    using assms(1) by simp
  fix k
  assume "k \<in> set (sort_key f ys)"
  then have k: "k \<in> set xs"
    using assms(1) by (metis mset_sort set_mset_mset)
  have "filter (\<lambda>x. f k = f x) zs = [k]" if "mset zs = mset xs" for zs
  proof -
    have "set zs = set xs" "distinct zs"
      using that assms(3) by (metis set_mset_mset, metis distinct_count_atmost_1 set_mset_mset)
    then have "filter (\<lambda>x. f k = f x) zs = filter (\<lambda>x. x = k) zs"
      using assms(2) k by (intro filter_cong) (auto dest: inj_onD)
    also have "\<dots> = [k]"
      using \<open>distinct zs\<close> \<open>set zs = set xs\<close> k by (simp add: filter_eq_single)
    finally show ?thesis .
  qed
  then show "filter (\<lambda>x. f k = f x) (sort_key f ys) = filter (\<lambda>x. f k = f x) xs"
    using assms(1) by simp
qed simp

section \<open>Sums over a map\<close>

definition gsum :: "('v \<Rightarrow> int) \<Rightarrow> 'v gomap \<Rightarrow> int" where
  "gsum f m = sum_list (map (\<lambda>(k, v). f v) m)"

lemma gsum_simps [simp]: "gsum f [] = 0" "gsum f ((k, v) # m) = f v + gsum f m"
  by (simp_all add: gsum_def)

lemma gsum_absent: "map_of m k = None \<Longrightarrow> gsum f (mset_key k v m) = gsum f m + f v"
  by (induction m) (auto split: if_splits)

lemma gsum_update:
  "gomap_wf m \<Longrightarrow> map_of m k = Some w \<Longrightarrow> gsum f (mset_key k v m) = gsum f m + f v - f w"
  by (induction m) (auto split: if_splits simp: map_of_eq_None_iff)

lemma mdelete_absent: "map_of m k = None \<Longrightarrow> mdelete k m = m"
  by (induction m) (auto simp: AList.delete_eq split: if_splits)

lemma gsum_delete: "gomap_wf m \<Longrightarrow> map_of m k = Some w \<Longrightarrow> gsum f (mdelete k m) = gsum f m - f w"
proof (induction m)
  case (Cons a m)
  obtain k' v where a: "a = (k', v)" by fastforce
  show ?case
  proof (cases "k' = k")
    case True
    have "map_of m k = None"
      using Cons.prems(1) a True by (auto simp: map_of_eq_None_iff)
    then have "mdelete k m = m"
      by (rule mdelete_absent)
    then show ?thesis
      using Cons.prems a True by (simp add: AList.delete_eq)
  next
    case False
    then show ?thesis
      using Cons a by (simp add: AList.delete_eq)
  qed
qed simp

end
