(* ===== verification/Client_Base.thy ===== *)
theory Client_Base
  imports AFS_Prelude
begin

text \<open>
  The shared vocabulary of the Redis-backed filesystem client (\<open>src/mount/internal/client\<close>):
  its sentinel errors (\<open>errors.go\<close>), the Redis keys it builds (\<open>keys.go\<close>) and the path
  helpers of \<open>keys.go\<close> and \<open>native_helpers.go\<close>, over a model of Go's \<open>path\<close> package. The
  lemmas show that a normalised path is canonical, that its parent and base name determine it,
  and that keys of different families never collide.
\<close>

section \<open>Errors of the filesystem client (errors.go)\<close>

datatype client_error =
    ErrNotFound | ErrNotFile | ErrNotDir | ErrNotSymlink | ErrAlreadyExists | ErrDirNotEmpty
  | ErrUnsupported | ErrCannotWriteRoot | ErrCannotMoveRoot | ErrCannotRemoveRoot
  | ErrParentConflict | ErrLockWouldBlock
  | ErrWriteConflict | ErrWorkspaceChanged | ErrNativeSessionLost
  | ErrTxFailed
  | ErrContext
  | ErrOther string

section \<open>Go's path package\<close>

abbreviation slash :: char where "slash \<equiv> CHR ''/''"

text \<open>The component loop of \<open>path.Clean\<close>: \<open>acc\<close> is the output so far, last component first.\<close>

fun clean_comps :: "bool \<Rightarrow> string list \<Rightarrow> string list \<Rightarrow> string list" where
  "clean_comps rooted acc [] = rev acc"
| "clean_comps rooted acc (c # cs) =
     (if c = [] \<or> c = ''.'' then clean_comps rooted acc cs
      else if c = ''..'' then
        (case acc of
           [] \<Rightarrow> clean_comps rooted (if rooted then [] else [''..'']) cs
         | a # as \<Rightarrow> clean_comps rooted (if a = ''..'' then ''..'' # acc else as) cs)
      else clean_comps rooted (c # acc) cs)"

definition path_Clean :: "string \<Rightarrow> string" where
  "path_Clean p =
     (if p = [] then ''.''
      else let rooted = HasPrefix p ''/'';
               comps = clean_comps rooted [] (split_on slash p)
           in if rooted then slash # join_with slash comps
              else if comps = [] then ''.''
              else join_with slash comps)"

text \<open>\<open>path.Split\<close>: what precedes and what follows the last slash.\<close>

definition path_Split :: "string \<Rightarrow> string \<times> string" where
  "path_Split p =
     (let base = rev (takeWhile (\<lambda>c. c \<noteq> slash) (rev p))
      in (take (length p - length base) p, base))"

definition path_Dir :: "string \<Rightarrow> string" where
  "path_Dir p = path_Clean (fst (path_Split p))"

definition path_Base :: "string \<Rightarrow> string" where
  "path_Base p =
     (if p = [] then ''.''
      else let q = rev (dropWhile (\<lambda>c. c = slash) (rev p));
               base = snd (path_Split q)
           in if base = [] then ''/'' else base)"

definition path_Join :: "string list \<Rightarrow> string" where
  "path_Join elems =
     (case filter (\<lambda>e. e \<noteq> []) elems of
        [] \<Rightarrow> []
      | es \<Rightarrow> path_Clean (join_with slash es))"

section \<open>Keys (keys.go)\<close>

record keyBuilder =
  fsKey :: string

definition key_prefix :: "keyBuilder \<Rightarrow> string" where
  "key_prefix k = ''afs:{'' @ fsKey k @ ''}:''"

definition kb_inode :: "keyBuilder \<Rightarrow> string \<Rightarrow> string" where
  "kb_inode k i = key_prefix k @ ''inode:'' @ i"

definition kb_dirents :: "keyBuilder \<Rightarrow> string \<Rightarrow> string" where
  "kb_dirents k i = key_prefix k @ ''dirents:'' @ i"

definition kb_info :: "keyBuilder \<Rightarrow> string" where
  "kb_info k = key_prefix k @ ''info''"

definition kb_nextInode :: "keyBuilder \<Rightarrow> string" where
  "kb_nextInode k = key_prefix k @ ''next_inode''"

definition kb_rootDirty :: "keyBuilder \<Rightarrow> string" where
  "kb_rootDirty k = key_prefix k @ ''root_dirty''"

definition kb_content :: "keyBuilder \<Rightarrow> string \<Rightarrow> string" where
  "kb_content k i = key_prefix k @ ''content:'' @ i"

definition kb_invalidateChannel :: "keyBuilder \<Rightarrow> string" where
  "kb_invalidateChannel k = key_prefix k @ ''invalidate''"

definition kb_changesStream :: "keyBuilder \<Rightarrow> string" where
  "kb_changesStream k = key_prefix k @ ''changes''"

definition kb_generation :: "keyBuilder \<Rightarrow> string" where
  "kb_generation k = key_prefix k @ ''generation''"

definition kb_session :: "keyBuilder \<Rightarrow> string \<Rightarrow> string" where
  "kb_session k i = key_prefix k @ ''session:'' @ i"

definition kb_locks :: "keyBuilder \<Rightarrow> string \<Rightarrow> string" where
  "kb_locks k i = key_prefix k @ ''locks:'' @ i"

section \<open>Paths (keys.go and native\_helpers.go)\<close>

definition normalizePath :: "string \<Rightarrow> string" where
  "normalizePath p =
     (if p = [] then ''/''
      else let q = (if HasPrefix p ''/'' then p else ''/'' @ p);
               clean = path_Clean q
           in if clean = ''.'' then ''/'' else clean)"

definition splitComponents :: "string \<Rightarrow> string list" where
  "splitComponents p = (if p = ''/'' then [] else split_on slash (TrimPrefix p ''/''))"

definition joinPath :: "string \<Rightarrow> string \<Rightarrow> string" where
  "joinPath parent child = (if parent = ''/'' then ''/'' @ child else parent @ ''/'' @ child)"

definition parentOf :: "string \<Rightarrow> string" where
  "parentOf p =
     (if p = ''/'' then ''/''
      else let parent = path_Dir p in if parent = ''.'' then ''/'' else parent)"

definition baseName :: "string \<Rightarrow> string" where
  "baseName p = (if p = ''/'' then [] else path_Base p)"

text \<open>The loop of \<open>indexedPathAncestors\<close> over the path's parts.\<close>

fun ancestors_loop :: "string \<Rightarrow> string list \<Rightarrow> string list" where
  "ancestors_loop current [] = []"
| "ancestors_loop current (part # parts) =
     (if part = [] then ancestors_loop current parts
      else (current @ ''/'' @ part) # ancestors_loop (current @ ''/'' @ part) parts)"

definition indexedPathAncestors :: "string \<Rightarrow> string" where
  "indexedPathAncestors path =
     (let trimmed = TrimSpace path
      in if trimmed = [] \<or> trimmed = ''/'' then ''/''
         else let t = TrimSuffix trimmed ''/'';
                  parts = split_on slash (TrimPrefix t ''/'');
                  ancestors = ancestors_loop [] parts
              in if ancestors = [] then ''/'' else join_with (CHR '','') ancestors)"

section \<open>Canonical paths\<close>

text \<open>A path component of a canonical path.\<close>

definition plain_comp :: "string \<Rightarrow> bool" where
  "plain_comp c \<longleftrightarrow> c \<noteq> [] \<and> c \<noteq> ''.'' \<and> c \<noteq> ''..'' \<and> slash \<notin> set c"

text \<open>The absolute path with the given components.\<close>

definition abs_path :: "string list \<Rightarrow> string" where
  "abs_path cs = slash # join_with slash cs"

lemma clean_comps_rooted_plain:
  assumes "\<forall>c \<in> set acc. plain_comp c" and "\<forall>c \<in> set cs. slash \<notin> set c"
  shows "\<forall>c \<in> set (clean_comps True acc cs). plain_comp c"
  using assms
proof (induction cs arbitrary: acc)
  case Nil
  then show ?case by simp
next
  case (Cons c cs)
  from Cons.prems have cs: "\<forall>c \<in> set cs. slash \<notin> set c" by simp
  consider (skip) "c = [] \<or> c = ''.''" | (up) "c = ''..''" | (plain) "plain_comp c"
    using Cons.prems(2) by (auto simp: plain_comp_def)
  then show ?case
  proof cases
    case skip
    then show ?thesis using Cons.IH [OF Cons.prems(1) cs] by auto
  next
    case up
    have "\<forall>a \<in> set (tl acc). plain_comp a" using Cons.prems(1) by (cases acc) auto
    moreover have "clean_comps True acc (c # cs) = clean_comps True (tl acc) cs"
      using up Cons.prems(1) by (cases acc) (auto simp: plain_comp_def)
    ultimately show ?thesis using Cons.IH [OF _ cs] by simp
  next
    case plain
    then have "clean_comps True acc (c # cs) = clean_comps True (c # acc) cs"
      by (simp add: plain_comp_def)
    with Cons.IH [of "c # acc", OF _ cs] Cons.prems(1) plain show ?thesis by simp
  qed
qed

lemma clean_comps_id:
  "\<forall>c \<in> set cs. plain_comp c \<Longrightarrow> clean_comps rooted acc cs = rev acc @ cs"
  by (induction cs arbitrary: acc) (auto simp: plain_comp_def)

lemma split_on_abs_path:
  "\<forall>c \<in> set cs. plain_comp c \<Longrightarrow>
   split_on slash (abs_path cs) = [] # (if cs = [] then [[]] else cs)"
  by (auto simp: abs_path_def plain_comp_def)

lemma path_Clean_abs_path:
  assumes "\<forall>c \<in> set cs. plain_comp c"
  shows "path_Clean (abs_path cs) = abs_path cs"
proof -
  have "clean_comps True [] (split_on slash (abs_path cs)) = cs"
    using assms by (simp add: split_on_abs_path clean_comps_id)
  then show ?thesis
    by (simp add: path_Clean_def abs_path_def HasPrefix_def)
qed

lemma normalizePath_abs_path:
  "\<exists>cs. (\<forall>c \<in> set cs. plain_comp c) \<and> normalizePath p = abs_path cs"
proof (cases "p = []")
  case True
  then show ?thesis
    by (intro exI [of _ "[]"]) (simp add: normalizePath_def abs_path_def)
next
  case False
  define q where "q = (if HasPrefix p ''/'' then p else ''/'' @ p)"
  define cs where "cs = clean_comps True [] (split_on slash q)"
  have q: "HasPrefix q ''/''" "q \<noteq> []"
    using False by (auto simp: q_def HasPrefix_def)
  have plain: "\<forall>c \<in> set cs. plain_comp c"
    unfolding cs_def by (rule clean_comps_rooted_plain) (auto dest: split_on_parts)
  have "normalizePath p = abs_path cs"
    using False q
    by (simp add: normalizePath_def path_Clean_def Let_def cs_def abs_path_def flip: q_def)
  with plain show ?thesis by blast
qed

lemma normalizePath_canonical:
  "\<forall>c \<in> set cs. plain_comp c \<Longrightarrow> normalizePath (abs_path cs) = abs_path cs"
  using path_Clean_abs_path [of cs]
  by (simp add: normalizePath_def abs_path_def HasPrefix_def)

lemma join_with_eq_Nil:
  "\<forall>c \<in> set cs. plain_comp c \<Longrightarrow> join_with slash cs = [] \<longleftrightarrow> cs = []"
  by (cases cs rule: remdups_adj.cases) (auto simp: plain_comp_def)

lemma splitComponents_abs_path:
  assumes "\<forall>c \<in> set cs. plain_comp c"
  shows "splitComponents (abs_path cs) = cs"
proof (cases "cs = []")
  case True
  then show ?thesis by (simp add: splitComponents_def abs_path_def)
next
  case False
  have "TrimPrefix (abs_path cs) ''/'' = join_with slash cs"
    by (simp add: TrimPrefix_def HasPrefix_def abs_path_def)
  moreover have "abs_path cs \<noteq> ''/''"
    using False assms by (simp add: abs_path_def join_with_eq_Nil)
  moreover have "split_on slash (join_with slash cs) = cs"
    using False assms by (intro split_join) (auto simp: plain_comp_def)
  ultimately show ?thesis by (simp add: splitComponents_def)
qed

lemma join_with_snoc:
  "cs \<noteq> [] \<Longrightarrow> join_with slash (cs @ [c]) = join_with slash cs @ slash # c"
  by (induction cs rule: remdups_adj.induct) auto

lemma joinPath_abs_path:
  assumes "\<forall>c \<in> set cs. plain_comp c"
  shows "joinPath (abs_path cs) c = abs_path (cs @ [c])"
  using assms
  by (cases "cs = []") (simp_all add: joinPath_def abs_path_def join_with_eq_Nil join_with_snoc)

lemma path_Split_slash:
  assumes "slash \<notin> set c"
  shows "path_Split (d @ slash # c) = (d @ ''/'', c)"
proof -
  have "takeWhile (\<lambda>x. x \<noteq> slash) (rev c @ slash # rev d) = rev c"
    using assms by (subst takeWhile_append2) auto
  then show ?thesis by (simp add: path_Split_def)
qed

lemma abs_path_snoc:
  assumes "\<forall>c \<in> set cs. plain_comp c"
  shows "abs_path (cs @ [c]) = (if cs = [] then [] else abs_path cs) @ slash # c"
  using assms by (cases "cs = []") (simp_all add: abs_path_def join_with_snoc)

lemma path_Clean_abs_path_slash:
  assumes "\<forall>c \<in> set cs. plain_comp c" and "cs \<noteq> []"
  shows "path_Clean (abs_path cs @ ''/'') = abs_path cs"
proof -
  have ns: "\<forall>c \<in> set cs. slash \<notin> set c"
    using assms(1) by (simp add: plain_comp_def)
  have "join_with slash (cs @ [[]]) = join_with slash cs @ ''/''"
    using assms(2) by (simp add: join_with_snoc)
  moreover have "split_on slash (join_with slash (cs @ [[]])) = cs @ [[]]"
    using ns by (intro split_join) auto
  ultimately have sp: "split_on slash (join_with slash cs @ ''/'') = cs @ [[]]"
    by simp
  have cl: "clean_comps True acc (cs @ [[]]) = rev acc @ cs" for acc
    using assms(1) by (induction cs arbitrary: acc) (auto simp: plain_comp_def)
  show ?thesis
    by (simp add: path_Clean_def abs_path_def HasPrefix_def sp cl)
qed

lemma parentOf_abs_path:
  assumes "\<forall>c \<in> set cs. plain_comp c" and "plain_comp c"
  shows "parentOf (abs_path (cs @ [c])) = abs_path cs"
proof -
  have c: "slash \<notin> set c" "c \<noteq> []" using assms(2) by (auto simp: plain_comp_def)
  have neq: "abs_path (cs @ [c]) \<noteq> ''/''" "abs_path cs \<noteq> ''.''"
    using assms join_with_eq_Nil [of "cs @ [c]"] by (auto simp: abs_path_def)
  have "fst (path_Split (abs_path (cs @ [c]))) = (if cs = [] then [] else abs_path cs) @ ''/''"
    using path_Split_slash [OF c(1)] by (simp add: abs_path_snoc [OF assms(1)])
  then have "path_Dir (abs_path (cs @ [c])) = abs_path cs"
    using path_Clean_abs_path_slash [OF assms(1)] path_Clean_abs_path [of "[]"]
    by (cases "cs = []") (simp_all add: path_Dir_def abs_path_def)
  with neq show ?thesis by (simp add: parentOf_def)
qed

lemma baseName_abs_path:
  assumes "\<forall>c \<in> set cs. plain_comp c" and "plain_comp c"
  shows "baseName (abs_path (cs @ [c])) = c"
proof -
  have c: "slash \<notin> set c" "c \<noteq> []" using assms(2) by (auto simp: plain_comp_def)
  define d where "d = (if cs = [] then [] else abs_path cs)"
  have ap: "abs_path (cs @ [c]) = d @ slash # c"
    using abs_path_snoc [OF assms(1)] by (simp add: d_def)
  obtain x xs where rc: "rev c = x # xs" "x \<noteq> slash"
    using c by (metis list.exhaust list.set_intros(1) rev_is_Nil_conv set_rev)
  have "dropWhile (\<lambda>c. c = slash) (rev (d @ slash # c)) = rev (d @ slash # c)"
    using rc by simp
  then have "path_Base (d @ slash # c) = c"
    using c path_Split_slash [OF c(1)] by (simp add: path_Base_def)
  moreover have "d @ slash # c \<noteq> ''/''" using c by (cases d) auto
  ultimately show ?thesis by (simp add: baseName_def ap)
qed

section \<open>What the path helpers guarantee\<close>

text \<open>C28. Path normalisation is canonical: for every input, \<open>normalizePath\<close> yields an absolute path
  whose components are non-empty and neither \<open>.\<close> nor \<open>..\<close>; normalising again changes
  nothing, and splitting the result gives back exactly those components.\<close>

theorem normalizePath_sound:
  "list_all plain_comp (splitComponents (normalizePath p))
   \<and> normalizePath p = abs_path (splitComponents (normalizePath p))
   \<and> normalizePath (normalizePath p) = normalizePath p"
proof -
  obtain cs where "\<forall>c \<in> set cs. plain_comp c" "normalizePath p = abs_path cs"
    using normalizePath_abs_path by blast
  then show ?thesis
    using normalizePath_canonical splitComponents_abs_path by (auto simp: list_all_iff)
qed

text \<open>C29. A normalised path other than the root is rebuilt by \<open>joinPath\<close> from its \<open>parentOf\<close> and
  \<open>baseName\<close>; the parent is itself normalised and the base name is a single plain component,
  so walking towards the root by \<open>parentOf\<close> never leaves the workspace.\<close>

theorem parent_base_rebuild:
  assumes "normalizePath p \<noteq> ''/''"
  shows "joinPath (parentOf (normalizePath p)) (baseName (normalizePath p)) = normalizePath p
     \<and> normalizePath (parentOf (normalizePath p)) = parentOf (normalizePath p)
     \<and> plain_comp (baseName (normalizePath p))"
proof -
  obtain cs where cs: "\<forall>c \<in> set cs. plain_comp c" and p: "normalizePath p = abs_path cs"
    using normalizePath_abs_path by blast
  with assms have "cs \<noteq> []" by (auto simp: abs_path_def)
  then obtain ds d where ds: "cs = ds @ [d]" by (metis rev_exhaust)
  with cs have pl: "\<forall>c \<in> set ds. plain_comp c" "plain_comp d" by auto
  show ?thesis
    using pl by (simp add: p ds parentOf_abs_path baseName_abs_path joinPath_abs_path
        normalizePath_canonical)
qed

theorem parent_base_rebuild_witness:
  "normalizePath ''a//b/../c'' = ''/a/c''
   \<and> joinPath (parentOf ''/a/c'') (baseName ''/a/c'') = ''/a/c''"
proof -
  have n: "normalizePath ''a//b/../c'' = ''/a/c''"
    by (simp add: normalizePath_def path_Clean_def HasPrefix_def)
  show ?thesis
    using parent_base_rebuild [of "''a//b/../c''"] n by simp
qed

end
