(* ===== verification/File_Locks.thy ===== *)
theory File_Locks
  imports Client_Base
begin

text \<open>
  The range algebra of advisory byte-range locks, the pure half of
  \<open>src/mount/internal/client/native_locks.go\<close>. A lock covers the inclusive interval between two
  64-bit words; an owner's locks are a list that \<open>normalizeFileLocks\<close> keeps sorted and disjoint.
  The lemmas show that the normalised list covers the same bytes with the same types, that
  \<open>applyFileLock\<close> changes the type of exactly the requested bytes, and that \<open>locksConflict\<close>
  decides whether two lists disagree on a byte. The locale \<open>range_locks\<close> is the contract the
  lock table of \<open>Lock_Store\<close> relies on.
\<close>

section \<open>Range algebra\<close>

record FileLock =
  lockStart :: "64 word"
  lockEnd :: "64 word"
  lockType :: "32 word"
  lockPID :: "32 word"

text \<open>The Linux values of \<open>syscall.F_RDLCK\<close>, \<open>F_WRLCK\<close> and \<open>F_UNLCK\<close>.\<close>

definition F_RDLCK :: "32 word" where "F_RDLCK = 0"
definition F_WRLCK :: "32 word" where "F_WRLCK = 1"
definition F_UNLCK :: "32 word" where "F_UNLCK = 2"

definition lockRangesOverlap :: "FileLock \<Rightarrow> FileLock \<Rightarrow> bool" where
  "lockRangesOverlap a b \<longleftrightarrow> lockStart a \<le> lockEnd b \<and> lockStart b \<le> lockEnd a"

definition locksConflict :: "FileLock \<Rightarrow> FileLock \<Rightarrow> bool" where
  "locksConflict existing requested =
     (if lockType existing = F_UNLCK \<or> lockType requested = F_UNLCK then False
      else if \<not> lockRangesOverlap existing requested then False
      else lockType existing = F_WRLCK \<or> lockType requested = F_WRLCK)"

text \<open>\<open>^uint64(0)\<close> is the largest 64-bit word, \<open>-1\<close>.\<close>

definition nextLockStart :: "64 word \<Rightarrow> 64 word" where
  "nextLockStart e = (if e = -1 then e else e + 1)"

definition validateFileLock :: "FileLock option \<Rightarrow> client_error + unit" where
  "validateFileLock lk =
     (case lk of
        None \<Rightarrow> Inl (ErrOther ''invalid lock'')
      | Some l \<Rightarrow>
          if lockType l \<noteq> F_RDLCK \<and> lockType l \<noteq> F_WRLCK \<and> lockType l \<noteq> F_UNLCK
          then Inl (ErrOther ''invalid lock type'')
          else if lockEnd l < lockStart l then Inl (ErrOther ''invalid lock range'')
          else Inr ())"

text \<open>The merging loop of \<open>normalizeFileLocks\<close>; \<open>out\<close> is the slice built so far.\<close>

fun normalize_loop :: "FileLock list \<Rightarrow> FileLock list \<Rightarrow> FileLock list" where
  "normalize_loop out [] = out"
| "normalize_loop out (lock # locks) =
     (if lockType lock = F_UNLCK then normalize_loop out locks
      else if out = [] then normalize_loop [lock] locks
      else
        let l = last out
        in if lockType l = lockType lock \<and> lockStart lock \<le> nextLockStart (lockEnd l)
           then normalize_loop
                  (butlast out @
                   [l\<lparr>lockEnd := (if lockEnd lock > lockEnd l then lockEnd lock else lockEnd l),
                      lockPID := (if lockPID lock \<noteq> 0 then lockPID lock else lockPID l)\<rparr>])
                  locks
           else normalize_loop (out @ [lock]) locks)"

definition normalizeFileLocks :: "FileLock list \<Rightarrow> FileLock list" where
  "normalizeFileLocks locks =
     (if locks = [] then []
      else normalize_loop [] (sort_key (\<lambda>l. (lockStart l, lockEnd l)) locks))"

text \<open>What the loop of \<open>applyFileLock\<close> appends for one existing lock.\<close>

definition carve :: "FileLock \<Rightarrow> FileLock \<Rightarrow> FileLock list" where
  "carve current requested =
     (if \<not> lockRangesOverlap current requested then [current]
      else
        (if lockStart current < lockStart requested
         then [\<lparr>lockStart = lockStart current, lockEnd = lockStart requested - 1,
                lockType = lockType current, lockPID = lockPID current\<rparr>]
         else []) @
        (if lockEnd requested < lockEnd current
         then [\<lparr>lockStart = lockEnd requested + 1, lockEnd = lockEnd current,
                lockType = lockType current, lockPID = lockPID current\<rparr>]
         else []))"

definition applyFileLock :: "FileLock list \<Rightarrow> FileLock \<Rightarrow> FileLock list" where
  "applyFileLock existing requested =
     normalizeFileLocks
       (concat (map (\<lambda>current. carve current requested) existing) @
        (if lockType requested \<noteq> F_UNLCK then [requested] else []))"

subsection \<open>Well-formed lock lists and the bytes they cover\<close>

definition lock_ok :: "FileLock \<Rightarrow> bool" where
  "lock_ok l \<longleftrightarrow> lockStart l \<le> lockEnd l \<and> lockType l \<in> {F_RDLCK, F_WRLCK}"

definition covers :: "64 word \<Rightarrow> FileLock \<Rightarrow> bool" where
  "covers b l \<longleftrightarrow> lockStart l \<le> b \<and> b \<le> lockEnd l"

definition lock_before :: "FileLock \<Rightarrow> FileLock \<Rightarrow> bool" where
  "lock_before a b \<longleftrightarrow> lockEnd a < lockStart b"

text \<open>The list an owner stores: valid locks in increasing, disjoint ranges.\<close>

definition locks_wf :: "FileLock list \<Rightarrow> bool" where
  "locks_wf ls \<longleftrightarrow> (\<forall>l \<in> set ls. lock_ok l) \<and> sorted_wrt lock_before ls"

text \<open>The abstraction: the lock type held on a byte, if any.\<close>

definition type_at :: "FileLock list \<Rightarrow> 64 word \<Rightarrow> 32 word option" where
  "type_at ls b = map_option lockType (find (covers b) ls)"

text \<open>The specification of a lock request on that abstraction.\<close>

definition set_range ::
  "(64 word \<Rightarrow> 32 word option) \<Rightarrow> FileLock \<Rightarrow> 64 word \<Rightarrow> 32 word option" where
  "set_range f requested b =
     (if covers b requested
      then (if lockType requested = F_UNLCK then None else Some (lockType requested))
      else f b)"

definition held :: "FileLock list \<Rightarrow> 64 word \<Rightarrow> 32 word \<Rightarrow> bool" where
  "held ls b t \<longleftrightarrow> (\<exists>l \<in> set ls. covers b l \<and> lockType l = t)"

definition lock_apart :: "FileLock \<Rightarrow> FileLock \<Rightarrow> bool" where
  "lock_apart a b \<longleftrightarrow> \<not> lockRangesOverlap a b"


section \<open>Lemmas\<close>

lemma inc_le_iff: "(e::64 word) < s \<Longrightarrow> e + 1 \<le> b \<longleftrightarrow> e < b"
  by (auto simp: inc_less_eq_iff)

lemma le_dec_iff: "(s::64 word) < r \<Longrightarrow> b \<le> r - 1 \<longleftrightarrow> b < r"
  by (auto simp: less_eq_dec_iff)

lemma lock_apart_sym: "lock_apart a b \<Longrightarrow> lock_apart b a"
  by (auto simp: lock_apart_def lockRangesOverlap_def)

lemma lock_before_apart: "lock_before a b \<Longrightarrow> lock_ok a \<Longrightarrow> lock_ok b \<Longrightarrow> lock_apart a b"
  by (auto simp: lock_before_def lock_apart_def lockRangesOverlap_def lock_ok_def)

lemma covers_apart: "covers b l \<Longrightarrow> covers b k \<Longrightarrow> \<not> lock_apart l k"
  unfolding covers_def lock_apart_def lockRangesOverlap_def by (meson order_trans)

lemma held_simps [simp]:
  "\<not> held [] b t"
  "held (l # ls) b t \<longleftrightarrow> (covers b l \<and> lockType l = t) \<or> held ls b t"
  "held (ls @ ks) b t \<longleftrightarrow> held ls b t \<or> held ks b t"
  by (auto simp: held_def)

lemma type_at_apart:
  assumes "sorted_wrt lock_apart ls"
  shows "type_at ls b = Some t \<longleftrightarrow> held ls b t"
  using assms
proof (induction ls)
  case Nil
  then show ?case by (simp add: type_at_def)
next
  case (Cons l ls)
  show ?case
  proof (cases "covers b l")
    case True
    then have "\<not> held ls b t" using Cons.prems covers_apart by (auto simp: held_def)
    with True show ?thesis by (simp add: type_at_def)
  next
    case False
    with Cons show ?thesis by (simp add: type_at_def)
  qed
qed

lemma type_at_eqI:
  assumes "sorted_wrt lock_apart ls" and "\<And>t. held ls b t \<longleftrightarrow> f b = Some t"
  shows "type_at ls b = f b"
  using assms by (metis type_at_apart option.exhaust_sel option.collapse)

lemma locks_wf_apart: "locks_wf ls \<Longrightarrow> sorted_wrt lock_apart ls"
  by (induction ls) (auto simp: locks_wf_def intro: lock_before_apart)

lemma merge_covers:
  assumes "lock_before l k" and "lockStart k \<le> nextLockStart (lockEnd l)"
    and "lock_ok l" and "lock_ok k"
  shows "covers b (l\<lparr>lockEnd := lockEnd k, lockPID := p\<rparr>) \<longleftrightarrow> covers b l \<or> covers b k"
proof -
  have lt: "lockEnd l < lockStart k" using assms(1) by (simp add: lock_before_def)
  then have "lockEnd l \<noteq> -1" using leD word_n1_ge by metis
  with assms(2) lt have "lockStart k = lockEnd l + 1"
    using inc_le [OF lt] by (simp add: nextLockStart_def)
  then have "covers b k \<longleftrightarrow> lockEnd l < b \<and> b \<le> lockEnd k"
    using inc_le_iff [OF lt] by (simp add: covers_def)
  moreover have "lockStart l \<le> lockEnd l" "lockEnd l < lockEnd k"
    using assms(3,4) lt by (auto simp: lock_ok_def)
  ultimately show ?thesis by (auto simp: covers_def)
qed

lemma normalize_loop_wf:
  assumes "locks_wf (out @ locks)"
  shows "locks_wf (normalize_loop out locks)
    \<and> (\<forall>b t. held (normalize_loop out locks) b t \<longleftrightarrow> held (out @ locks) b t)"
  using assms
proof (induction locks arbitrary: out)
  case Nil
  then show ?case by simp
next
  case (Cons k ks)
  have k: "lock_ok k" using Cons.prems by (simp add: locks_wf_def)
  then have nu: "lockType k \<noteq> F_UNLCK"
    by (auto simp: lock_ok_def F_RDLCK_def F_WRLCK_def F_UNLCK_def)
  show ?case
  proof (cases "out = []")
    case True
    then show ?thesis using Cons.IH [of "[k]"] Cons.prems nu by simp
  next
    case False
    define l where "l = last out"
    have out: "out = butlast out @ [l]" using False by (simp add: l_def)
    have l: "lock_ok l" "lock_before l k"
      using Cons.prems unfolding locks_wf_def by (subst (asm) (1 2) out; auto simp: sorted_wrt_append)+
    show ?thesis
    proof (cases "lockType l = lockType k \<and> lockStart k \<le> nextLockStart (lockEnd l)")
      case True
      have gt: "lockEnd k > lockEnd l" using l k by (auto simp: lock_before_def lock_ok_def)
      define p where "p = (if lockPID k \<noteq> 0 then lockPID k else lockPID l)"
      define m where "m = l\<lparr>lockEnd := lockEnd k, lockPID := p\<rparr>"
      have eq: "normalize_loop out (k # ks) = normalize_loop (butlast out @ [m]) ks"
        using nu False True gt by (simp add: Let_def m_def p_def flip: l_def)
      have "locks_wf (butlast out @ [l] @ k # ks)" using Cons.prems out by (metis append_assoc)
      then have wf: "locks_wf ((butlast out @ [m]) @ ks)"
        using gt unfolding locks_wf_def
        by (auto simp: sorted_wrt_append m_def lock_before_def lock_ok_def)
      have "covers b m \<longleftrightarrow> covers b l \<or> covers b k" for b
        unfolding m_def using merge_covers l k True by blast
      then have "held ((butlast out @ [m]) @ ks) b t = held (out @ k # ks) b t" for b t
        using True by (subst out) (auto simp: m_def)
      then show ?thesis using Cons.IH [OF wf] eq by auto
    next
      case False
      then have "normalize_loop out (k # ks) = normalize_loop (out @ [k]) ks"
        using nu \<open>out \<noteq> []\<close> by (auto simp: Let_def l_def)
      then show ?thesis using Cons.IH [of "out @ [k]"] Cons.prems by simp
    qed
  qed
qed

lemma apart_before:
  assumes "lock_apart a x" and "lock_ok x" and "(lockStart a, lockEnd a) \<le> (lockStart x, lockEnd x)"
  shows "lock_before a x"
proof -
  have "lockStart a \<le> lockEnd x" using assms(2,3) by (auto simp: lock_ok_def less_eq_prod_def)
  then show ?thesis using assms(1) by (auto simp: lock_apart_def lockRangesOverlap_def lock_before_def)
qed

lemma sorted_apart_before:
  assumes "sorted_wrt lock_apart ls" and "\<forall>l \<in> set ls. lock_ok l"
    and "sorted (map (\<lambda>l. (lockStart l, lockEnd l)) ls)"
  shows "sorted_wrt lock_before ls"
  using assms by (induction ls) (auto intro: apart_before)

lemma normalizeFileLocks_spec:
  assumes "sorted_wrt lock_apart ls" and "\<forall>l \<in> set ls. lock_ok l"
  shows "locks_wf (normalizeFileLocks ls)
    \<and> (\<forall>b t. held (normalizeFileLocks ls) b t \<longleftrightarrow> held ls b t)"
proof -
  let ?s = "sort_key (\<lambda>l. (lockStart l, lockEnd l)) ls"
  have "sorted_wrt lock_apart ?s"
    by (rule sorted_wrt_permute_sym [OF _ lock_apart_sym assms(1)]) auto
  then have "locks_wf ?s"
    using assms(2) sorted_apart_before [of ?s] by (simp add: locks_wf_def)
  then show ?thesis
    using normalize_loop_wf [of "[]" ?s] by (auto simp: normalizeFileLocks_def held_def locks_wf_def)
qed

lemma in_carve:
  assumes "lock_ok c" and "lockStart r \<le> lockEnd r" and "k \<in> set (carve c r)"
  shows "lock_ok k" and "lock_apart k r" and "lockStart c \<le> lockStart k"
    and "lockEnd k \<le> lockEnd c" and "lockType k = lockType c"
proof -
  have c: "lockStart c \<le> lockEnd c" "lockType c \<in> {F_RDLCK, F_WRLCK}"
    using assms(1) by (auto simp: lock_ok_def)
  consider "\<not> lockRangesOverlap c r" "k = c"
    | "lockStart c < lockStart r" "lockStart r \<le> lockEnd c" "lockStart k = lockStart c"
      "lockEnd k = lockStart r - 1" "lockType k = lockType c"
    | "lockEnd r < lockEnd c" "lockStart c \<le> lockEnd r" "lockStart k = lockEnd r + 1"
      "lockEnd k = lockEnd c" "lockType k = lockType c"
    using assms(3) by (auto simp: carve_def lockRangesOverlap_def split: if_splits)
  then have "lock_ok k \<and> lock_apart k r \<and> lockStart c \<le> lockStart k
    \<and> lockEnd k \<le> lockEnd c \<and> lockType k = lockType c"
  proof cases
    case 1
    then show ?thesis using assms(1) by (simp add: lock_apart_def)
  next
    case 2
    note dec = le_dec_iff [OF 2(1)]
    have "lockStart c \<le> lockStart r - 1" using dec 2(1) by blast
    moreover have "\<not> lockStart r \<le> lockStart r - 1" using dec less_irrefl by blast
    moreover have "lockStart r - 1 \<le> lockEnd c" using dec 2(2) by (meson order.strict_implies_order order.strict_trans2 order_refl)
    ultimately show ?thesis using 2 c by (simp only: lock_ok_def lock_apart_def lockRangesOverlap_def) blast
  next
    case 3
    note inc = inc_le_iff [OF 3(1)]
    have "lockEnd r + 1 \<le> lockEnd c" using inc 3(1) by blast
    moreover have "\<not> lockEnd r + 1 \<le> lockEnd r" using inc less_irrefl by blast
    moreover have "lockStart c \<le> lockEnd r + 1"
      using inc 3(2) by (meson order.strict_implies_order order.strict_trans1 order_refl)
    ultimately show ?thesis using 3 c by (simp only: lock_ok_def lock_apart_def lockRangesOverlap_def) blast
  qed
  then show "lock_ok k" "lock_apart k r" "lockStart c \<le> lockStart k"
    "lockEnd k \<le> lockEnd c" "lockType k = lockType c" by auto
qed

lemma carve_apart:
  assumes "lock_ok c" and "lockStart r \<le> lockEnd r"
  shows "sorted_wrt lock_apart (carve c r)"
proof (cases "lockStart c < lockStart r \<and> lockEnd r < lockEnd c")
  case True
  then have "\<not> lockEnd r + 1 \<le> lockStart r - 1"
    using le_dec_iff inc_le_iff assms(2) by (meson leD order.strict_implies_order order.strict_trans1)
  then show ?thesis by (simp add: carve_def lock_apart_def lockRangesOverlap_def)
qed (auto simp: carve_def)

lemma interval_minus:
  fixes cs :: "'a::linorder"
  assumes "cs \<le> re" and "rs \<le> ce" and "rs \<le> re"
  shows "(cs \<le> b \<and> b < rs) \<or> (re < b \<and> b \<le> ce)
    \<longleftrightarrow> (cs \<le> b \<and> b \<le> ce) \<and> \<not> (rs \<le> b \<and> b \<le> re)"
  using assms by auto

lemma carve_covers:
  assumes "lock_ok c" and "lockStart r \<le> lockEnd r"
  shows "held (carve c r) b t \<longleftrightarrow> covers b c \<and> \<not> covers b r \<and> lockType c = t"
proof (cases "lockRangesOverlap c r")
  case True
  then have ov: "lockStart c \<le> lockEnd r" "lockStart r \<le> lockEnd c"
    by (auto simp: lockRangesOverlap_def)
  have "(lockStart c < lockStart r \<and> lockStart c \<le> b \<and> b \<le> lockStart r - 1)
      \<longleftrightarrow> lockStart c \<le> b \<and> b < lockStart r"
    using le_dec_iff by (meson order.strict_trans1)
  moreover have "(lockEnd r < lockEnd c \<and> lockEnd r + 1 \<le> b \<and> b \<le> lockEnd c)
      \<longleftrightarrow> lockEnd r < b \<and> b \<le> lockEnd c"
    using inc_le_iff by (meson order.strict_trans2)
  moreover have "held (carve c r) b t \<longleftrightarrow> lockType c = t \<and>
      ((lockStart c < lockStart r \<and> lockStart c \<le> b \<and> b \<le> lockStart r - 1)
       \<or> (lockEnd r < lockEnd c \<and> lockEnd r + 1 \<le> b \<and> b \<le> lockEnd c))"
    using True by (simp only: carve_def held_simps covers_def FileLock.simps split: if_split) blast
  ultimately show ?thesis 
    using interval_minus [OF ov assms(2), of b] by (simp only: covers_def) blast
next
  case False
  then show ?thesis using covers_apart [of b c r] by (auto simp: carve_def lock_apart_def)
qed

lemma carved_apart:
  assumes "sorted_wrt lock_apart ls" and "\<forall>l \<in> set ls. lock_ok l" and "lockStart r \<le> lockEnd r"
  shows "sorted_wrt lock_apart (concat (map (\<lambda>c. carve c r) ls))"
  using assms(1,2)
proof (induction ls)
  case Nil
  then show ?case by simp
next
  case (Cons c ls)
  have "lock_apart k k'" if "k \<in> set (carve c r)" "d \<in> set ls" "k' \<in> set (carve d r)" for k k' d
  proof -
    have "lock_apart c d" "lock_ok c" "lock_ok d" using Cons.prems that by auto
    then show ?thesis
      using in_carve(3,4) [OF _ assms(3) that(1)] in_carve(3,4) [OF _ assms(3) that(3)]
      unfolding lock_apart_def lockRangesOverlap_def by (meson order_trans)
  qed
  then show ?case using Cons carve_apart [OF _ assms(3), of c] by (auto simp: sorted_wrt_append)
qed

lemma validateFileLock_ok:
  "validateFileLock (Some r) = Inr () \<longleftrightarrow>
     lockStart r \<le> lockEnd r \<and> lockType r \<in> {F_RDLCK, F_WRLCK, F_UNLCK}"
  by (auto simp: validateFileLock_def)

lemma applyFileLock_spec:
  assumes "locks_wf existing" and "validateFileLock (Some r) = Inr ()"
  shows "locks_wf (applyFileLock existing r)"
    and "type_at (applyFileLock existing r) b = set_range (type_at existing) r b"
proof -
  have r: "lockStart r \<le> lockEnd r" "lockType r \<in> {F_RDLCK, F_WRLCK, F_UNLCK}"
    using assms(2) by (simp_all add: validateFileLock_ok)
  define out where "out = concat (map (\<lambda>c. carve c r) existing)
    @ (if lockType r \<noteq> F_UNLCK then [r] else [])"
  have ok: "\<forall>l \<in> set existing. lock_ok l" using assms(1) by (simp add: locks_wf_def)
  note apart = locks_wf_apart [OF assms(1)]
  have rok: "lock_ok r" if "lockType r \<noteq> F_UNLCK"
    using that r by (simp add: lock_ok_def)
  have "sorted_wrt lock_apart out"
    using carved_apart [OF apart ok r(1)] in_carve(2) ok r(1)
    by (auto simp: out_def sorted_wrt_append)
  moreover have "\<forall>l \<in> set out. lock_ok l"
    using rok in_carve(1) [OF _ r(1)] ok by (auto simp: out_def split: if_splits)
  ultimately have norm: "locks_wf (applyFileLock existing r)"
    "held (applyFileLock existing r) b t \<longleftrightarrow> held out b t" for b t
    using normalizeFileLocks_spec [of out] by (simp_all add: applyFileLock_def out_def)
  have carved: "held (concat (map (\<lambda>c. carve c r) existing)) b t \<longleftrightarrow> held existing b t \<and> \<not> covers b r" for b t
    using ok by (induction existing) (auto simp: carve_covers [OF _ r(1)])
  have "type_at (applyFileLock existing r) b = Some t
      \<longleftrightarrow> set_range (type_at existing) r b = Some t" for t
    using carved [of b t] norm(2) [of b t] type_at_apart [OF apart, of b t]
      type_at_apart [OF locks_wf_apart [OF norm(1)], of b t]
    by (auto simp: set_range_def out_def)
  then show "type_at (applyFileLock existing r) b = set_range (type_at existing) r b"
    by (metis option.exhaust)
  show "locks_wf (applyFileLock existing r)" by (rule norm(1))
qed

section \<open>The contract of the range algebra\<close>

text \<open>
  What a table of owners needs from lock ranges: \<open>kind_at\<close> reads the kind of lock a list holds
  on a point, \<open>exclusive\<close> is the kind no other owner may share, and a request that conflicts with
  none of another owner's locks may be applied. The table is one inode's map from owner to locks;
  \<open>live\<close> are the owners whose locks still count.
\<close>

locale range_locks =
  fixes applyl :: "'l list \<Rightarrow> 'l \<Rightarrow> 'l list"
    and conflict :: "'l \<Rightarrow> 'l \<Rightarrow> bool"
    and wf :: "'l list \<Rightarrow> bool"
    and valid :: "'l \<Rightarrow> bool"
    and inside :: "'b \<Rightarrow> 'l \<Rightarrow> bool"
    and kind_of :: "'l \<Rightarrow> 'k option"
    and kind_at :: "'l list \<Rightarrow> 'b \<Rightarrow> 'k option"
    and exclusive :: 'k
  assumes wf_empty: "wf []"
    and kind_at_empty: "kind_at [] b = None"
    and applyl_wf: "wf ls \<Longrightarrow> valid r \<Longrightarrow> wf (applyl ls r)"
    and applyl_at: "wf ls \<Longrightarrow> valid r \<Longrightarrow>
          kind_at (applyl ls r) b = (if inside b r then kind_of r else kind_at ls b)"
    and conflict_complete: "wf ks \<Longrightarrow> valid r \<Longrightarrow> \<forall>k \<in> set ks. \<not> conflict k r \<Longrightarrow> inside b r \<Longrightarrow>
          kind_of r = Some x \<Longrightarrow> kind_at ks b = Some y \<Longrightarrow> x \<noteq> exclusive \<and> y \<noteq> exclusive"
begin

definition compatible :: "'l list \<Rightarrow> 'l list \<Rightarrow> bool" where
  "compatible ls ks \<longleftrightarrow>
     (\<forall>b x y. kind_at ls b = Some x \<longrightarrow> kind_at ks b = Some y \<longrightarrow> x \<noteq> exclusive \<and> y \<noteq> exclusive)"

definition table_ok :: "('o \<Rightarrow> bool) \<Rightarrow> ('o \<rightharpoonup> 'l list) \<Rightarrow> bool" where
  "table_ok live T \<longleftrightarrow>
     (\<forall>h ls. T h = Some ls \<longrightarrow> wf ls) \<and>
     (\<forall>h k ls ks. h \<noteq> k \<longrightarrow> live h \<longrightarrow> live k \<longrightarrow> T h = Some ls \<longrightarrow> T k = Some ks \<longrightarrow> compatible ls ks)"

lemma compatible_sym: "compatible ls ks \<Longrightarrow> compatible ks ls"
  unfolding compatible_def by blast

lemma compatible_empty: "compatible [] ks"
  by (simp add: compatible_def kind_at_empty)

lemma compatible_applyl:
  assumes "compatible ls ks" "wf ls" "wf ks" "valid r" "\<forall>k \<in> set ks. \<not> conflict k r"
  shows "compatible (applyl ls r) ks"
  unfolding compatible_def
proof (intro allI impI)
  fix b x y
  assume *: "kind_at (applyl ls r) b = Some x" "kind_at ks b = Some y"
  show "x \<noteq> exclusive \<and> y \<noteq> exclusive"
  proof (cases "inside b r")
    case True
    with * show ?thesis using conflict_complete [OF assms(3-5) True] applyl_at assms by auto
  next
    case False
    with * show ?thesis using applyl_at assms unfolding compatible_def by auto
  qed
qed

lemma table_ok_submap:
  assumes "table_ok live T" and "\<And>h ls. T' h = Some ls \<Longrightarrow> T h = Some ls"
    and "\<And>h. h \<in> dom T' \<Longrightarrow> live' h \<Longrightarrow> live h"
  shows "table_ok live' T'"
  using assms unfolding table_ok_def by (metis domI)

lemma table_ok_grant:
  assumes ok: "table_ok live T" and "valid r"
    and cur: "cur = [] \<or> T h = Some cur"
    and clash: "\<And>k ks l. h \<noteq> k \<Longrightarrow> live k \<Longrightarrow> T k = Some ks \<Longrightarrow> l \<in> set ks \<Longrightarrow> \<not> conflict l r"
    and stored: "wf new" "\<And>b. kind_at new b = kind_at (applyl cur r) b"
  shows "table_ok live (T(h \<mapsto> new))"
proof -
  have wf: "wf cur" using cur ok wf_empty unfolding table_ok_def by blast
  have left: "compatible new ks" if "h \<noteq> k" "live h" "live k" "T k = Some ks" for k ks
  proof -
    have "compatible (applyl cur r) ks"
    proof (rule compatible_applyl)
      show "compatible cur ks" using cur ok that compatible_empty unfolding table_ok_def by metis
      show "wf ks" using ok that unfolding table_ok_def by blast
    qed (use wf assms(2) clash that in auto)
    then show ?thesis by (simp add: compatible_def stored)
  qed
  have "compatible ks new" if "k \<noteq> h" "live h" "live k" "T k = Some ks" for k ks
    using that by (intro compatible_sym [OF left]) auto
  then show ?thesis using ok stored(1) left unfolding table_ok_def by (auto split: if_splits)
qed

end

text \<open>The kind a request gives its range, and the interpretation on \<open>native_locks.go\<close>.\<close>

definition lock_kind :: "FileLock \<Rightarrow> 32 word option" where
  "lock_kind r = (if lockType r = F_UNLCK then None else Some (lockType r))"

lemma locksConflict_complete:
  assumes "locks_wf ks" and "\<forall>k \<in> set ks. \<not> locksConflict k r" and "covers b r"
    and "lock_kind r = Some x" and "type_at ks b = Some y"
  shows "x \<noteq> F_WRLCK \<and> y \<noteq> F_WRLCK"
proof -
  have "held ks b y" using type_at_apart [OF locks_wf_apart [OF assms(1)]] assms(5) by blast
  then obtain k where k: "k \<in> set ks" "covers b k" "lockType k = y" by (auto simp: held_def)
  then have "lockRangesOverlap k r" "lock_ok k"
    using covers_apart assms(1,3) by (auto simp: lock_apart_def locks_wf_def)
  moreover have "\<not> locksConflict k r" using assms(2) k(1) by blast
  moreover have "lockType k \<noteq> F_UNLCK"
    using \<open>lock_ok k\<close> by (auto simp: lock_ok_def F_RDLCK_def F_WRLCK_def F_UNLCK_def)
  ultimately show ?thesis
    using k(3) assms(4) by (auto simp: locksConflict_def lock_kind_def split: if_splits)
qed

interpretation native_ranges: range_locks applyFileLock locksConflict locks_wf
  "\<lambda>r. validateFileLock (Some r) = Inr ()" covers lock_kind type_at F_WRLCK
proof unfold_locales
  show "type_at [] b = None" for b by (simp add: type_at_def)
  show "locks_wf []" by (simp add: locks_wf_def)
qed (use applyFileLock_spec locksConflict_complete in
       \<open>auto simp: set_range_def lock_kind_def\<close>)

text \<open>C9. A valid request changes the lock type of exactly the bytes it covers: a read or write
  lock gives them its type, an unlock frees them, every other byte keeps what it had, and the list
  stays sorted, disjoint and of known types.\<close>

theorem applyFileLock_refines:
  assumes "locks_wf existing" and "validateFileLock (Some r) = Inr ()"
  shows "locks_wf (applyFileLock existing r)
    \<and> (\<forall>b. type_at (applyFileLock existing r) b = set_range (type_at existing) r b)"
  using applyFileLock_spec [OF assms] by blast

theorem applyFileLock_refines_witness:
  "let old = [\<lparr>lockStart = 10, lockEnd = 29, lockType = F_RDLCK, lockPID = 7\<rparr>];
       r = \<lparr>lockStart = 15, lockEnd = 19, lockType = F_WRLCK, lockPID = 7\<rparr>
   in applyFileLock old r =
        [\<lparr>lockStart = 10, lockEnd = 14, lockType = F_RDLCK, lockPID = 7\<rparr>,
         r,
         \<lparr>lockStart = 20, lockEnd = 29, lockType = F_RDLCK, lockPID = 7\<rparr>]
      \<and> (\<forall>b. type_at (applyFileLock old r) b = set_range (type_at old) r b)"
proof -
  let ?old = "[\<lparr>lockStart = 10, lockEnd = 29, lockType = F_RDLCK, lockPID = 7\<rparr>]"
  let ?r = "\<lparr>lockStart = 15, lockEnd = 19, lockType = F_WRLCK, lockPID = 7\<rparr>"
  have "locks_wf ?old \<and> validateFileLock (Some ?r) = Inr ()" by code_simp
  then have "\<forall>b. type_at (applyFileLock ?old ?r) b = set_range (type_at ?old) ?r b"
    using applyFileLock_refines by blast
  moreover have "applyFileLock ?old ?r =
        [\<lparr>lockStart = 10, lockEnd = 14, lockType = F_RDLCK, lockPID = 7\<rparr>,
         ?r, \<lparr>lockStart = 20, lockEnd = 29, lockType = F_RDLCK, lockPID = 7\<rparr>]"
    by code_simp
  ultimately show ?thesis by (simp add: Let_def)
qed

end
