(* ===== verification/Redis_Tx.thy ===== *)
theory Redis_Tx
  imports Client_Base
begin

text \<open>
  Guarded optimistic transactions of the filesystem client: the request context (lease, workspace
  generation, expected parents), \<open>checkGeneration\<close> (\<open>publication.go\<close>), \<open>watchExpectedParents\<close>
  (\<open>native_parent.go\<close>) and \<open>retryWatch\<close> (\<open>native_helpers.go\<close>), all under
  \<open>src/mount/internal/client\<close>. The Redis server is an argument: \<open>redis_read\<close> has the reads the
  guards make. A transaction body maps the database it watches to the commands it queues; the
  server either executes them all on that database or, when a watched key changed, none of them.
  A round trip that fails to reach the server returns its error and changes nothing; it is not
  modelled. The lemmas show what a committed transaction has checked.
\<close>

section \<open>Decimal numbers (strconv.FormatUint)\<close>

definition digit_char :: "nat \<Rightarrow> char" where
  "digit_char d = ''0123456789'' ! d"

fun FormatUint :: "nat \<Rightarrow> string" where
  "FormatUint n =
     (if n < 10 then [digit_char n] else FormatUint (n div 10) @ [digit_char (n mod 10)])"

declare FormatUint.simps [simp del]

section \<open>Request context\<close>

text \<open>The values the client keeps in a \<open>context.Context\<close>. An absent lease is the empty string,
  as \<open>nativeLease\<close> returns it.\<close>

record op_ctx =
  ctx_lease :: string
  ctx_generation :: "string option"
  ctx_checked :: bool
  ctx_parents :: "(string \<times> nat) list"

record 'db redis_read =
  r_get :: "'db \<Rightarrow> string \<Rightarrow> string option"
  r_hget :: "'db \<Rightarrow> string \<Rightarrow> string \<Rightarrow> string option"

definition checkGeneration ::
  "('db, 'x) redis_read_scheme \<Rightarrow> keyBuilder \<Rightarrow> op_ctx \<Rightarrow> 'db \<Rightarrow> client_error + unit" where
  "checkGeneration R kb ctx db =
     (if ctx_checked ctx then Inr ()
      else case ctx_generation ctx of
        None \<Rightarrow> Inr ()
      | Some generation \<Rightarrow>
          let lease = ctx_lease ctx;
              actual = r_get R db (kb_generation kb)
          in if lease \<noteq> [] then
               (if actual \<noteq> Some generation \<or> generation = ''deleted'' then Inl ErrWorkspaceChanged
                else if r_get R db lease = None then Inl ErrNativeSessionLost
                else Inr ())
             else
               (case actual of
                  None \<Rightarrow> Inl ErrWorkspaceChanged
                | Some a \<Rightarrow> if a \<noteq> generation \<or> a = ''deleted'' then Inl ErrWorkspaceChanged
                            else Inr ()))"

definition rootInodeID :: string where "rootInodeID = ''1''"

fun walk_dirents ::
  "('db, 'x) redis_read_scheme \<Rightarrow> keyBuilder \<Rightarrow> 'db \<Rightarrow> string \<Rightarrow> string list \<Rightarrow> client_error + string" where
  "walk_dirents R kb db i [] = Inr i"
| "walk_dirents R kb db i (name # names) =
     (case r_hget R db (kb_dirents kb i) name of
        None \<Rightarrow> Inl ErrWriteConflict
      | Some j \<Rightarrow> walk_dirents R kb db j names)"

fun watchExpectedParents ::
  "('db, 'x) redis_read_scheme \<Rightarrow> keyBuilder \<Rightarrow> (string \<times> nat) list \<Rightarrow> 'db \<Rightarrow> client_error + unit" where
  "watchExpectedParents R kb [] db = Inr ()"
| "watchExpectedParents R kb ((path, expected) # parents) db =
     (if expected = 0 then Inl ErrWriteConflict
      else rbind (walk_dirents R kb db rootInodeID (splitComponents path)) (\<lambda>i.
        if i \<noteq> FormatUint expected then Inl ErrWriteConflict
        else watchExpectedParents R kb parents db))"

section \<open>Optimistic transactions\<close>

text \<open>What \<open>retryWatch\<close> checks inside the transaction before it runs the body.\<close>

definition tx_guard ::
  "('db, 'x) redis_read_scheme \<Rightarrow> keyBuilder \<Rightarrow> op_ctx \<Rightarrow> 'db \<Rightarrow> client_error + unit" where
  "tx_guard R kb ctx db =
     (if ctx_lease ctx \<noteq> [] \<and> r_get R db (ctx_lease ctx) = None then Inl ErrNativeSessionLost
      else case ctx_generation ctx of
        None \<Rightarrow> watchExpectedParents R kb (ctx_parents ctx) db
      | Some generation \<Rightarrow>
          if r_get R db (kb_generation kb) \<noteq> Some generation then Inl ErrWorkspaceChanged
          else watchExpectedParents R kb (ctx_parents ctx) db)"

text \<open>
  One \<open>Watch\<close> call: \<open>raced\<close> says that a watched key changed before EXEC, so that the queued
  commands are discarded. The loop of \<open>retryWatch\<close> gives up after 16 attempts; attempt \<open>i\<close>
  sees the database and the race of \<open>env i\<close>.
\<close>

definition watch_once ::
  "('db, 'x) redis_read_scheme \<Rightarrow> keyBuilder \<Rightarrow> op_ctx \<Rightarrow> ('db \<Rightarrow> 'cmd list \<Rightarrow> 'db)
   \<Rightarrow> ('db \<Rightarrow> client_error + 'cmd list) \<Rightarrow> 'db \<Rightarrow> bool \<Rightarrow> client_error + 'db" where
  "watch_once R kb ctx exec body db raced =
     rbind (tx_guard R kb ctx db) (\<lambda>_.
     rbind (body db) (\<lambda>cmds.
       if raced then Inl ErrTxFailed else Inr (exec db cmds)))"

fun retry_loop :: "nat \<Rightarrow> nat \<Rightarrow> (nat \<Rightarrow> client_error + 'a) \<Rightarrow> client_error + 'a" where
  "retry_loop 0 i attempt = Inl ErrTxFailed"
| "retry_loop (Suc n) i attempt =
     (if attempt i = Inl ErrTxFailed then retry_loop n (Suc i) attempt else attempt i)"

definition retryWatch ::
  "('db, 'x) redis_read_scheme \<Rightarrow> keyBuilder \<Rightarrow> op_ctx \<Rightarrow> ('db \<Rightarrow> 'cmd list \<Rightarrow> 'db)
   \<Rightarrow> (nat \<Rightarrow> 'db \<times> bool) \<Rightarrow> (nat \<Rightarrow> 'db \<Rightarrow> client_error + 'cmd list) \<Rightarrow> client_error + 'db" where
  "retryWatch R kb ctx exec env body =
     retry_loop 16 0 (\<lambda>i. watch_once R kb ctx exec (body i) (fst (env i)) (snd (env i)))"

section \<open>Lemmas\<close>

lemma retry_loop_commits:
  "retry_loop n i attempt = Inr r \<Longrightarrow> \<exists>j. i \<le> j \<and> j < i + n \<and> attempt j = Inr r"
proof (induction n arbitrary: i)
  case 0
  then show ?case by simp
next
  case (Suc n)
  show ?case
  proof (cases "attempt i = Inl ErrTxFailed")
    case True
    then obtain j where "Suc i \<le> j" "j < Suc i + n" "attempt j = Inr r"
      using Suc.IH [of "Suc i"] Suc.prems by auto
    then show ?thesis by (intro exI [of _ j]) simp
  next
    case False
    then show ?thesis using Suc.prems by (intro exI [of _ i]) simp
  qed
qed

lemma retry_loop_fails:
  "(\<And>k. i \<le> k \<Longrightarrow> k < i + n \<Longrightarrow> attempt k = Inl ErrTxFailed) \<Longrightarrow>
     retry_loop n i attempt = Inl ErrTxFailed"
  by (induction n arbitrary: i) simp_all

lemma watch_once_Inr:
  "watch_once R kb ctx exec body db raced = Inr db' \<longleftrightarrow>
     \<not> raced \<and> tx_guard R kb ctx db = Inr () \<and> (\<exists>cmds. body db = Inr cmds \<and> db' = exec db cmds)"
  by (auto simp: watch_once_def rbind_def split: sum.splits if_splits)

lemma retryWatch_commits:
  assumes "retryWatch R kb ctx exec env body = Inr db'"
  obtains i cmds where "i < 16" and "\<not> snd (env i)" and "tx_guard R kb ctx (fst (env i)) = Inr ()"
    and "body i (fst (env i)) = Inr cmds" and "db' = exec (fst (env i)) cmds"
proof -
  obtain j where "j < 16" "watch_once R kb ctx exec (body j) (fst (env j)) (snd (env j)) = Inr db'"
    using retry_loop_commits [OF assms [unfolded retryWatch_def]] by auto
  then show ?thesis using that by (auto simp: watch_once_Inr)
qed

lemma tx_guard_session:
  "tx_guard R kb ctx db = Inr () \<Longrightarrow> ctx_lease ctx \<noteq> [] \<Longrightarrow> r_get R db (ctx_lease ctx) \<noteq> None"
  by (auto simp: tx_guard_def split: if_splits)

lemma tx_guard_generation:
  "tx_guard R kb ctx db = Inr () \<Longrightarrow> ctx_generation ctx = Some g \<Longrightarrow>
     r_get R db (kb_generation kb) = Some g"
  by (auto simp: tx_guard_def split: if_splits)

lemma watchExpectedParents_ok:
  "watchExpectedParents R kb parents db = Inr () \<Longrightarrow> (p, n) \<in> set parents \<Longrightarrow>
     n \<noteq> 0 \<and> walk_dirents R kb db rootInodeID (splitComponents p) = Inr (FormatUint n)"
  by (induction R kb parents db rule: watchExpectedParents.induct)
     (auto simp: rbind_def split: if_splits sum.splits)

lemma tx_guard_parents:
  "tx_guard R kb ctx db = Inr () \<Longrightarrow> watchExpectedParents R kb (ctx_parents ctx) db = Inr ()"
  by (auto simp: tx_guard_def split: if_splits option.splits)

text \<open>C14. A transaction of \<open>retryWatch\<close> commits only on a database where the session's lease
  exists, the workspace has the generation the request was bound to and every expected parent
  path still leads to the expected inode; it commits within 16 attempts and applies exactly the
  commands its body queued on that database.\<close>

theorem retryWatch_commit_guarded:
  assumes "retryWatch R kb ctx exec env body = Inr db'"
  shows "\<exists>i < 16. \<exists>cmds. let db = fst (env i) in
      \<not> snd (env i) \<and> body i db = Inr cmds \<and> db' = exec db cmds
      \<and> (ctx_lease ctx \<noteq> [] \<longrightarrow> r_get R db (ctx_lease ctx) \<noteq> None)
      \<and> (\<forall>g. ctx_generation ctx = Some g \<longrightarrow> r_get R db (kb_generation kb) = Some g)
      \<and> (\<forall>(p, n) \<in> set (ctx_parents ctx).
           walk_dirents R kb db rootInodeID (splitComponents p) = Inr (FormatUint n))"
proof -
  obtain i cmds where i: "i < 16" "\<not> snd (env i)" "tx_guard R kb ctx (fst (env i)) = Inr ()"
    "body i (fst (env i)) = Inr cmds" "db' = exec (fst (env i)) cmds"
    using retryWatch_commits [OF assms] .
  note guards = tx_guard_session [OF i(3)] tx_guard_generation [OF i(3)]
    watchExpectedParents_ok [OF tx_guard_parents [OF i(3)]]
  show ?thesis using i guards by (intro exI [of _ i] exI [of _ cmds]) (auto simp: Let_def)
qed

theorem retryWatch_commit_guarded_witness:
  "let R = \<lparr>r_get = map_of, r_hget = (\<lambda>db k f. if k = ''afs:{w}:dirents:1'' \<and> f = ''d'' then Some ''12'' else None)\<rparr>;
       kb = \<lparr>fsKey = ''w''\<rparr>;
       ctx = \<lparr>ctx_lease = ''L'', ctx_generation = Some ''g1'', ctx_checked = False,
              ctx_parents = [(''/d'', 12)]\<rparr>;
       db = [(''L'', ''1''), (''afs:{w}:generation'', ''g1'')];
       env = (\<lambda>i. (db, i = 0));
       body = (\<lambda>i _. Inr [(''k'', ''v'')])
   in retryWatch R kb ctx (\<lambda>db cmds. cmds @ db) env body = Inr ((''k'', ''v'') # db)
      \<and> (\<exists>i < 16. \<not> snd (env i) \<and> r_get R (fst (env i)) ''L'' \<noteq> None)"
proof -
  let ?R = "\<lparr>r_get = map_of, r_hget = (\<lambda>db k f. if k = ''afs:{w}:dirents:1'' \<and> f = ''d'' then Some ''12'' else None)\<rparr>"
  let ?kb = "\<lparr>fsKey = ''w''\<rparr>"
  let ?ctx = "\<lparr>ctx_lease = ''L'', ctx_generation = Some ''g1'', ctx_checked = False,
              ctx_parents = [(''/d'', 12)]\<rparr>"
  let ?db = "[(''L'', ''1''), (''afs:{w}:generation'', ''g1'')]"
  let ?env = "\<lambda>i::nat. (?db, i = 0)"
  let ?body = "\<lambda>(i::nat) (_::(string \<times> string) list). Inr [(''k'', ''v'')] :: client_error + (string \<times> string) list"
  have run: "retryWatch ?R ?kb ?ctx (\<lambda>db cmds. cmds @ db) ?env ?body = Inr ((''k'', ''v'') # ?db)"
    by code_simp
  show ?thesis
    using retryWatch_commit_guarded [OF run] run by (auto simp: Let_def)
qed

end
