(* ===== verification/Lock_Store.thy ===== *)
theory Lock_Store
  imports File_Locks Redis_Tx
begin

text \<open>
  The lock table of an inode in Redis: \<open>Getlk\<close>, \<open>Setlk\<close>, \<open>UnlockAll\<close> and \<open>trySetLock\<close> of
  \<open>src/mount/internal/client/native_locks.go\<close>, over the range algebra of \<open>File_Locks\<close> and the
  transactions of \<open>Redis_Tx\<close>. The table is a hash from owner to the JSON list of that owner's
  locks; a JSON document is represented by the list it decodes to. The server is the argument
  \<open>lock_redis\<close> and \<open>lock_redis_laws\<close> states what HSET, HDEL and EXPIRE are documented to do.
  The lemmas show that no interleaving of lock requests, lease expiry and key expiry lets two live
  owners hold conflicting locks on a byte.
\<close>

section \<open>The server\<close>

datatype lock_value = LockJSON "FileLock list" | LockMalformed

datatype lock_cmd =
    HSet string string lock_value
  | HDel string "string list"
  | Expire string nat

record 'db lock_redis = "'db redis_read" +
  r_hgetall :: "'db \<Rightarrow> string \<Rightarrow> (string \<times> lock_value) list"
  r_exec :: "'db \<Rightarrow> lock_cmd list \<Rightarrow> 'db"

text \<open>What one queued command does to the hash at a key; EXPIRE only sets a deadline.\<close>

fun cmd_effect :: "string \<Rightarrow> lock_cmd \<Rightarrow> (string \<rightharpoonup> lock_value) \<Rightarrow> (string \<rightharpoonup> lock_value)" where
  "cmd_effect key (HSet k f v) m = (if k = key then m(f \<mapsto> v) else m)"
| "cmd_effect key (HDel k fs) m = (if k = key then m |` (- set fs) else m)"
| "cmd_effect key (Expire k n) m = m"

definition lock_redis_laws :: "('db, 'x) lock_redis_scheme \<Rightarrow> bool" where
  "lock_redis_laws R \<longleftrightarrow>
     (\<forall>db k. distinct (map fst (r_hgetall R db k))) \<and>
     (\<forall>db cmds k. map_of (r_hgetall R (r_exec R db cmds) k) =
        fold (cmd_effect k) cmds (map_of (r_hgetall R db k))) \<and>
     (\<forall>db cmds k. r_get R (r_exec R db cmds) k = r_get R db k)"

section \<open>Reading the table\<close>

definition nativeSessionTTL :: nat where "nativeSessionTTL = 60"

fun decodeLockState :: "(string \<times> lock_value) list \<Rightarrow> client_error + (string \<times> FileLock list) list" where
  "decodeLockState [] = Inr []"
| "decodeLockState ((handleID, raw) # values) =
     (case raw of
        LockMalformed \<Rightarrow> Inl (ErrOther ''json'')
      | LockJSON stored \<Rightarrow>
          rbind (decodeLockState values) (\<lambda>out. Inr ((handleID, normalizeFileLocks stored) # out)))"

definition encodeFileLocks :: "FileLock list \<Rightarrow> lock_value" where
  "encodeFileLocks locks = LockJSON (normalizeFileLocks locks)"

text \<open>\<open>strings.Cut(owner, "|")\<close>, then the test that the first part is a session key.\<close>

definition owner_lease :: "string \<Rightarrow> string" where
  "owner_lease owner = takeWhile (\<lambda>c. c \<noteq> CHR ''|'') owner"

definition session_owner :: "keyBuilder \<Rightarrow> string \<Rightarrow> bool" where
  "session_owner kb owner \<longleftrightarrow> CHR ''|'' \<in> set owner \<and> HasPrefix (owner_lease owner) (kb_session kb [])"

definition pruneExpiredLocks ::
  "('db, 'x) lock_redis_scheme \<Rightarrow> keyBuilder \<Rightarrow> 'db \<Rightarrow> (string \<times> FileLock list) list
   \<Rightarrow> (string \<times> FileLock list) list \<times> string list" where
  "pruneExpiredLocks R kb db state =
     (let owners = filter (session_owner kb) (map fst state);
          stale = filter (\<lambda>owner. r_get R db (owner_lease owner) = None) owners
      in (filter (\<lambda>(owner, _). owner \<notin> set stale) state, stale))"

definition loadLockState ::
  "('db, 'x) lock_redis_scheme \<Rightarrow> keyBuilder \<Rightarrow> nat \<Rightarrow> 'db \<Rightarrow> client_error + (string \<times> FileLock list) list" where
  "loadLockState R kb inode db =
     rbind (decodeLockState (r_hgetall R db (kb_locks kb (FormatUint inode)))) (\<lambda>state.
       Inr (fst (pruneExpiredLocks R kb db state)))"

text \<open>The search of \<open>Getlk\<close> for the first conflicting lock by start and end.\<close>

fun first_conflict :: "FileLock \<Rightarrow> FileLock option \<Rightarrow> FileLock list \<Rightarrow> FileLock option" where
  "first_conflict lk conflict [] = conflict"
| "first_conflict lk conflict (existing # locks) =
     (if \<not> locksConflict existing lk then first_conflict lk conflict locks
      else case conflict of
        None \<Rightarrow> first_conflict lk (Some existing) locks
      | Some c \<Rightarrow>
          if lockStart existing < lockStart c
             \<or> (lockStart existing = lockStart c \<and> lockEnd existing < lockEnd c)
          then first_conflict lk (Some existing) locks
          else first_conflict lk conflict locks)"

fun scan_owners ::
  "string \<Rightarrow> FileLock \<Rightarrow> FileLock option \<Rightarrow> (string \<times> FileLock list) list \<Rightarrow> FileLock option" where
  "scan_owners handleID lk conflict [] = conflict"
| "scan_owners handleID lk conflict ((owner, ownerLocks) # state) =
     (if owner = handleID then scan_owners handleID lk conflict state
      else scan_owners handleID lk (first_conflict lk conflict ownerLocks) state)"

definition no_lock :: FileLock where
  "no_lock = \<lparr>lockStart = 0, lockEnd = 0, lockType = F_UNLCK, lockPID = 0\<rparr>"

definition Getlk ::
  "('db, 'x) lock_redis_scheme \<Rightarrow> keyBuilder \<Rightarrow> op_ctx \<Rightarrow> nat \<Rightarrow> string \<Rightarrow> FileLock option \<Rightarrow> 'db
   \<Rightarrow> client_error + FileLock" where
  "Getlk R kb ctx inode handleID lk db =
     rbind (checkGeneration R kb ctx db) (\<lambda>_.
     rbind (validateFileLock lk) (\<lambda>_.
     rbind (loadLockState R kb inode db) (\<lambda>locks.
       case scan_owners handleID (the lk) None locks of
         None \<Rightarrow> Inr no_lock
       | Some conflict \<Rightarrow> Inr conflict)))"

section \<open>Changing the table\<close>

definition blocked :: "string \<Rightarrow> FileLock \<Rightarrow> (string \<times> FileLock list) list \<Rightarrow> bool" where
  "blocked handleID lk state \<longleftrightarrow>
     lockType lk \<noteq> F_UNLCK \<and>
     (\<exists>(owner, ownerLocks) \<in> set state.
        owner \<noteq> handleID \<and> (\<exists>existing \<in> set ownerLocks. locksConflict existing lk))"

text \<open>The transaction body of \<open>trySetLock\<close>. The leases are read outside the transaction, from
  the database \<open>seen\<close> of that moment.\<close>

definition trySetLock_tx ::
  "('db, 'x) lock_redis_scheme \<Rightarrow> keyBuilder \<Rightarrow> nat \<Rightarrow> string \<Rightarrow> FileLock \<Rightarrow> 'db \<Rightarrow> 'db
   \<Rightarrow> client_error + lock_cmd list" where
  "trySetLock_tx R kb inode handleID lk seen db =
     (let lockKey = kb_locks kb (FormatUint inode)
      in case r_hget R db (kb_inode kb (FormatUint inode)) ''type'' of
        None \<Rightarrow> Inl ErrNotFound
      | Some kind \<Rightarrow>
          if kind \<noteq> ''file'' then Inl ErrNotFile
          else rbind (decodeLockState (r_hgetall R db lockKey)) (\<lambda>loaded.
            let (state, stale) = pruneExpiredLocks R kb seen loaded;
                current = (case map_of state handleID of None \<Rightarrow> [] | Some ls \<Rightarrow> ls)
            in if blocked handleID lk state then Inl ErrLockWouldBlock
               else
                 let nextLocks = applyFileLock current lk
                 in Inr ((if stale \<noteq> [] then [HDel lockKey stale] else []) @
                         (if nextLocks = [] then [HDel lockKey [handleID]]
                          else [HSet lockKey handleID (encodeFileLocks nextLocks)]) @
                         [Expire lockKey (nativeSessionTTL * 2)])))"

definition trySetLock ::
  "('db, 'x) lock_redis_scheme \<Rightarrow> keyBuilder \<Rightarrow> op_ctx \<Rightarrow> nat \<Rightarrow> string \<Rightarrow> FileLock
   \<Rightarrow> (nat \<Rightarrow> 'db) \<Rightarrow> (nat \<Rightarrow> 'db \<times> bool) \<Rightarrow> client_error + 'db" where
  "trySetLock R kb ctx inode handleID lk seen env =
     (if handleID = [] then Inl (ErrOther ''empty lock owner'')
      else retryWatch R kb ctx (r_exec R) env (\<lambda>i. trySetLock_tx R kb inode handleID lk (seen i)))"

text \<open>
  \<open>Setlk\<close> that waits retries while it would block, every 50ms, until the context ends:
  \<open>try i\<close> is the outcome of attempt \<open>i\<close> and \<open>done i\<close> the context error found after it. The
  loop may run forever; \<open>fuel\<close> bounds the attempts and \<open>None\<close> is a loop still waiting.
\<close>

fun Setlk_wait ::
  "nat \<Rightarrow> nat \<Rightarrow> (nat \<Rightarrow> client_error + 'a) \<Rightarrow> (nat \<Rightarrow> client_error option) \<Rightarrow> (client_error + 'a) option" where
  "Setlk_wait 0 i try ctxDone = None"
| "Setlk_wait (Suc fuel) i try ctxDone =
     (if try i = Inl ErrLockWouldBlock then
        (case ctxDone i of
           Some err \<Rightarrow> Some (Inl err)
         | None \<Rightarrow> Setlk_wait fuel (Suc i) try ctxDone)
      else Some (try i))"

definition Setlk ::
  "('db, 'x) lock_redis_scheme \<Rightarrow> keyBuilder \<Rightarrow> op_ctx \<Rightarrow> nat \<Rightarrow> string \<Rightarrow> FileLock option \<Rightarrow> bool
   \<Rightarrow> nat \<Rightarrow> (nat \<Rightarrow> nat \<Rightarrow> 'db) \<Rightarrow> (nat \<Rightarrow> nat \<Rightarrow> 'db \<times> bool) \<Rightarrow> (nat \<Rightarrow> client_error option)
   \<Rightarrow> (client_error + 'db) option" where
  "Setlk R kb ctx inode handleID lk wait fuel seen env ctxDone =
     (case validateFileLock lk of
        Inl err \<Rightarrow> Some (Inl err)
      | Inr _ \<Rightarrow>
          if \<not> wait then Some (trySetLock R kb ctx inode handleID (the lk) (seen 0) (env 0))
          else Setlk_wait fuel 0
                 (\<lambda>i. trySetLock R kb ctx inode handleID (the lk) (seen i) (env i)) ctxDone)"

definition UnlockAll_tx ::
  "keyBuilder \<Rightarrow> nat \<Rightarrow> string \<Rightarrow> 'db \<Rightarrow> client_error + lock_cmd list" where
  "UnlockAll_tx kb inode handleID db = Inr [HDel (kb_locks kb (FormatUint inode)) [handleID]]"

definition UnlockAll ::
  "('db, 'x) lock_redis_scheme \<Rightarrow> keyBuilder \<Rightarrow> op_ctx \<Rightarrow> nat \<Rightarrow> string \<Rightarrow> (nat \<Rightarrow> 'db \<times> bool)
   \<Rightarrow> client_error + 'db" where
  "UnlockAll R kb ctx inode handleID env =
     retryWatch R kb ctx (r_exec R) env (\<lambda>i. UnlockAll_tx kb inode handleID)"

section \<open>Interleavings\<close>

text \<open>
  The table of one inode as the decoded map, the owners that count, and the steps that change
  them: a committed \<open>trySetLock\<close> whose lease snapshot \<open>seen\<close> is no later than the commit (a
  lease still alive then was alive when read), a committed \<open>UnlockAll\<close>, and the environment, in
  which records and leases may vanish but a vanished lease never comes back: session keys are
  fresh, and \<open>renewNativeSession\<close> refuses to recreate one.
\<close>

definition lock_table ::
  "('db, 'x) lock_redis_scheme \<Rightarrow> keyBuilder \<Rightarrow> nat \<Rightarrow> 'db \<Rightarrow> (string \<rightharpoonup> lock_value)" where
  "lock_table R kb inode db = map_of (r_hgetall R db (kb_locks kb (FormatUint inode)))"

definition owner_live :: "('db, 'x) lock_redis_scheme \<Rightarrow> keyBuilder \<Rightarrow> 'db \<Rightarrow> string \<Rightarrow> bool" where
  "owner_live R kb db owner \<longleftrightarrow> session_owner kb owner \<longrightarrow> r_get R db (owner_lease owner) \<noteq> None"

inductive lock_step ::
  "('db, 'x) lock_redis_scheme \<Rightarrow> keyBuilder \<Rightarrow> nat \<Rightarrow> 'db \<Rightarrow> 'db \<Rightarrow> bool"
  for R kb inode where
  set_lock: "validateFileLock (Some lk) = Inr () \<Longrightarrow>
     trySetLock_tx R kb inode handleID lk seen db = Inr cmds \<Longrightarrow>
     (\<And>owner. owner \<in> dom (lock_table R kb inode db) \<Longrightarrow>
        owner_live R kb db owner \<Longrightarrow> owner_live R kb seen owner) \<Longrightarrow>
     lock_step R kb inode db (r_exec R db cmds)"
| unlock_all: "UnlockAll_tx kb inode handleID db = Inr cmds \<Longrightarrow>
     lock_step R kb inode db (r_exec R db cmds)"
| environment: "lock_table R kb inode db' \<subseteq>\<^sub>m lock_table R kb inode db \<Longrightarrow>
     (\<And>owner. owner \<in> dom (lock_table R kb inode db') \<Longrightarrow>
        owner_live R kb db' owner \<Longrightarrow> owner_live R kb db owner) \<Longrightarrow>
     lock_step R kb inode db db'"

inductive_cases lock_stepE: "lock_step R kb inode db db'"

definition decoded_table :: "(string \<rightharpoonup> lock_value) \<Rightarrow> string \<Rightarrow> FileLock list option" where
  "decoded_table T owner =
     (case T owner of Some (LockJSON ls) \<Rightarrow> Some (normalizeFileLocks ls) | _ \<Rightarrow> None)"

text \<open>The invariant, and what \<open>Getlk\<close> searches.\<close>

definition lock_inv :: "('db, 'x) lock_redis_scheme \<Rightarrow> keyBuilder \<Rightarrow> nat \<Rightarrow> 'db \<Rightarrow> bool" where
  "lock_inv R kb inode db \<longleftrightarrow>
     native_ranges.table_ok (owner_live R kb db) (decoded_table (lock_table R kb inode db))"

definition lock_key :: "FileLock \<Rightarrow> 64 word \<times> 64 word" where
  "lock_key l = (lockStart l, lockEnd l)"

definition others_locks :: "string \<Rightarrow> (string \<times> FileLock list) list \<Rightarrow> FileLock list" where
  "others_locks h state = concat (map snd (filter (\<lambda>(owner, _). owner \<noteq> h) state))"

text \<open>A server that meets the laws: string keys, hash fields and lock hashes in memory.\<close>

record mem_db =
  mem_strings :: "(string \<times> string) list"
  mem_fields :: "((string \<times> string) \<times> string) list"
  mem_locks :: "string \<Rightarrow> (string \<times> lock_value) list"

fun mem_cmd :: "lock_cmd \<Rightarrow> mem_db \<Rightarrow> mem_db" where
  "mem_cmd (HSet k f v) db = db\<lparr>mem_locks := (mem_locks db)(k := (f, v) # mem_locks db k)\<rparr>"
| "mem_cmd (HDel k fs) db =
     db\<lparr>mem_locks := (mem_locks db)(k := filter (\<lambda>(f, _). f \<notin> set fs) (mem_locks db k))\<rparr>"
| "mem_cmd (Expire k n) db = db"

definition mem_redis :: "mem_db lock_redis" where
  "mem_redis =
     \<lparr>r_get = (\<lambda>db. map_of (mem_strings db)),
      r_hget = (\<lambda>db k f. map_of (mem_fields db) (k, f)),
      r_hgetall = (\<lambda>db k. AList.clearjunk (mem_locks db k)),
      r_exec = (\<lambda>db cmds. fold mem_cmd cmds db)\<rparr>"

section \<open>Lemmas\<close>

lemma decodeLockState_map_of:
  "decodeLockState values = Inr state \<Longrightarrow>
     map_of state owner = decoded_table (map_of values) owner \<and> map fst state = map fst values
     \<and> (\<forall>o'. map_of values o' \<noteq> Some LockMalformed)"
  by (induction "values" arbitrary: state rule: decodeLockState.induct)
     (auto simp: rbind_def decoded_table_def split: sum.splits lock_value.splits)

lemma prune_map_of:
  assumes "pruneExpiredLocks R kb seen state = (kept, stale)" and "gomap_wf state"
  shows "map_of kept owner = (if owner_live R kb seen owner then map_of state owner else None)"
    and "set stale = {owner \<in> fst ` set state. \<not> owner_live R kb seen owner}"
    and "gomap_wf kept"
proof -
  show stale: "set stale = {owner \<in> fst ` set state. \<not> owner_live R kb seen owner}"
    using assms(1) by (force simp: pruneExpiredLocks_def Let_def owner_live_def)
  have kept: "kept = filter (\<lambda>(owner, _). owner \<notin> set stale) state"
    using assms(1) unfolding pruneExpiredLocks_def Let_def by (metis prod.inject)
  show "gomap_wf kept" using assms(2) by (simp add: kept gomap_wf_filter)
  show "map_of kept owner = (if owner_live R kb seen owner then map_of state owner else None)"
    using map_of_filter_distinct [OF assms(2), of "\<lambda>o' _. o' \<notin> set stale" owner] stale
    by (force simp: kept split: option.splits dest: map_of_SomeD)
qed

lemma unlock_no_conflict: "lockType lk = F_UNLCK \<Longrightarrow> \<not> locksConflict l lk"
  by (simp add: locksConflict_def)

text \<open>The whole effect of a committed lock request on the table.\<close>

lemma trySetLock_tx_cases:
  assumes laws: "lock_redis_laws R" and run: "trySetLock_tx R kb inode h lk seen db = Inr cmds"
  obtains T where "T = decoded_table (lock_table R kb inode db)"
    and "\<And>k ks l. k \<noteq> h \<Longrightarrow> owner_live R kb seen k \<Longrightarrow> T k = Some ks \<Longrightarrow> l \<in> set ks \<Longrightarrow> \<not> locksConflict l lk"
    and "\<exists>cur. cur = (if owner_live R kb seen h then case T h of None \<Rightarrow> [] | Some ls \<Rightarrow> ls else []) \<and>
       (let T' = lock_table R kb inode (r_exec R db cmds);
            next = applyFileLock cur lk
        in T' h = (if next = [] then None else Some (encodeFileLocks next)) \<and>
           (\<forall>k. k \<noteq> h \<longrightarrow> T' k = (if owner_live R kb seen k then lock_table R kb inode db k else None)))"
proof -
  let ?key = "kb_locks kb (FormatUint inode)"
  obtain loaded kept stale where
    loaded: "decodeLockState (r_hgetall R db ?key) = Inr loaded" and
    pruned: "pruneExpiredLocks R kb seen loaded = (kept, stale)" and
    free: "\<not> blocked h lk kept" and
    cmds: "cmds = (let next = applyFileLock (case map_of kept h of None \<Rightarrow> [] | Some ls \<Rightarrow> ls) lk in
      (if stale \<noteq> [] then [HDel ?key stale] else []) @
      (if next = [] then [HDel ?key [h]] else [HSet ?key h (encodeFileLocks next)]) @
      [Expire ?key (nativeSessionTTL * 2)])"
    using run by (auto simp: trySetLock_tx_def Let_def rbind_def split: option.splits if_splits sum.splits prod.splits)
  define T where "T = decoded_table (lock_table R kb inode db)"
  have dist: "gomap_wf (r_hgetall R db ?key)" using laws by (simp add: lock_redis_laws_def)
  have T: "map_of loaded k = T k" for k
    using decodeLockState_map_of [OF loaded] by (simp add: T_def lock_table_def)
  have wf: "gomap_wf loaded" using decodeLockState_map_of [OF loaded] dist by simp
  note kept = prune_map_of [OF pruned wf]
  have "\<not> locksConflict l lk" if "k \<noteq> h" "owner_live R kb seen k" "T k = Some ks" "l \<in> set ks" for k ks l
  proof -
    have "(k, ks) \<in> set kept" using that kept(1) T by (metis map_of_SomeD)
    then show ?thesis using free that unlock_no_conflict by (fastforce simp: blocked_def)
  qed
  moreover have "\<exists>cur. cur = (if owner_live R kb seen h then case T h of None \<Rightarrow> [] | Some ls \<Rightarrow> ls else []) \<and>
       (let T' = lock_table R kb inode (r_exec R db cmds);
            next = applyFileLock cur lk
        in T' h = (if next = [] then None else Some (encodeFileLocks next)) \<and>
           (\<forall>k. k \<noteq> h \<longrightarrow> T' k = (if owner_live R kb seen k then lock_table R kb inode db k else None)))"
  proof (intro exI conjI)
    let ?cur = "case map_of kept h of None \<Rightarrow> [] | Some ls \<Rightarrow> ls"
    show "?cur = (if owner_live R kb seen h then case T h of None \<Rightarrow> [] | Some ls \<Rightarrow> ls else [])"
      using kept(1) [of h] T by (auto split: option.splits if_splits)
    have eff: "lock_table R kb inode (r_exec R db cmds) =
        fold (cmd_effect ?key) cmds (lock_table R kb inode db)"
      using laws by (simp add: lock_table_def lock_redis_laws_def)
    have gone: "k \<in> set stale \<longleftrightarrow> k \<in> dom (lock_table R kb inode db) \<and> \<not> owner_live R kb seen k" for k
      using kept(2) decodeLockState_map_of [OF loaded]
      by (metis (mono_tags, lifting) dom_map_of_conv_image_fst list.set_map lock_table_def mem_Collect_eq)
    have absent: "lock_table R kb inode db k = None"
      if "stale = []" "\<not> owner_live R kb seen k" for k
      using gone [of k] that by auto
    show "let T' = lock_table R kb inode (r_exec R db cmds); next = applyFileLock ?cur lk
        in T' h = (if next = [] then None else Some (encodeFileLocks next)) \<and>
           (\<forall>k. k \<noteq> h \<longrightarrow> T' k = (if owner_live R kb seen k then lock_table R kb inode db k else None))"
      using gone absent unfolding Let_def unfolding eff unfolding cmds Let_def
      by (auto simp: restrict_map_def domIff simp del: not_None_eq)
  qed
  ultimately show ?thesis using that T_def by blast
qed


lemma normalize_store:
  assumes "locks_wf ls"
  shows "locks_wf (normalizeFileLocks ls)" and "type_at (normalizeFileLocks ls) b = type_at ls b"
proof -
  have *: "sorted_wrt lock_apart ls" "\<forall>l \<in> set ls. lock_ok l"
    using assms locks_wf_apart by (auto simp: locks_wf_def)
  note spec = normalizeFileLocks_spec [OF *]
  show wf: "locks_wf (normalizeFileLocks ls)" using spec by blast
  show "type_at (normalizeFileLocks ls) b = type_at ls b"
    using type_at_apart [OF locks_wf_apart [OF wf]] type_at_apart [OF *(1)] spec
    by (metis option.exhaust)
qed

lemma lock_inv_shrink:
  assumes "lock_inv R kb inode db"
    and "lock_table R kb inode db' \<subseteq>\<^sub>m lock_table R kb inode db"
    and "\<And>owner. owner \<in> dom (lock_table R kb inode db') \<Longrightarrow>
           owner_live R kb db' owner \<Longrightarrow> owner_live R kb db owner"
  shows "lock_inv R kb inode db'"
  unfolding lock_inv_def
proof (rule native_ranges.table_ok_submap [OF assms(1) [unfolded lock_inv_def]])
  let ?T = "lock_table R kb inode db" and ?T' = "lock_table R kb inode db'"
  have sub: "?T h = Some v" if "?T' h = Some v" for h v
    using assms(2) that by (metis domI map_le_def)
  show "decoded_table ?T h = Some ls" if "decoded_table ?T' h = Some ls" for h ls
    using that sub [of h] by (auto simp: decoded_table_def split: option.splits)
  show "owner_live R kb db h" if "h \<in> dom (decoded_table ?T')" "owner_live R kb db' h" for h
    using that assms(3) by (auto simp: decoded_table_def dom_def split: option.splits)
qed

lemma exec_live: "lock_redis_laws R \<Longrightarrow> owner_live R kb (r_exec R db cmds) = owner_live R kb db"
  by (auto simp: owner_live_def lock_redis_laws_def fun_eq_iff)

lemma lock_inv_set:
  assumes laws: "lock_redis_laws R" and inv: "lock_inv R kb inode db"
    and valid: "validateFileLock (Some lk) = Inr ()"
    and run: "trySetLock_tx R kb inode h lk seen db = Inr cmds"
    and seen: "\<And>owner. owner \<in> dom (lock_table R kb inode db) \<Longrightarrow>
        owner_live R kb db owner \<Longrightarrow> owner_live R kb seen owner"
  shows "lock_inv R kb inode (r_exec R db cmds)"
proof -
  let ?V = "lock_table R kb inode db" and ?V' = "lock_table R kb inode (r_exec R db cmds)"
  obtain T cur where T: "T = decoded_table ?V"
    and free: "\<And>k ks l. k \<noteq> h \<Longrightarrow> owner_live R kb seen k \<Longrightarrow> T k = Some ks \<Longrightarrow> l \<in> set ks
                 \<Longrightarrow> \<not> locksConflict l lk"
    and cur: "cur = (if owner_live R kb seen h then case T h of None \<Rightarrow> [] | Some ls \<Rightarrow> ls else [])"
    and own: "?V' h = (if applyFileLock cur lk = [] then None else Some (encodeFileLocks (applyFileLock cur lk)))"
    and others: "\<And>k. k \<noteq> h \<Longrightarrow> ?V' k = (if owner_live R kb seen k then ?V k else None)"
    by (rule trySetLock_tx_cases [OF laws run]) (auto simp: Let_def)
  let ?next = "normalizeFileLocks (normalizeFileLocks (applyFileLock cur lk))"
  have ok: "native_ranges.table_ok (owner_live R kb db) T" using inv by (simp add: lock_inv_def T)
  have cur: "cur = [] \<or> T h = Some cur" using cur by (auto split: if_splits option.splits)
  then have "locks_wf cur"
    using ok native_ranges.wf_empty unfolding native_ranges.table_ok_def by blast
  note wf = applyFileLock_spec(1) [OF this valid]
  note wf2 = normalize_store(1) [OF wf]
  have "native_ranges.table_ok (owner_live R kb db) (T(h \<mapsto> ?next))"
  proof (rule native_ranges.table_ok_grant [OF ok valid cur])
    show "\<not> locksConflict l lk" if "h \<noteq> k" "owner_live R kb db k" "T k = Some ks" "l \<in> set ks" for k ks l
    proof (rule free [OF _ _ that(3,4)])
      show "owner_live R kb seen k"
        using that seen [of k] by (auto simp: T decoded_table_def dom_def split: option.splits)
    qed (use that in auto)
    show "locks_wf ?next" by (rule normalize_store(1) [OF wf2])
    show "type_at ?next b = type_at (applyFileLock cur lk) b" for b
      using normalize_store(2) [OF wf2] normalize_store(2) [OF wf] by simp
  qed
  then show ?thesis
    unfolding lock_inv_def exec_live [OF laws]
  proof (rule native_ranges.table_ok_submap)
    show "(T(h \<mapsto> ?next)) k = Some ls" if "decoded_table ?V' k = Some ls" for k ls
      using that others [of k] own
      by (cases "k = h") (auto simp: decoded_table_def T encodeFileLocks_def split: if_splits option.splits)
  qed auto
qed

lemma lock_inv_step:
  "lock_step R kb inode db db' \<Longrightarrow> lock_redis_laws R \<Longrightarrow> lock_inv R kb inode db \<Longrightarrow> lock_inv R kb inode db'"
proof (induction rule: lock_step.induct)
  case (set_lock lk handleID seen db cmds)
  then show ?case by (intro lock_inv_set)
next
  case (unlock_all handleID db cmds)
  have "lock_table R kb inode (r_exec R db cmds) \<subseteq>\<^sub>m lock_table R kb inode db"
    using unlock_all by (auto simp: lock_table_def lock_redis_laws_def UnlockAll_tx_def map_le_def
          restrict_map_def split: if_splits)
  then show ?case
    using lock_inv_shrink [OF unlock_all(3)] exec_live [OF unlock_all(2)] by metis
next
  case (environment db' db)
  then show ?case by (elim lock_inv_shrink)
qed

lemma lock_inv_reachable:
  "(lock_step R kb inode)\<^sup>*\<^sup>* db0 db \<Longrightarrow> lock_redis_laws R \<Longrightarrow> lock_inv R kb inode db0 \<Longrightarrow>
     lock_inv R kb inode db"
  by (induction rule: rtranclp_induct) (auto intro: lock_inv_step)

lemma lock_inv_empty: "lock_table R kb inode db = Map.empty \<Longrightarrow> lock_inv R kb inode db"
  by (simp add: lock_inv_def native_ranges.table_ok_def decoded_table_def)

text \<open>\<open>Getlk\<close> looks for the first conflict in the order of start and end.\<close>

lemma first_conflict_append:
  "first_conflict lk c (xs @ ys) = first_conflict lk (first_conflict lk c xs) ys"
  by (induction lk c xs rule: first_conflict.induct) (auto split: option.splits)

lemma scan_owners_flat: "scan_owners h lk c state = first_conflict lk c (others_locks h state)"
  by (induction h lk c state rule: scan_owners.induct)
     (auto simp: others_locks_def first_conflict_append)

lemma first_conflict_Some_Cons:
  "first_conflict lk (Some k) (e # ls) =
     first_conflict lk (Some (if locksConflict e lk \<and> lock_key e < lock_key k then e else k)) ls"
  by (auto simp: lock_key_def less_prod_def)

lemma first_conflict_Some:
  "\<exists>m. first_conflict lk (Some k) ls = Some m \<and> (m = k \<or> m \<in> set ls \<and> locksConflict m lk)
     \<and> lock_key m \<le> lock_key k \<and> (\<forall>l \<in> set ls. locksConflict l lk \<longrightarrow> lock_key m \<le> lock_key l)"
proof (induction ls arbitrary: k)
  case Nil
  then show ?case by simp
next
  case (Cons e ls)
  define k' where "k' = (if locksConflict e lk \<and> lock_key e < lock_key k then e else k)"
  obtain m where m: "first_conflict lk (Some k') ls = Some m"
    "m = k' \<or> m \<in> set ls \<and> locksConflict m lk" "lock_key m \<le> lock_key k'"
    "\<forall>l \<in> set ls. locksConflict l lk \<longrightarrow> lock_key m \<le> lock_key l"
    using Cons.IH by blast
  have "lock_key k' \<le> lock_key k" "locksConflict e lk \<Longrightarrow> lock_key k' \<le> lock_key e"
    by (auto simp: k'_def)
  then have "lock_key m \<le> lock_key k" "locksConflict e lk \<Longrightarrow> lock_key m \<le> lock_key e"
    using m(3) order_trans by blast+
  moreover have "m = k \<or> m \<in> set (e # ls) \<and> locksConflict m lk"
    using m(2) by (auto simp: k'_def split: if_splits)
  ultimately show ?case
    using m(1,4) by (intro exI [of _ m]) (simp add: first_conflict_Some_Cons k'_def del: first_conflict.simps)
qed

lemma first_conflict_spec:
  "case first_conflict lk None ls of
     None \<Rightarrow> \<forall>l \<in> set ls. \<not> locksConflict l lk
   | Some m \<Rightarrow> m \<in> set ls \<and> locksConflict m lk
       \<and> (\<forall>l \<in> set ls. locksConflict l lk \<longrightarrow> lock_key m \<le> lock_key l)"
proof (induction ls)
  case Nil
  then show ?case by simp
next
  case (Cons e ls)
  show ?case
    using Cons first_conflict_Some [of lk e ls]
    by (cases "locksConflict e lk") (auto split: option.splits)
qed

lemma Setlk_wait_returns:
  assumes "try (i + n) \<noteq> Inl ErrLockWouldBlock \<or> ctxDone (i + n) \<noteq> None" and "n < fuel"
  shows "\<exists>r. Setlk_wait fuel i try ctxDone = Some r"
  using assms
proof (induction n arbitrary: i fuel)
  case 0
  then show ?case by (cases fuel) auto
next
  case (Suc n)
  then obtain m where "fuel = Suc m" by (cases fuel) auto
  with Suc show ?case by (auto split: option.splits)
qed

lemma lock_inv_exclusive:
  assumes "lock_inv R kb inode db" and "owner_live R kb db a" and "owner_live R kb db b" and "a \<noteq> b"
    and "decoded_table (lock_table R kb inode db) a = Some la"
    and "decoded_table (lock_table R kb inode db) b = Some lb"
    and "type_at la x = Some F_WRLCK"
  shows "type_at lb x = None"
proof (rule ccontr)
  assume "type_at lb x \<noteq> None"
  then obtain y where y: "type_at lb x = Some y" by blast
  have "native_ranges.compatible la lb"
    using assms(1-6) unfolding lock_inv_def native_ranges.table_ok_def by blast
  then show False using assms(7) y unfolding native_ranges.compatible_def by blast
qed

lemma mem_cmd_effect:
  "map_of (mem_locks (mem_cmd c db) k) = cmd_effect k c (map_of (mem_locks db k))"
proof -
  have "map_of (filter (\<lambda>(f, _). f \<notin> A) xs) = map_of xs |` (- A)" for A and xs :: "(string \<times> lock_value) list"
    by (induction xs) (auto simp: restrict_map_def fun_eq_iff)
  then show ?thesis by (cases c) auto
qed

lemma mem_redis_laws: "lock_redis_laws mem_redis"
proof -
  have "map_of (mem_locks (fold mem_cmd cmds db) k) = fold (cmd_effect k) cmds (map_of (mem_locks db k))"
    for cmds db k
    by (induction cmds arbitrary: db) (simp_all add: mem_cmd_effect)
  moreover have "mem_strings (mem_cmd c db) = mem_strings db" for c db by (cases c) auto
  then have "mem_strings (fold mem_cmd cmds db) = mem_strings db" for cmds db
    by (induction cmds arbitrary: db) simp_all
  ultimately show ?thesis
    by (simp add: lock_redis_laws_def mem_redis_def distinct_clearjunk map_of_clearjunk)
qed

text \<open>C1. Mutual exclusion. Start from an inode without locks and let any mix of lock requests,
  unlocks, lease expiries and record expiries happen in any order: two different live owners never
  hold a byte together when one of them holds it with a write lock.\<close>

theorem locks_never_conflict:
  assumes "lock_redis_laws R" and "lock_table R kb inode db0 = Map.empty"
    and "(lock_step R kb inode)\<^sup>*\<^sup>* db0 db"
    and "decodeLockState (r_hgetall R db (kb_locks kb (FormatUint inode))) = Inr state"
    and "a \<noteq> b" and "owner_live R kb db a" and "owner_live R kb db b"
    and "map_of state a = Some la" and "map_of state b = Some lb"
    and "type_at la x = Some F_WRLCK"
  shows "type_at lb x = None"
proof (rule lock_inv_exclusive)
  show "lock_inv R kb inode db"
    using lock_inv_reachable [OF assms(3,1)] lock_inv_empty [OF assms(2)] by blast
qed (use assms decodeLockState_map_of [OF assms(4)] in \<open>auto simp: lock_table_def\<close>)


text \<open>C26. A committed lock request updates the owner's own record to its locks with exactly the
  requested bytes changed, keeps the record of every other live owner and drops those of expired
  sessions.\<close>

theorem trySetLock_commit_effect:
  assumes "lock_redis_laws R" and "lock_inv R kb inode db" and "validateFileLock (Some lk) = Inr ()"
    and "trySetLock_tx R kb inode h lk seen db = Inr cmds" and "owner_live R kb seen h"
  shows "let T = decoded_table (lock_table R kb inode db);
             T' = decoded_table (lock_table R kb inode (r_exec R db cmds));
             ranges = (\<lambda>T. case T h of None \<Rightarrow> (\<lambda>_. None) | Some ls \<Rightarrow> type_at ls)
         in ranges T' = set_range (ranges T) lk
            \<and> (\<forall>k. k \<noteq> h \<longrightarrow> T' k = (if owner_live R kb seen k then T k else None))"
proof -
  let ?V = "lock_table R kb inode db" and ?V' = "lock_table R kb inode (r_exec R db cmds)"
  obtain cur where
    cur: "cur = (case decoded_table ?V h of None \<Rightarrow> [] | Some ls \<Rightarrow> ls)"
    and own: "?V' h = (if applyFileLock cur lk = [] then None else Some (encodeFileLocks (applyFileLock cur lk)))"
    and others: "\<And>k. k \<noteq> h \<Longrightarrow> ?V' k = (if owner_live R kb seen k then ?V k else None)"
    by (rule trySetLock_tx_cases [OF assms(1,4)]) (use assms(5) in \<open>auto simp: Let_def\<close>)
  have "locks_wf cur"
    using assms(2) native_ranges.wf_empty cur unfolding lock_inv_def native_ranges.table_ok_def
    by (auto split: option.splits)
  note spec = applyFileLock_spec [OF this assms(3)]
  have cur_at: "type_at cur = (case decoded_table ?V h of None \<Rightarrow> (\<lambda>_. None) | Some ls \<Rightarrow> type_at ls)"
    using native_ranges.kind_at_empty cur by (auto split: option.splits)
  have "(case decoded_table ?V' h of None \<Rightarrow> (\<lambda>_. None) | Some ls \<Rightarrow> type_at ls) = type_at (applyFileLock cur lk)"
    using own native_ranges.kind_at_empty normalize_store [OF normalize_store(1) [OF spec(1)]]
      normalize_store(2) [OF spec(1)]
    by (auto simp: decoded_table_def encodeFileLocks_def fun_eq_iff split: if_splits)
  then show ?thesis using others cur_at spec(2) by (auto simp: Let_def decoded_table_def)
qed


text \<open>Witnesses: two sessions on inode 7.\<close>

definition wit_kb :: keyBuilder where "wit_kb = \<lparr>fsKey = ''w''\<rparr>"

definition wit_db :: mem_db where
  "wit_db = \<lparr>mem_strings = [(''afs:{w}:session:a'', ''1''), (''afs:{w}:session:b'', ''1'')],
             mem_fields = [((''afs:{w}:inode:7'', ''type''), ''file'')], mem_locks = (\<lambda>_. [])\<rparr>"

definition wit_lock :: "64 word \<Rightarrow> 64 word \<Rightarrow> 32 word \<Rightarrow> FileLock" where
  "wit_lock s e t = \<lparr>lockStart = s, lockEnd = e, lockType = t, lockPID = 1\<rparr>"

definition wit_set :: "string \<Rightarrow> FileLock \<Rightarrow> mem_db \<Rightarrow> mem_db" where
  "wit_set h lk db =
     (case trySetLock_tx mem_redis wit_kb 7 h lk db db of Inr cmds \<Rightarrow> r_exec mem_redis db cmds | _ \<Rightarrow> db)"

abbreviation "wit_a \<equiv> ''afs:{w}:session:a|1''"
abbreviation "wit_b \<equiv> ''afs:{w}:session:b|1''"

definition wit_db2 :: mem_db where
  "wit_db2 = wit_set wit_b (wit_lock 20 29 F_RDLCK) (wit_set wit_a (wit_lock 0 9 F_WRLCK) wit_db)"

lemma wit_step:
  assumes "validateFileLock (Some lk) = Inr ()"
  shows "(lock_step mem_redis wit_kb 7)\<^sup>*\<^sup>* db (wit_set h lk db)"
proof (cases "trySetLock_tx mem_redis wit_kb 7 h lk db db")
  case (Inr cmds)
  have "lock_step mem_redis wit_kb 7 db (r_exec mem_redis db cmds)"
    by (rule lock_step.set_lock [OF assms Inr])
  then show ?thesis using Inr by (simp add: wit_set_def)
qed (simp add: wit_set_def)

theorem locks_never_conflict_witness:
  "map_of (mem_locks wit_db2 ''afs:{w}:locks:7'') wit_a = Some (LockJSON [wit_lock 0 9 F_WRLCK])
   \<and> type_at [wit_lock 20 29 F_RDLCK] 5 = None"
proof -
  have one: "(lock_step mem_redis wit_kb 7)\<^sup>*\<^sup>* wit_db (wit_set wit_a (wit_lock 0 9 F_WRLCK) wit_db)"
    by (rule wit_step) code_simp
  have two: "(lock_step mem_redis wit_kb 7)\<^sup>*\<^sup>* (wit_set wit_a (wit_lock 0 9 F_WRLCK) wit_db) wit_db2"
    unfolding wit_db2_def by (rule wit_step) code_simp
  note reach = rtranclp_trans [OF one two]
  have empty: "lock_table mem_redis wit_kb 7 wit_db = Map.empty"
    by (simp add: lock_table_def mem_redis_def wit_db_def)
  have state: "decodeLockState (r_hgetall mem_redis wit_db2 (kb_locks wit_kb (FormatUint 7))) =
      Inr [(wit_b, [wit_lock 20 29 F_RDLCK]), (wit_a, [wit_lock 0 9 F_WRLCK])]" by code_simp
  have "type_at [wit_lock 20 29 F_RDLCK] 5 = None"
    by (rule locks_never_conflict [OF mem_redis_laws empty reach state, of wit_a wit_b "[wit_lock 0 9 F_WRLCK]"])
       (simp | code_simp)+
  moreover have "map_of (mem_locks wit_db2 ''afs:{w}:locks:7'') wit_a = Some (LockJSON [wit_lock 0 9 F_WRLCK])"
    by code_simp
  ultimately show ?thesis by simp
qed


theorem trySetLock_commit_effect_witness:
  "\<exists>cmds. trySetLock_tx mem_redis wit_kb 7 wit_a (wit_lock 0 9 F_WRLCK) wit_db wit_db = Inr cmds
     \<and> (\<forall>k. k \<noteq> wit_a \<longrightarrow>
          decoded_table (lock_table mem_redis wit_kb 7 (r_exec mem_redis wit_db cmds)) k = None)"
proof -
  have "\<exists>cmds. trySetLock_tx mem_redis wit_kb 7 wit_a (wit_lock 0 9 F_WRLCK) wit_db wit_db = Inr cmds"
    by (rule exI, code_simp)
  then obtain cmds where
    run: "trySetLock_tx mem_redis wit_kb 7 wit_a (wit_lock 0 9 F_WRLCK) wit_db wit_db = Inr cmds" by blast
  have empty: "lock_table mem_redis wit_kb 7 wit_db = Map.empty"
    by (simp add: lock_table_def mem_redis_def wit_db_def)
  have "validateFileLock (Some (wit_lock 0 9 F_WRLCK)) = Inr ()" "owner_live mem_redis wit_kb wit_db wit_a"
    by code_simp+
  from trySetLock_commit_effect [OF mem_redis_laws lock_inv_empty [OF empty] this(1) run this(2)]
  show ?thesis using run empty by (intro exI [of _ cmds]) (auto simp: Let_def decoded_table_def)
qed


end
