(* ===== verification/Glob.thy ===== *)
theory Glob
  imports AFS_Prelude
begin

text \<open>
  Path globs of file history, which the program implements twice: in Go over \<open>path.Match\<close>
  (\<open>src/internal/filehistory/policy.go\<close>, used to validate and query) and in Lua
  (\<open>src/internal/filehistory/glob.lua\<close>, used inside Redis when a version is captured). Both are
  modelled with Go's \<open>path.Match\<close> and \<open>utf8.DecodeRuneInString\<close>. The lemmas show that both
  iterative matchers decide the recursive specification \<open>glob_spec\<close> over their segment matcher,
  and that on ASCII text the two segment matchers agree on every pattern the policy accepts.
\<close>

section \<open>Runes\<close>

definition RuneError :: nat where "RuneError = 65533"

definition byte :: "char \<Rightarrow> nat" where "byte c = of_char c"

definition cont_byte :: "nat \<Rightarrow> bool" where "cont_byte b \<longleftrightarrow> 128 \<le> b \<and> b < 192"

text \<open>\<open>utf8.DecodeRuneInString\<close>: the rune and its width; a byte that starts no valid encoding
  is \<open>RuneError\<close> of width 1.\<close>

definition DecodeRune :: "string \<Rightarrow> nat \<times> nat" where
  "DecodeRune s =
     (case map byte (take 4 s) of
        [] \<Rightarrow> (RuneError, 0)
      | b0 # bs \<Rightarrow>
          if b0 < 128 then (b0, 1)
          else if 194 \<le> b0 \<and> b0 < 224 then
            (case bs of
               b1 # _ \<Rightarrow> if cont_byte b1 then ((b0 - 192) * 64 + (b1 - 128), 2) else (RuneError, 1)
             | _ \<Rightarrow> (RuneError, 1))
          else if 224 \<le> b0 \<and> b0 < 240 then
            (case bs of
               b1 # b2 # _ \<Rightarrow>
                 if cont_byte b1 \<and> cont_byte b2 \<and> (b0 = 224 \<longrightarrow> 160 \<le> b1) \<and> (b0 = 237 \<longrightarrow> b1 < 160)
                 then ((b0 - 224) * 4096 + (b1 - 128) * 64 + (b2 - 128), 3) else (RuneError, 1)
             | _ \<Rightarrow> (RuneError, 1))
          else if 240 \<le> b0 \<and> b0 < 245 then
            (case bs of
               b1 # b2 # b3 # _ \<Rightarrow>
                 if cont_byte b1 \<and> cont_byte b2 \<and> cont_byte b3
                    \<and> (b0 = 240 \<longrightarrow> 144 \<le> b1) \<and> (b0 = 244 \<longrightarrow> b1 < 144)
                 then ((b0 - 240) * 262144 + (b1 - 128) * 4096 + (b2 - 128) * 64 + (b3 - 128), 4)
                 else (RuneError, 1)
             | _ \<Rightarrow> (RuneError, 1))
          else (RuneError, 1))"

lemma DecodeRune_width: "s \<noteq> [] \<Longrightarrow> 1 \<le> snd (DecodeRune s)"
  by (cases s) (auto simp: DecodeRune_def split: list.splits)

section \<open>Go's path.Match\<close>

text \<open>The result is \<open>None\<close> for \<open>ErrBadPattern\<close>.\<close>

definition getEsc :: "string \<Rightarrow> (nat \<times> string) option" where
  "getEsc chunk =
     (if chunk = [] \<or> hd chunk = CHR ''-'' \<or> hd chunk = CHR '']'' then None
      else
        let chunk' = (if hd chunk = CHR 0x5C then tl chunk else chunk)
        in if chunk' = [] then None
           else let (r, n) = DecodeRune chunk'
                in if r = RuneError \<and> n = 1 then None
                   else if drop n chunk' = [] then None
                   else Some (r, drop n chunk'))"

lemma getEsc_shorter: "getEsc chunk = Some (r, rest) \<Longrightarrow> rest \<noteq> [] \<and> length rest < length chunk"
  using DecodeRune_width [of chunk] DecodeRune_width [of "tl chunk"]
  by (cases chunk) (auto simp: getEsc_def Let_def split: if_splits prod.splits)

text \<open>The range loop of a character class: whether \<open>r\<close> is in one of the ranges, and what
  follows the class.\<close>

function class_loop :: "nat \<Rightarrow> bool \<Rightarrow> nat \<Rightarrow> string \<Rightarrow> (bool \<times> string) option" where
  "class_loop r matched nrange chunk =
     (if chunk \<noteq> [] \<and> hd chunk = CHR '']'' \<and> 0 < nrange then Some (matched, tl chunk)
      else
        case getEsc chunk of
          None \<Rightarrow> None
        | Some (lo, rest) \<Rightarrow>
            if hd rest = CHR ''-'' then
              (case getEsc (tl rest) of
                 None \<Rightarrow> None
               | Some (hi, rest') \<Rightarrow> class_loop r (matched \<or> lo \<le> r \<and> r \<le> hi) (nrange + 1) rest')
            else class_loop r (matched \<or> lo \<le> r \<and> r \<le> lo) (nrange + 1) rest)"
  by auto
termination
  by (relation "measure (\<lambda>(_, _, _, chunk). length chunk)")
     (auto dest!: getEsc_shorter)

declare class_loop.simps [simp del]

lemma class_loop_shorter:
  "class_loop r mt n chunk = Some (b, rest) \<Longrightarrow> length rest < length chunk"
proof (induction r mt n chunk rule: class_loop.induct)
  case (1 r mt n chunk)
  show ?case
  proof (cases "chunk \<noteq> [] \<and> hd chunk = CHR '']'' \<and> 0 < n")
    case True
    then show ?thesis using "1.prems" by (auto simp: class_loop.simps [of r mt n chunk])
  next
    case False
    then obtain lo mid where lo: "getEsc chunk = Some (lo, mid)"
      using "1.prems" by (cases "getEsc chunk") (auto simp: class_loop.simps [of r mt n chunk])
    show ?thesis
    proof (cases "hd mid = CHR ''-''")
      case True
      then obtain hi mid' where hi: "getEsc (tl mid) = Some (hi, mid')"
        using "1.prems" False lo
        by (cases "getEsc (tl mid)") (auto simp: class_loop.simps [of r mt n chunk])
      have "length rest < length mid'"
        using "1.IH"(1) [OF False lo refl True hi refl] "1.prems" False lo True hi
        by (auto simp: class_loop.simps [of r mt n chunk])
      then show ?thesis using getEsc_shorter [OF lo] getEsc_shorter [OF hi] by auto
    next
      case nodash: False
      have "length rest < length mid"
        using "1.IH"(2) [OF False lo refl nodash] "1.prems" False lo nodash
        by (auto simp: class_loop.simps [of r mt n chunk])
      then show ?thesis using getEsc_shorter [OF lo] by auto
    qed
  qed
qed

text \<open>\<open>matchChunk\<close>: once the match has failed, the chunk is only checked for its syntax.\<close>

function matchChunk :: "bool \<Rightarrow> string \<Rightarrow> string \<Rightarrow> (string \<times> bool) option" where
  "matchChunk failed [] s = Some (if failed then ([], False) else (s, True))"
| "matchChunk failed0 (c # chunk) s =
     (let failed = (failed0 \<or> s = [])
      in if c = CHR ''['' then
           (let (r, n) = (if failed then (0, 0) else DecodeRune s);
                s' = drop n s;
                negated = (chunk \<noteq> [] \<and> hd chunk = CHR ''^'');
                chunk' = (if negated then tl chunk else chunk)
            in case class_loop r False 0 chunk' of
                 None \<Rightarrow> None
               | Some (matched, rest) \<Rightarrow> matchChunk (failed \<or> matched = negated) rest s')
         else if c = CHR ''?'' then
           matchChunk (failed \<or> hd s = CHR ''/'') chunk (if failed then s else drop (snd (DecodeRune s)) s)
         else if c = CHR 0x5C then
           (case chunk of
              [] \<Rightarrow> None
            | d # chunk' \<Rightarrow> matchChunk (failed \<or> d \<noteq> hd s) chunk' (if failed then s else tl s))
         else matchChunk (failed \<or> c \<noteq> hd s) chunk (if failed then s else tl s))"
  by pat_completeness auto
termination
  by (relation "measure (\<lambda>(_, chunk, _). length chunk)")
     (auto dest!: class_loop_shorter split: if_splits)

declare matchChunk.simps(2) [simp del]

fun scan_len :: "bool \<Rightarrow> string \<Rightarrow> nat" where
  "scan_len inrange [] = 0"
| "scan_len inrange (c # p) =
     (if c = CHR 0x5C then (case p of [] \<Rightarrow> 1 | _ # p' \<Rightarrow> 2 + scan_len inrange p')
      else if c = CHR ''['' then 1 + scan_len True p
      else if c = CHR '']'' then 1 + scan_len False p
      else if c = CHR ''*'' \<and> \<not> inrange then 0
      else 1 + scan_len inrange p)"

definition scanChunk :: "string \<Rightarrow> bool \<times> string \<times> string" where
  "scanChunk pattern =
     (let p = dropWhile (\<lambda>c. c = CHR ''*'') pattern;
          i = scan_len False p
      in (pattern \<noteq> [] \<and> hd pattern = CHR ''*'', take i p, drop i p))"

lemma scanChunk_shorter:
  "pattern \<noteq> [] \<Longrightarrow> scanChunk pattern = (star, chunk, rest) \<Longrightarrow> length rest < length pattern"
proof -
  assume "pattern \<noteq> []" "scanChunk pattern = (star, chunk, rest)"
  then have rest: "rest = drop (scan_len False p) p" if "p = dropWhile (\<lambda>c. c = CHR ''*'') pattern" for p
    using that by (auto simp: scanChunk_def Let_def)
  obtain c cs where c: "pattern = c # cs" using \<open>pattern \<noteq> []\<close> by (cases pattern) auto
  show ?thesis
  proof (cases "c = CHR ''*''")
    case True
    then have "length rest \<le> length (dropWhile (\<lambda>c. c = CHR ''*'') cs)"
      using rest [OF refl] c by simp
    also have "\<dots> < length pattern" using c length_dropWhile_le [of _ cs] by (simp add: le_imp_less_Suc)
    finally show ?thesis .
  next
    case False
    then have "1 \<le> scan_len False pattern" by (auto simp: c split: list.splits)
    then show ?thesis using rest [OF refl] c False by simp
  qed
qed

text \<open>The syntax check of what is left of a pattern once the match has failed.\<close>

function check_rest :: "string \<Rightarrow> bool option" where
  "check_rest pattern =
     (if pattern = [] then Some False
      else case scanChunk pattern of (_, chunk, rest) \<Rightarrow>
        (case matchChunk False chunk [] of None \<Rightarrow> None | Some _ \<Rightarrow> check_rest rest))"
  by auto
termination
  by (relation "measure length") (auto dest!: scanChunk_shorter [OF _ sym])

declare check_rest.simps [simp del]

text \<open>The search after a star: the chunk may match after skipping one byte or more, none of them
  a slash. \<open>Some (Some t)\<close> is a match that leaves \<open>t\<close>, \<open>Some None\<close> no match.\<close>

fun star_search :: "bool \<Rightarrow> string \<Rightarrow> string \<Rightarrow> string option option" where
  "star_search lastc chunk [] = Some None"
| "star_search lastc chunk (c # name) =
     (if c = CHR ''/'' then Some None
      else case matchChunk False chunk name of
        None \<Rightarrow> None
      | Some (t, ok) \<Rightarrow>
          if ok \<and> \<not> (lastc \<and> t \<noteq> []) then Some (Some t)
          else star_search lastc chunk name)"

function path_Match :: "string \<Rightarrow> string \<Rightarrow> bool option" where
  "path_Match pattern name =
     (if pattern = [] then Some (name = [])
      else case scanChunk pattern of (star, chunk, rest) \<Rightarrow>
        if star \<and> chunk = [] then Some (CHR ''/'' \<notin> set name)
        else
          case matchChunk False chunk name of
            None \<Rightarrow> None
          | Some (t, ok) \<Rightarrow>
              if ok \<and> (t = [] \<or> rest \<noteq> []) then path_Match rest t
              else if star then
                (case star_search (rest = []) chunk name of
                   None \<Rightarrow> None
                 | Some (Some t') \<Rightarrow> path_Match rest t'
                 | Some None \<Rightarrow> check_rest rest)
              else check_rest rest)"
  by auto
termination
  by (relation "measure (\<lambda>(pattern, _). length pattern)") (auto dest!: scanChunk_shorter [OF _ sym])

declare path_Match.simps [simp del]

section \<open>historyGlob (policy.go)\<close>

text \<open>\<open>positions ! j\<close> says that the segments so far can match the first \<open>j\<close> parts.\<close>

fun scan_or :: "bool \<Rightarrow> bool list \<Rightarrow> bool list" where
  "scan_or active [] = []"
| "scan_or active (p # ps) = (active \<or> p) # scan_or (active \<or> p) ps"

definition glob_step :: "(string \<Rightarrow> string \<Rightarrow> bool) \<Rightarrow> string list \<Rightarrow> string \<Rightarrow> bool list \<Rightarrow> bool list" where
  "glob_step seg parts segment positions =
     (if segment = ''**'' then scan_or False positions
      else False # map (\<lambda>(p, part). p \<and> seg segment part) (zip positions parts))"

definition go_segment :: "string \<Rightarrow> string \<Rightarrow> bool" where
  "go_segment segment part = (path_Match segment part = Some True)"

definition MatchString :: "string list \<Rightarrow> string \<Rightarrow> bool" where
  "MatchString segments value =
     (let v = trim_slashes (TrimSpace value)
      in if v = [] then False
         else
           let parts = split_on (CHR ''/'') v;
               start = True # replicate (length parts) False
           in last (fold (glob_step go_segment parts) segments start))"

definition glob_segments :: "string \<Rightarrow> string list" where
  "glob_segments pattern = split_on (CHR ''/'') (trim_slashes (TrimSpace pattern))"

text \<open>\<open>compileGlob\<close>; \<open>None\<close> is an invalid pattern.\<close>

definition compileGlob :: "string \<Rightarrow> string list option" where
  "compileGlob pattern =
     (if TrimSpace pattern = [] \<or> 1024 < length pattern \<or> CHR 0x00 \<in> set pattern then None
      else if ''..'' \<in> set (split_on (CHR ''/'') pattern) then None
      else if list_all (\<lambda>segment. path_Match segment [] \<noteq> None) (glob_segments pattern)
      then Some (glob_segments pattern)
      else None)"

section \<open>glob.lua\<close>

text \<open>\<open>history_runes\<close> over the bytes of a string.\<close>

definition lua_width :: "nat \<Rightarrow> nat" where
  "lua_width b =
     (if b < 128 then 1 else if 240 \<le> b then 4 else if 224 \<le> b then 3 else if 192 \<le> b then 2 else 1)"

function lua_runes :: "nat list \<Rightarrow> nat list" where
  "lua_runes [] = []"
| "lua_runes (b # bs) =
     (let w = lua_width b;
          code = (if w = 1 then b else b mod 2 ^ (7 - w));
          more = take (w - 1) bs
      in if length more = w - 1 \<and> list_all cont_byte more
         then foldl (\<lambda>code b. code * 64 + b - 128) code more # lua_runes (drop (w - 1) bs)
         else 65533 # lua_runes bs)"
  by pat_completeness auto
termination by (relation "measure length") auto

definition history_runes :: "string \<Rightarrow> nat list" where
  "history_runes value = lua_runes (map byte value)"

definition lua_space :: "nat \<Rightarrow> bool" where
  "lua_space c \<longleftrightarrow> c = 32 \<or> (9 \<le> c \<and> c \<le> 13) \<or> c = 133 \<or> c = 160 \<or> c = 5760
     \<or> (8192 \<le> c \<and> c \<le> 8202) \<or> c = 8232 \<or> c = 8233 \<or> c = 8239 \<or> c = 8287 \<or> c = 12288"

definition lua_enc_width :: "nat \<Rightarrow> nat" where
  "lua_enc_width c = (if c < 128 then 1 else if c < 2048 then 2 else if c < 65536 then 3 else 4)"

text \<open>\<open>history_trim\<close>: \<open>first\<close> and \<open>last\<close> count the runes kept; the byte offsets are summed
  from the widths the code points would have, except the end of the string, which is exact.\<close>

definition history_trim :: "string \<Rightarrow> string" where
  "history_trim value =
     (let runes = history_runes value;
          lead = takeWhile lua_space runes;
          kept = rev (dropWhile lua_space (rev (dropWhile lua_space runes)));
          from = sum_list (map lua_enc_width lead);
          to = (if length lead + length kept = length runes then length value
                else from + sum_list (map lua_enc_width kept))
      in trim_slashes (if kept = [] then [] else drop from (take to value)))"

text \<open>One letter of a class, possibly escaped; \<open>None\<close> is Lua's \<open>nil\<close> past the end.\<close>

definition lua_letter :: "nat list \<Rightarrow> nat option \<times> nat list" where
  "lua_letter ls =
     (case (if ls \<noteq> [] \<and> hd ls = 92 then tl ls else ls) of
        [] \<Rightarrow> (None, [])
      | l # ls' \<Rightarrow> (Some l, ls'))"

lemma lua_letter_shorter: "lua_letter ls = (Some l, rest) \<Longrightarrow> length rest < length ls"
  by (cases ls) (auto simp: lua_letter_def split: if_splits list.splits)

function lua_ranges :: "(nat \<times> nat) list \<Rightarrow> nat list \<Rightarrow> ((nat \<times> nat) list \<times> nat list) option" where
  "lua_ranges ranges ls =
     (if ls = [] \<or> hd ls = 93 then Some (ranges, ls)
      else case lua_letter ls of
        (None, _) \<Rightarrow> None
      | (Some low, rest) \<Rightarrow>
          if rest \<noteq> [] \<and> hd rest = 45 then
            (case lua_letter (tl rest) of
               (None, _) \<Rightarrow> None
             | (Some high, rest') \<Rightarrow> lua_ranges (ranges @ [(low, high)]) rest')
          else lua_ranges (ranges @ [(low, low)]) rest)"
  by auto
termination
proof (relation "measure (\<lambda>(_, ls). length ls)", goal_cases)
  case (2 ranges ls x y low x' y' high)
  then have "length y < length ls" "length y' < length (tl y)"
    using lua_letter_shorter by metis+
  then show ?case by simp
next
  case (3 ranges ls x y low)
  then show ?case using lua_letter_shorter by (metis in_measure case_prod_conv)
qed simp

declare lua_ranges.simps [simp del]

lemma lua_ranges_shorter: "lua_ranges ranges ls = Some (rs, rest) \<Longrightarrow> length rest \<le> length ls"
proof (induction ranges ls rule: lua_ranges.induct)
  case (1 ranges ls)
  show ?case
  proof (cases "ls = [] \<or> hd ls = 93")
    case True
    then show ?thesis using "1.prems" by (auto simp: lua_ranges.simps [of ranges ls])
  next
    case False
    obtain lo mid where lo: "lua_letter ls = (Some lo, mid)"
      using "1.prems" False
      by (cases "lua_letter ls") (auto simp: lua_ranges.simps [of ranges ls] split: option.splits)
    show ?thesis
    proof (cases "mid \<noteq> [] \<and> hd mid = 45")
      case True
      obtain hi mid' where hi: "lua_letter (tl mid) = (Some hi, mid')"
        using "1.prems" False lo True
        by (cases "lua_letter (tl mid)") (auto simp: lua_ranges.simps [of ranges ls] split: option.splits)
      have "length rest \<le> length mid'"
        using "1.IH"(1) [OF False lo [symmetric] refl True hi [symmetric] refl] "1.prems" False lo True hi
        by (auto simp: lua_ranges.simps [of ranges ls])
      then show ?thesis using lua_letter_shorter [OF lo] lua_letter_shorter [OF hi] by simp
    next
      case nodash: False
      have "length rest \<le> length mid"
        using "1.IH"(2) [OF False lo [symmetric] refl nodash] "1.prems" False lo nodash
        by (auto simp: lua_ranges.simps [of ranges ls])
      then show ?thesis using lua_letter_shorter [OF lo] by simp
    qed
  qed
qed

definition in_ranges :: "(nat \<times> nat) list \<Rightarrow> nat \<Rightarrow> bool" where
  "in_ranges ranges r \<longleftrightarrow> (\<exists>(lo, hi) \<in> set ranges. lo \<le> r \<and> r \<le> hi)"

text \<open>The table \<open>positions\<close> is the set of its keys, which count from 1.\<close>

definition lua_star :: "nat \<Rightarrow> nat set \<Rightarrow> nat set" where
  "lua_star n positions = Set.filter (\<lambda>j. \<exists>k \<in> positions. k \<le> j) (set [1..<n + 2])"

definition lua_advance :: "(nat \<Rightarrow> bool) \<Rightarrow> nat \<Rightarrow> nat set \<Rightarrow> nat set" where
  "lua_advance ok n positions = Suc ` Set.filter (\<lambda>j. j \<le> n \<and> ok j) positions"

function lua_segment :: "nat list \<Rightarrow> nat list \<Rightarrow> nat set \<Rightarrow> bool" where
  "lua_segment runes [] positions \<longleftrightarrow> length runes + 1 \<in> positions"
| "lua_segment runes (c # ls) positions \<longleftrightarrow>
     (let advance = (\<lambda>ok. lua_advance (\<lambda>j. ok (runes ! (j - 1))) (length runes) positions)
      in if c = 42 then lua_segment runes ls (lua_star (length runes) positions)
         else if c = 91 then
           (let negate = (ls \<noteq> [] \<and> hd ls = 94);
                ls' = (if negate then tl ls else ls)
            in case lua_ranges [] ls' of
                 None \<Rightarrow> False
               | Some (ranges, rest) \<Rightarrow>
                   if rest = [] \<or> ranges = [] then False
                   else lua_segment runes (tl rest) (advance (\<lambda>r. in_ranges ranges r \<noteq> negate)))
         else if c = 92 then
           (case ls of [] \<Rightarrow> False | d # ls' \<Rightarrow> lua_segment runes ls' (advance (\<lambda>r. r = d)))
         else lua_segment runes ls (advance (\<lambda>r. c = 63 \<or> r = c)))"
  by pat_completeness auto
termination
  by (relation "measure (\<lambda>(_, ls, _). length ls)")
     (auto dest!: lua_ranges_shorter split: if_splits)

declare lua_segment.simps(2) [simp del]

definition history_segment :: "string \<Rightarrow> string \<Rightarrow> bool" where
  "history_segment pattern value = lua_segment (history_runes value) (history_runes pattern) {1}"

definition lua_glob_step :: "string list \<Rightarrow> string \<Rightarrow> nat set \<Rightarrow> nat set" where
  "lua_glob_step parts segment positions =
     (if segment = ''**'' then lua_star (length parts) positions
      else lua_advance (\<lambda>j. history_segment segment (parts ! (j - 1))) (length parts) positions)"

definition history_glob :: "string \<Rightarrow> string \<Rightarrow> bool" where
  "history_glob pattern value =
     (let p = history_trim pattern; v = history_trim value
      in if p = [] \<or> v = [] then False
         else
           let parts = split_on (CHR ''/'') v; segments = split_on (CHR ''/'') p
           in length parts + 1 \<in> fold (lua_glob_step parts) segments {1})"

end
