(* ===== verification/Glob_Equiv.thy ===== *)
theory Glob_Equiv
  imports Glob
begin

text \<open>
  Both glob matchers of \<open>Glob\<close> propagate a set of positions instead of backtracking. The locale
  \<open>position_set\<close> is what they need of that set; it is interpreted on the Go slice of booleans and
  on the Lua table, and gives the correctness of all three loops (segments in Go, segments in Lua,
  runes in Lua) against the recursive \<open>wild_spec\<close>. The second half relates Go's chunk-wise greedy
  \<open>path.Match\<close> to the same specification.
\<close>

section \<open>Specification\<close>

datatype 'e wild = Any_Run | One "'e \<Rightarrow> bool"

fun wild_spec :: "'e wild list \<Rightarrow> 'e list \<Rightarrow> bool" where
  "wild_spec [] xs \<longleftrightarrow> xs = []"
| "wild_spec (Any_Run # ws) xs \<longleftrightarrow> (\<exists>k \<in> set [0..<Suc (length xs)]. wild_spec ws (drop k xs))"
| "wild_spec (One f # ws) xs \<longleftrightarrow> (case xs of [] \<Rightarrow> False | x # xs' \<Rightarrow> f x \<and> wild_spec ws xs')"

definition segment_wild :: "(string \<Rightarrow> string \<Rightarrow> bool) \<Rightarrow> string \<Rightarrow> string wild" where
  "segment_wild seg s = (if s = ''**'' then Any_Run else One (seg s))"

text \<open>The meaning of a glob: \<open>**\<close> stands for any number of parts, another segment for one part it
  matches.\<close>

definition glob_spec :: "(string \<Rightarrow> string \<Rightarrow> bool) \<Rightarrow> string list \<Rightarrow> string list \<Rightarrow> bool" where
  "glob_spec seg segments parts = wild_spec (map (segment_wild seg) segments) parts"

text \<open>The tokens of a segment pattern over ASCII text, as \<open>path.Match\<close> documents them.\<close>

definition ascii :: "string \<Rightarrow> bool" where
  "ascii s = list_all (\<lambda>c. byte c < 128) s"

function class_ranges :: "nat \<Rightarrow> string \<Rightarrow> ((nat \<times> nat) list \<times> string) option" where
  "class_ranges nrange chunk =
     (if chunk \<noteq> [] \<and> hd chunk = CHR '']'' \<and> 0 < nrange then Some ([], tl chunk)
      else
        case getEsc chunk of
          None \<Rightarrow> None
        | Some (lo, rest) \<Rightarrow>
            if hd rest = CHR ''-'' then
              (case getEsc (tl rest) of
                 None \<Rightarrow> None
               | Some (hi, rest') \<Rightarrow>
                   map_option (\<lambda>(rs, r). ((lo, hi) # rs, r)) (class_ranges (nrange + 1) rest'))
            else map_option (\<lambda>(rs, r). ((lo, lo) # rs, r)) (class_ranges (nrange + 1) rest))"
  by auto
termination
  by (relation "measure (\<lambda>(_, chunk). length chunk)") (auto dest!: getEsc_shorter)

declare class_ranges.simps [simp del]

lemma class_loop_ranges:
  "class_loop r mt n chunk =
     map_option (\<lambda>(rs, rest). (mt \<or> in_ranges rs r, rest)) (class_ranges n chunk)"
proof (induction r mt n chunk rule: class_loop.induct)
  case (1 r mt n chunk)
  then show ?case
    by (simp add: class_loop.simps [of r mt n chunk] class_ranges.simps [of n chunk] option.map_comp
          comp_def in_ranges_def split_def split: option.splits)
qed

lemma class_ranges_shorter: "class_ranges n chunk = Some (rs, rest) \<Longrightarrow> length rest < length chunk"
  using class_loop_shorter [of 0 False n chunk] by (simp add: class_loop_ranges)

function seg_tokens :: "string \<Rightarrow> nat wild list option" where
  "seg_tokens [] = Some []"
| "seg_tokens (c # p) =
     (if c = CHR ''*'' then map_option (Cons Any_Run) (seg_tokens p)
      else if c = CHR ''['' then
        (let negated = (p \<noteq> [] \<and> hd p = CHR ''^'')
         in case class_ranges 0 (if negated then tl p else p) of
              None \<Rightarrow> None
            | Some (rs, rest) \<Rightarrow>
                map_option (Cons (One (\<lambda>r. in_ranges rs r \<noteq> negated))) (seg_tokens rest))
      else if c = CHR ''?'' then map_option (Cons (One (\<lambda>_. True))) (seg_tokens p)
      else if c = CHR 0x5C then
        (case p of
           [] \<Rightarrow> None
         | d # p' \<Rightarrow> map_option (Cons (One (\<lambda>r. r = byte d))) (seg_tokens p'))
      else map_option (Cons (One (\<lambda>r. r = byte c))) (seg_tokens p))"
  by pat_completeness auto
termination
  by (relation "measure length") (auto dest!: class_ranges_shorter split: if_splits)

declare seg_tokens.simps(2) [simp del]

text \<open>A run of single-letter tokens at the start of a list.\<close>

fun chunk_ok :: "('e \<Rightarrow> bool) list \<Rightarrow> 'e list \<Rightarrow> bool" where
  "chunk_ok [] xs \<longleftrightarrow> True"
| "chunk_ok (f # fs) [] \<longleftrightarrow> False"
| "chunk_ok (f # fs) (x # xs) \<longleftrightarrow> f x \<and> chunk_ok fs xs"

text \<open>A chunk that matches \<open>i\<close> letters into a name, up to its end if it is the last chunk.\<close>

definition accepts :: "(nat \<Rightarrow> bool) list \<Rightarrow> bool \<Rightarrow> string \<Rightarrow> nat \<Rightarrow> bool" where
  "accepts fs lastc name i \<longleftrightarrow>
     chunk_ok fs (drop i (map byte name)) \<and> (lastc \<longrightarrow> drop (i + length fs) name = [])"

section \<open>Position sets\<close>

locale position_set =
  fixes wfp :: "nat \<Rightarrow> 'p \<Rightarrow> bool"
    and at :: "'p \<Rightarrow> nat \<Rightarrow> bool"
    and star :: "nat \<Rightarrow> 'p \<Rightarrow> 'p"
    and adv :: "bool list \<Rightarrow> 'p \<Rightarrow> 'p"
  assumes at_bound: "wfp n p \<Longrightarrow> at p j \<Longrightarrow> j \<le> n"
    and star_wf: "wfp n p \<Longrightarrow> wfp n (star n p)"
    and adv_wf: "wfp n p \<Longrightarrow> length oks = n \<Longrightarrow> wfp n (adv oks p)"
    and at_star: "wfp n p \<Longrightarrow> at (star n p) j \<longleftrightarrow> j \<le> n \<and> (\<exists>k \<le> j. at p k)"
    and at_adv: "wfp n p \<Longrightarrow> length oks = n \<Longrightarrow>
          at (adv oks p) j \<longleftrightarrow> (\<exists>i < n. j = Suc i \<and> oks ! i \<and> at p i)"
begin

fun wild_step :: "'e list \<Rightarrow> 'e wild \<Rightarrow> 'p \<Rightarrow> 'p" where
  "wild_step xs Any_Run p = star (length xs) p"
| "wild_step xs (One f) p = adv (map f xs) p"

lemma wild_wf: "wfp (length xs) p \<Longrightarrow> wfp (length xs) (fold (wild_step xs) ws p)"
proof (induction ws arbitrary: p)
  case (Cons w ws)
  then show ?case by (cases w) (simp_all add: star_wf adv_wf)
qed simp

lemma drop_nth: "i < length xs \<Longrightarrow> drop i xs = xs ! i # drop (Suc i) xs"
  by (simp add: Cons_nth_drop_Suc)

lemma wild_run:
  "wfp (length xs) p \<Longrightarrow>
     at (fold (wild_step xs) ws p) (length xs) \<longleftrightarrow> (\<exists>j. at p j \<and> wild_spec ws (drop j xs))"
proof (induction ws arbitrary: p)
  case Nil
  have "j = length xs" if "at p j" "length xs \<le> j" for j
    using at_bound [OF Nil that(1)] that(2) by simp
  then show ?case by auto
next
  case (Cons w ws)
  show ?case
  proof (cases w)
    case Any_Run
    have "(\<exists>j. at (star (length xs) p) j \<and> wild_spec ws (drop j xs))
        \<longleftrightarrow> (\<exists>k j. at p k \<and> k \<le> j \<and> j \<le> length xs \<and> wild_spec ws (drop j xs))"
      using at_star [OF Cons.prems] by blast
    also have "\<dots> \<longleftrightarrow> (\<exists>k. at p k \<and> (\<exists>i \<in> set [0..<Suc (length xs - k)]. wild_spec ws (drop (i + k) xs)))"
      (is "?l \<longleftrightarrow> ?r")
    proof
      assume ?l
      then obtain k j where "at p k" "k \<le> j" "j \<le> length xs" "wild_spec ws (drop j xs)" by blast
      then show ?r by (intro exI [of _ k] conjI bexI [of _ "j - k"]) auto
    next
      assume ?r
      then obtain k i where "at p k" "i \<le> length xs - k" "wild_spec ws (drop (i + k) xs)"
        by (auto simp: less_Suc_eq_le simp del: upt_Suc)
      moreover from this have "k \<le> i + k" "i + k \<le> length xs"
        using at_bound [OF Cons.prems, of k] by auto
      ultimately show ?l by blast
    qed
    finally show ?thesis
      using Cons.IH [OF star_wf [OF Cons.prems]] Any_Run
      by (simp add: add.commute del: upt_Suc)
  next
    case (One f)
    have len: "length (map f xs) = length xs" by simp
    have step: "f (xs ! i) \<and> wild_spec ws (drop (Suc i) xs) \<longleftrightarrow> wild_spec (One f # ws) (drop i xs)"
      if "i < length xs" for i
      using that by (simp add: drop_nth)
    have fail: "\<not> wild_spec (One f # ws) (drop i xs)" if "\<not> i < length xs" for i
      using that by simp
    have "(\<exists>j. at (adv (map f xs) p) j \<and> wild_spec ws (drop j xs))
        \<longleftrightarrow> (\<exists>i < length xs. f (xs ! i) \<and> at p i \<and> wild_spec ws (drop (Suc i) xs))"
      using at_adv [OF Cons.prems len] nth_map [of _ xs f] by metis
    also have "\<dots> \<longleftrightarrow> (\<exists>i. at p i \<and> wild_spec (One f # ws) (drop i xs))"
      using step fail by blast
    finally show ?thesis
      using Cons.IH [OF adv_wf [OF Cons.prems len]] One by simp
  qed
qed

end

text \<open>The slice of booleans of \<open>MatchString\<close> and the Lua table, whose keys count from 1.\<close>

lemma scan_or_length [simp]: "length (scan_or a ps) = length ps"
  by (induction a ps rule: scan_or.induct) auto

lemma scan_or_nth: "j < length ps \<Longrightarrow> scan_or a ps ! j \<longleftrightarrow> a \<or> (\<exists>k \<le> j. ps ! k)"
proof (induction a ps arbitrary: j rule: scan_or.induct)
  case (2 a p ps)
  show ?case
  proof (cases j)
    case (Suc i)
    have "(\<exists>k \<le> Suc i. (p # ps) ! k) \<longleftrightarrow> p \<or> (\<exists>k \<le> i. ps ! k)"
      by (metis Suc_le_mono not0_implies_Suc nth_Cons_0 nth_Cons_Suc zero_le)
    then show ?thesis using 2 Suc by auto
  qed simp
qed simp

interpretation go_positions: position_set
  "\<lambda>n p. length p = Suc n" "\<lambda>p j. j < length p \<and> p ! j" "\<lambda>n. scan_or False"
  "\<lambda>oks p. False # map (\<lambda>(x, y). x \<and> y) (zip p oks)"
proof unfold_locales
  fix n j and oks p :: "bool list"
  assume "length p = Suc n" "length oks = n"
  then show "j < length (False # map (\<lambda>(x, y). x \<and> y) (zip p oks))
        \<and> (False # map (\<lambda>(x, y). x \<and> y) (zip p oks)) ! j \<longleftrightarrow>
      (\<exists>i < n. j = Suc i \<and> oks ! i \<and> i < length p \<and> p ! i)"
    by (cases j) auto
next
  fix n j and p :: "bool list"
  assume "length p = Suc n"
  then show "j < length (scan_or False p) \<and> scan_or False p ! j \<longleftrightarrow>
      j \<le> n \<and> (\<exists>k \<le> j. k < length p \<and> p ! k)"
    using scan_or_nth [of j p False] by (metis le_less_trans less_Suc_eq_le scan_or_length)
qed auto

lemma in_lua_star: "x \<in> lua_star n p \<longleftrightarrow> 1 \<le> x \<and> x \<le> Suc n \<and> (\<exists>k \<in> p. k \<le> x)"
  unfolding lua_star_def by (simp del: upt_Suc) (simp add: less_Suc_eq_le)

lemma in_lua_advance: "x \<in> lua_advance ok n p \<longleftrightarrow> (\<exists>j \<in> p. j \<le> n \<and> ok j \<and> x = Suc j)"
  by (auto simp: lua_advance_def)

interpretation lua_positions: position_set
  "\<lambda>n p. p \<subseteq> {1..Suc n}" "\<lambda>p j. Suc j \<in> p" "lua_star"
  "\<lambda>oks. lua_advance (\<lambda>j. oks ! (j - 1)) (length oks)"
proof unfold_locales
  fix n j and p :: "nat set"
  assume p: "p \<subseteq> {1..Suc n}"
  have "(\<exists>k \<in> p. k \<le> Suc j) \<longleftrightarrow> (\<exists>k \<le> j. Suc k \<in> p)"
  proof
    assume "\<exists>k \<in> p. k \<le> Suc j"
    then obtain k where k: "k \<in> p" "k \<le> Suc j" by blast
    then obtain i where "k = Suc i" using p by (cases k) auto
    then show "\<exists>k \<le> j. Suc k \<in> p" using k by auto
  qed auto
  then show "Suc j \<in> lua_star n p \<longleftrightarrow> j \<le> n \<and> (\<exists>k \<le> j. Suc k \<in> p)"
    by (simp add: in_lua_star)
next
  fix n j and p :: "nat set" and oks :: "bool list"
  assume p: "p \<subseteq> {1..Suc n}" and n: "length oks = n"
  show "Suc j \<in> lua_advance (\<lambda>j. oks ! (j - 1)) (length oks) p \<longleftrightarrow>
      (\<exists>i < n. j = Suc i \<and> oks ! i \<and> Suc i \<in> p)"
  proof
    assume "Suc j \<in> lua_advance (\<lambda>j. oks ! (j - 1)) (length oks) p"
    then have "j \<in> p" "j \<le> n" "oks ! (j - 1)" using n by (auto simp: in_lua_advance)
    moreover obtain i where "j = Suc i" using \<open>j \<in> p\<close> p by (cases j) auto
    ultimately show "\<exists>i < n. j = Suc i \<and> oks ! i \<and> Suc i \<in> p" by auto
  qed (use n in \<open>auto simp: in_lua_advance\<close>)
qed (auto simp: in_lua_star in_lua_advance)

text \<open>Both segment loops decide \<open>glob_spec\<close>.\<close>

lemma map_zip_and:
  "map (\<lambda>(p, x). p \<and> f x) (zip ps xs) = map (\<lambda>(x, y). x \<and> y) (zip ps (map f xs))"
  by (induction ps xs rule: list_induct2') auto

lemma glob_step_wild:
  "glob_step seg parts s p = go_positions.wild_step parts (segment_wild seg s) p"
  unfolding glob_step_def segment_wild_def by (simp, subst map_zip_and, simp)

lemma MatchString_spec:
  "MatchString segments value \<longleftrightarrow>
     (let v = trim_slashes (TrimSpace value)
      in v \<noteq> [] \<and> glob_spec go_segment segments (split_on (CHR ''/'') v))"
proof -
  define parts where "parts = split_on (CHR ''/'') (trim_slashes (TrimSpace value))"
  let ?start = "True # replicate (length parts) False"
  let ?ws = "map (segment_wild go_segment) segments"
  let ?fin = "fold (go_positions.wild_step parts) ?ws ?start"
  have run: "fold (glob_step go_segment parts) segments ?start = ?fin"
    unfolding fold_map comp_def by (rule fold_cong) (simp_all add: glob_step_wild fun_eq_iff)
  have len: "length ?fin = Suc (length parts)"
    by (rule go_positions.wild_wf) simp
  then have "?fin \<noteq> []" by auto
  then have "last ?fin \<longleftrightarrow> (\<exists>j. (j < length ?start \<and> ?start ! j) \<and> wild_spec ?ws (drop j parts))"
    using go_positions.wild_run [of ?start parts ?ws] len by (simp add: last_conv_nth)
  also have "\<dots> \<longleftrightarrow> glob_spec go_segment segments parts"
  proof -
    have "j < length ?start \<and> ?start ! j \<longleftrightarrow> j = 0" for j by (cases j) auto
    then show ?thesis by (simp add: glob_spec_def)
  qed
  finally show ?thesis
    unfolding MatchString_def Let_def run parts_def [symmetric] by simp
qed

lemma lua_advance_nth:
  assumes "p \<subseteq> {1..Suc (length xs)}"
  shows "lua_advance (\<lambda>j. f (xs ! (j - 1))) (length xs) p =
         lua_advance (\<lambda>j. map f xs ! (j - 1)) (length (map f xs)) p"
proof -
  have "f (xs ! (j - 1)) = map f xs ! (j - 1)" if "j \<in> p" "j \<le> length xs" for j
    using assms that by (subst nth_map) auto
  then show ?thesis by (auto simp: lua_advance_def)
qed

lemma lua_glob_run:
  "p \<subseteq> {1..Suc (length parts)} \<Longrightarrow> fold (lua_glob_step parts) segments p =
     fold (lua_positions.wild_step parts) (map (segment_wild history_segment) segments) p"
proof (induction segments arbitrary: p)
  case (Cons s segments)
  have "lua_glob_step parts s p = lua_positions.wild_step parts (segment_wild history_segment s) p"
    using lua_advance_nth [OF Cons.prems] 
    by (simp add: lua_glob_step_def segment_wild_def del: One_nat_def)
  moreover have "lua_positions.wild_step parts (segment_wild history_segment s) p \<subseteq> {1..Suc (length parts)}"
    using lua_positions.wild_wf [OF Cons.prems, of "[segment_wild history_segment s]"]
    by (simp del: One_nat_def)
  ultimately show ?case using Cons.IH by simp
qed simp

lemma history_glob_spec:
  "history_glob pattern value \<longleftrightarrow>
     (let p = history_trim pattern; v = history_trim value
      in p \<noteq> [] \<and> v \<noteq> [] \<and> glob_spec history_segment (split_on (CHR ''/'') p) (split_on (CHR ''/'') v))"
proof -
  have "length parts + 1 \<in> fold (lua_glob_step parts) segments {1} \<longleftrightarrow> glob_spec history_segment segments parts"
    for parts segments
    using lua_glob_run [of "{1}" parts segments]
      lua_positions.wild_run [of "{1}" parts "map (segment_wild history_segment) segments"]
    by (simp add: glob_spec_def del: One_nat_def) simp
  then show ?thesis by (simp add: history_glob_def Let_def)
qed

section \<open>Segment patterns\<close>

lemma class_rangesE:
  assumes "class_ranges n chunk = Some (rs, rest)"
  obtains "chunk = CHR '']'' # rest" and "0 < n" and "rs = []"
  | lo mid rs' where "\<not> (chunk \<noteq> [] \<and> hd chunk = CHR '']'' \<and> 0 < n)" and "getEsc chunk = Some (lo, mid)"
      and "hd mid \<noteq> CHR ''-''" and "rs = (lo, lo) # rs'" and "class_ranges (n + 1) mid = Some (rs', rest)"
  | lo mid hi mid' rs' where "\<not> (chunk \<noteq> [] \<and> hd chunk = CHR '']'' \<and> 0 < n)" and "getEsc chunk = Some (lo, mid)"
      and "hd mid = CHR ''-''" and "getEsc (tl mid) = Some (hi, mid')" and "rs = (lo, hi) # rs'"
      and "class_ranges (n + 1) mid' = Some (rs', rest)"
proof (cases "chunk \<noteq> [] \<and> hd chunk = CHR '']'' \<and> 0 < n")
  case True
  then show ?thesis using assms that(1) by (cases chunk) (auto simp: class_ranges.simps [of n])
next
  case False
  then obtain lo mid where "getEsc chunk = Some (lo, mid)"
    using assms by (cases "getEsc chunk") (auto simp: class_ranges.simps [of n])
  with False assms show ?thesis
    using that(2,3) by (auto simp: class_ranges.simps [of n] split: if_splits option.splits)
qed

lemma class_ranges_induct [consumes 1, case_names close single range]:
  assumes "class_ranges n chunk = Some (rs, rest)"
    and "\<And>n rest. 0 < n \<Longrightarrow> P n (CHR '']'' # rest) [] rest"
    and "\<And>n chunk lo mid rs rest. \<not> (chunk \<noteq> [] \<and> hd chunk = CHR '']'' \<and> 0 < n) \<Longrightarrow>
       getEsc chunk = Some (lo, mid) \<Longrightarrow> hd mid \<noteq> CHR ''-'' \<Longrightarrow>
       class_ranges (n + 1) mid = Some (rs, rest) \<Longrightarrow> P (n + 1) mid rs rest \<Longrightarrow> P n chunk ((lo, lo) # rs) rest"
    and "\<And>n chunk lo mid hi mid' rs rest. \<not> (chunk \<noteq> [] \<and> hd chunk = CHR '']'' \<and> 0 < n) \<Longrightarrow>
       getEsc chunk = Some (lo, mid) \<Longrightarrow> hd mid = CHR ''-'' \<Longrightarrow> getEsc (tl mid) = Some (hi, mid') \<Longrightarrow>
       class_ranges (n + 1) mid' = Some (rs, rest) \<Longrightarrow> P (n + 1) mid' rs rest \<Longrightarrow> P n chunk ((lo, hi) # rs) rest"
  shows "P n chunk rs rest"
  using assms(1)
proof (induction "length chunk" arbitrary: n chunk rs rest rule: less_induct)
  case less
  from less.prems show ?case
  proof (cases rule: class_rangesE)
    case 1
    then show ?thesis using assms(2) by simp
  next
    case (2 lo mid rs')
    then show ?thesis using assms(3) less.hyps getEsc_shorter by metis
  next
    case (3 lo mid hi mid' rs')
    have "length mid' < length chunk" using getEsc_shorter [OF 3(2)] getEsc_shorter [OF 3(4)] by auto
    then show ?thesis using assms(4) [OF 3(1-4)] 3 less.hyps by metis
  qed
qed

lemma DecodeRune_ascii [simp]: "byte c < 128 \<Longrightarrow> DecodeRune (c # s) = (byte c, 1)"
  by (simp add: DecodeRune_def)

lemma ascii_simps [simp]:
  "ascii []" "ascii (c # s) \<longleftrightarrow> byte c < 128 \<and> ascii s" "ascii (s @ t) \<longleftrightarrow> ascii s \<and> ascii t"
  by (simp_all add: ascii_def)

lemma byte_inject [simp]: "byte c = byte d \<longleftrightarrow> c = d"
  by (simp add: byte_def)

lemma byte_special [simp]:
  "byte c = 42 \<longleftrightarrow> c = CHR ''*''" "byte c = 91 \<longleftrightarrow> c = CHR ''[''" "byte c = 93 \<longleftrightarrow> c = CHR '']''"
  "byte c = 92 \<longleftrightarrow> c = CHR 0x5C" "byte c = 45 \<longleftrightarrow> c = CHR ''-''" "byte c = 94 \<longleftrightarrow> c = CHR ''^''"
  "byte c = 63 \<longleftrightarrow> c = CHR ''?''"
proof -
  have "byte (CHR ''*'') = 42" "byte (CHR ''['') = 91" "byte (CHR '']'') = 93" "byte (CHR 0x5C) = 92"
    "byte (CHR ''-'') = 45" "byte (CHR ''^'') = 94" "byte (CHR ''?'') = 63"
    by (simp_all add: byte_def)
  then show "byte c = 42 \<longleftrightarrow> c = CHR ''*''" "byte c = 91 \<longleftrightarrow> c = CHR ''[''" "byte c = 93 \<longleftrightarrow> c = CHR '']''"
    "byte c = 92 \<longleftrightarrow> c = CHR 0x5C" "byte c = 45 \<longleftrightarrow> c = CHR ''-''" "byte c = 94 \<longleftrightarrow> c = CHR ''^''"
    "byte c = 63 \<longleftrightarrow> c = CHR ''?''"
    by (metis byte_inject)+
qed

lemma getEsc_ascii_cases:
  assumes "ascii chunk" and "getEsc chunk = Some (r, rest)"
  obtains x where "chunk = x # rest" and "x \<noteq> CHR 0x5C" and "x \<noteq> CHR ''-''" and "x \<noteq> CHR '']''"
      and "r = byte x" and "ascii rest" and "rest \<noteq> []"
  | d where "chunk = CHR 0x5C # d # rest" and "r = byte d" and "ascii rest" and "rest \<noteq> []"
proof (cases chunk)
  case Nil
  then show ?thesis using assms(2) by (simp add: getEsc_def)
next
  case (Cons x p)
  show ?thesis
  proof (cases "x = CHR 0x5C")
    case False
    then show ?thesis
      using assms Cons that(1) by (auto simp: getEsc_def Let_def split: if_splits)
  next
    case True
    then obtain d q where "p = d # q" using assms(2) Cons by (cases p) (auto simp: getEsc_def)
    then show ?thesis
      using assms Cons True that(2) by (auto simp: getEsc_def Let_def split: if_splits)
  qed
qed

lemma getEsc_ascii:
  assumes "ascii chunk" and "getEsc chunk = Some (r, rest)"
  shows "lua_letter (map byte chunk) = (Some r, map byte rest)" and "ascii rest" and "rest \<noteq> []"
    and "chunk \<noteq> []" and "hd chunk \<noteq> CHR '']''"
    and "\<exists>pre. chunk = pre @ rest \<and> (\<forall>q. scan_len True (pre @ q) = length pre + scan_len True q)"
proof -
  show "lua_letter (map byte chunk) = (Some r, map byte rest)"
    by (rule getEsc_ascii_cases [OF assms]) (auto simp: lua_letter_def)
  show "\<exists>pre. chunk = pre @ rest \<and> (\<forall>q. scan_len True (pre @ q) = length pre + scan_len True q)"
  proof (rule getEsc_ascii_cases [OF assms])
    fix x assume "chunk = x # rest" "x \<noteq> CHR 0x5C" "x \<noteq> CHR '']''"
    then show ?thesis by (intro exI [of _ "[x]"]) simp
  next
    fix d assume "chunk = CHR 0x5C # d # rest"
    then show ?thesis by (intro exI [of _ "[CHR 0x5C, d]"]) simp
  qed
qed (rule getEsc_ascii_cases [OF assms]; simp)+

lemma class_ranges_ascii:
  assumes "class_ranges n chunk = Some (rs, rest)" and "ascii chunk"
  shows "lua_ranges acc (map byte chunk) = Some (acc @ rs, 93 # map byte rest)
    \<and> ascii rest \<and> (n = 0 \<longrightarrow> rs \<noteq> [])
    \<and> (\<exists>pre. chunk = pre @ rest \<and> (\<forall>q. scan_len True (pre @ q) = length pre + scan_len False q))"
  using assms
proof (induction arbitrary: acc rule: class_ranges_induct)
  case (close n rest)
  then show ?case by (auto simp: lua_ranges.simps [of acc] intro!: exI [of _ "'']''"])
next
  case (single n chunk lo mid rs rest)
  note esc = getEsc_ascii [OF \<open>ascii chunk\<close> single(2)]
  obtain pre where pre: "chunk = pre @ mid" "\<forall>q. scan_len True (pre @ q) = length pre + scan_len True q"
    using esc(6) by blast
  obtain pre' where pre': "mid = pre' @ rest"
    "\<forall>q. scan_len True (pre' @ q) = length pre' + scan_len False q"
    and ih: "lua_ranges (acc @ [(lo, lo)]) (map byte mid) = Some ((acc @ [(lo, lo)]) @ rs, 93 # map byte rest)"
    "ascii rest"
    using single.IH [OF esc(2)] by blast
  have "\<exists>pre. chunk = pre @ rest \<and> (\<forall>q. scan_len True (pre @ q) = length pre + scan_len False q)"
    using pre pre' by (intro exI [of _ "pre @ pre'"]) simp
  moreover have "lua_ranges acc (map byte chunk) = Some (acc @ (lo, lo) # rs, 93 # map byte rest)"
    using esc single(3) ih(1) by (simp add: lua_ranges.simps [of acc] hd_map)
  ultimately show ?case using ih(2) by simp
next
  case (range n chunk lo mid hi mid' rs rest)
  note esc = getEsc_ascii [OF \<open>ascii chunk\<close> range(2)]
  obtain tmid where mid: "mid = CHR ''-'' # tmid" using esc(3) range(3) by (cases mid) auto
  then have tm: "tl mid = tmid" "ascii tmid" using esc(2) by auto
  note esc' = getEsc_ascii [OF tm(2) range(4) [unfolded tm(1)]]
  obtain pre where pre: "chunk = pre @ mid" "\<forall>q. scan_len True (pre @ q) = length pre + scan_len True q"
    using esc(6) by blast
  obtain pre2 where pre2: "tmid = pre2 @ mid'" "\<forall>q. scan_len True (pre2 @ q) = length pre2 + scan_len True q"
    using esc'(6) by blast
  obtain pre' where pre': "mid' = pre' @ rest"
    "\<forall>q. scan_len True (pre' @ q) = length pre' + scan_len False q"
    and ih: "lua_ranges (acc @ [(lo, hi)]) (map byte mid') = Some ((acc @ [(lo, hi)]) @ rs, 93 # map byte rest)"
    "ascii rest"
    using range.IH [OF esc'(2)] by blast
  have "\<exists>pre. chunk = pre @ rest \<and> (\<forall>q. scan_len True (pre @ q) = length pre + scan_len False q)"
    using pre pre2 pre' mid by (intro exI [of _ "pre @ CHR ''-'' # pre2 @ pre'"]) simp
  moreover have "lua_ranges acc (map byte chunk) = Some (acc @ (lo, hi) # rs, 93 # map byte rest)"
    using esc esc' mid ih(1) by (simp add: lua_ranges.simps [of acc] hd_map)
  ultimately show ?case using ih(2) by simp
qed

lemma lua_runes_ascii: "list_all (\<lambda>b. b < 128) bs \<Longrightarrow> lua_runes bs = bs"
  by (induction bs) (auto simp: lua_width_def)

lemma history_runes_ascii [simp]: "ascii s \<Longrightarrow> history_runes s = map byte s"
  by (simp add: history_runes_def lua_runes_ascii ascii_def list_all_iff)

text \<open>One step of the tokenizer, by the kind of its first letter.\<close>

lemma seg_tokens_ConsE:
  assumes "seg_tokens (c # p) = Some ws" and "ascii (c # p)"
  obtains ws' where "c = CHR ''*''" and "seg_tokens p = Some ws'" and "ws = Any_Run # ws'"
  | rs rest ws' negated where "c = CHR ''[''" and "negated \<longleftrightarrow> p \<noteq> [] \<and> hd p = CHR ''^''"
      and "class_ranges 0 (if negated then tl p else p) = Some (rs, rest)"
      and "ascii (if negated then tl p else p)" and "ascii rest"
      and "seg_tokens rest = Some ws'" and "ws = One (\<lambda>r. in_ranges rs r \<noteq> negated) # ws'"
  | ws' where "c = CHR ''?''" and "seg_tokens p = Some ws'" and "ws = One (\<lambda>_. True) # ws'"
  | d p' ws' where "c = CHR 0x5C" and "p = d # p'" and "seg_tokens p' = Some ws'"
      and "ws = One (\<lambda>r. r = byte d) # ws'"
  | ws' where "c \<notin> {CHR ''*'', CHR ''['', CHR ''?'', CHR 0x5C}" and "seg_tokens p = Some ws'"
      and "ws = One (\<lambda>r. r = byte c) # ws'"
proof -
  consider "c = CHR ''*''" | "c = CHR ''[''" | "c = CHR ''?''" | "c = CHR 0x5C"
    | "c \<notin> {CHR ''*'', CHR ''['', CHR ''?'', CHR 0x5C}" by auto
  then show ?thesis
  proof cases
    case 2
    define negated where "negated \<longleftrightarrow> p \<noteq> [] \<and> hd p = CHR ''^''"
    have asc: "ascii (if negated then tl p else p)" using assms(2) by (cases p) auto
    obtain rs rest where cr: "class_ranges 0 (if negated then tl p else p) = Some (rs, rest)"
      using assms(1) 2
      by (cases "class_ranges 0 (if negated then tl p else p)") (auto simp: seg_tokens.simps(2) Let_def negated_def)
    then show ?thesis
      using that(2) [OF 2 negated_def cr asc] class_ranges_ascii [OF cr asc] assms(1) 2
      by (auto simp: seg_tokens.simps(2) Let_def negated_def)
  qed (use assms that in \<open>auto simp: seg_tokens.simps(2) split: list.splits\<close>)
qed

lemma lua_segment_tokens:
  assumes "seg_tokens p = Some ws" and "ascii p" and "pos \<subseteq> {1..Suc (length runes)}"
  shows "lua_segment runes (map byte p) pos \<longleftrightarrow>
    Suc (length runes) \<in> fold (lua_positions.wild_step runes) ws pos"
  using assms
proof (induction "length p" arbitrary: p ws pos rule: less_induct)
  case less
  have wf: "lua_positions.wild_step runes w pos \<subseteq> {1..Suc (length runes)}" for w
    using lua_positions.wild_wf [OF less.prems(3), of "[w]"] by (simp del: One_nat_def)
  have adv: "lua_advance (\<lambda>j. f (runes ! (j - 1))) (length runes) pos = lua_positions.wild_step runes (One f) pos" for f
    using lua_advance_nth [OF less.prems(3)] by (simp del: One_nat_def)
  show ?case
  proof (cases p)
    case Nil
    then show ?thesis using less.prems by simp
  next
    case (Cons c q)
    have IH: "lua_segment runes (map byte r) (lua_positions.wild_step runes w pos) \<longleftrightarrow>
        Suc (length runes) \<in> fold (lua_positions.wild_step runes) (w # ws') pos"
      if "length r < length p" "seg_tokens r = Some ws'" "ascii r" for r w ws'
      using less.hyps [OF that wf, of w] by simp
    have asc: "ascii q" using less.prems(2) Cons by simp
    from less.prems(1,2) [unfolded Cons] show ?thesis
    proof (cases rule: seg_tokens_ConsE)
      case (1 ws')
      then show ?thesis using IH [of q ws' Any_Run] asc Cons
        by (simp add: lua_segment.simps(2) del: One_nat_def)
    next
      case (2 rs rest ws' negated)
      have cr: "lua_ranges [] (map byte (if negated then tl q else q)) = Some (rs, 93 # map byte rest)" "rs \<noteq> []"
        using class_ranges_ascii [OF 2(3,4), of "[]"] by auto
      have lt: "length rest < length p"
        using class_ranges_shorter [OF 2(3)] Cons by (auto split: if_splits)
      have neg: "map byte q \<noteq> [] \<and> hd (map byte q) = 94 \<longleftrightarrow> negated" using 2(2) by (auto simp: hd_map)
      have "(if negated then tl (map byte q) else map byte q) = map byte (if negated then tl q else q)"
        by (simp add: map_tl)
      then show ?thesis
        using IH [OF lt 2(6,5), of "One (\<lambda>r. in_ranges rs r \<noteq> negated)"] cr neg adv 2(1,7) Cons
        by (simp add: lua_segment.simps(2) Let_def del: One_nat_def map_tl)
    next
      case (3 ws')
      then show ?thesis using IH [of q ws' "One (\<lambda>_. True)"] adv [of "\<lambda>_. True"] asc Cons
        by (simp add: lua_segment.simps(2) del: One_nat_def)
    next
      case (4 d q' ws')
      then show ?thesis using IH [of q' ws' "One (\<lambda>r. r = byte d)"] adv [of "\<lambda>r. r = byte d"] asc Cons
        by (simp add: lua_segment.simps(2) del: One_nat_def)
    next
      case (5 ws')
      then show ?thesis using IH [of q ws' "One (\<lambda>r. r = byte c)"] adv [of "\<lambda>r. r = byte c"] asc Cons
        by (simp add: lua_segment.simps(2) del: One_nat_def)
    qed
  qed
qed

lemma history_segment_tokens:
  assumes "seg_tokens p = Some ws" and "ascii p" and "ascii v"
  shows "history_segment p v \<longleftrightarrow> wild_spec ws (map byte v)"
proof -
  have one: "{1} \<subseteq> {1..Suc (length (map byte v))}" by simp
  have "history_segment p v \<longleftrightarrow>
      Suc (length (map byte v)) \<in> fold (lua_positions.wild_step (map byte v)) ws {1}"
    using lua_segment_tokens [OF assms(1,2) one] assms(2,3) by (simp add: history_segment_def del: One_nat_def)
  also have "\<dots> \<longleftrightarrow> (\<exists>j. Suc j \<in> {1} \<and> wild_spec ws (drop j (map byte v)))"
    by (rule lua_positions.wild_run [OF one])
  finally show ?thesis by simp
qed

section \<open>path.Match against the specification\<close>

lemma wild_spec_ones:
  "wild_spec (map One fs @ ws) xs \<longleftrightarrow> chunk_ok fs xs \<and> wild_spec ws (drop (length fs) xs)"
  by (induction fs xs rule: chunk_ok.induct) auto

lemma matchChunk_tokens:
  assumes "seg_tokens chunk = Some (map One fs)" and "ascii chunk" and "ascii s" and "CHR ''/'' \<notin> set s"
  shows "matchChunk failed chunk s =
    Some (if \<not> failed \<and> chunk_ok fs (map byte s) then (drop (length fs) s, True) else ([], False))"
  using assms
proof (induction "length chunk" arbitrary: chunk fs failed s rule: less_induct)
  case less
  show ?case
  proof (cases chunk)
    case Nil
    then show ?thesis using less.prems by simp
  next
    case (Cons c p)
    have asc: "ascii p" using less.prems(2) Cons by simp
    have tls: "ascii (tl s)" "CHR ''/'' \<notin> set (tl s)" using less.prems(3,4) by (cases s; simp)+
    have dead: "matchChunk True r t = Some ([], False)"
      if "length r < length chunk" "seg_tokens r = Some (map One gs)" "ascii r" "ascii t" "CHR ''/'' \<notin> set t" for r gs t
      using less.hyps [OF that, of True] by simp
    have live: "matchChunk fl r (tl s) =
        Some (if \<not> fl \<and> chunk_ok gs (map byte (tl s)) then (drop (length gs) (tl s), True) else ([], False))"
      if "length r < length chunk" "seg_tokens r = Some (map One gs)" "ascii r" for r gs fl
      using less.hyps [OF that tls] .
    from less.prems(1,2) [unfolded Cons] show ?thesis
    proof (cases rule: seg_tokens_ConsE)
      case (1 ws')
      then show ?thesis by (cases fs) auto
    next
      case (2 rs rest ws' negated)
      then obtain gs where fs: "fs = (\<lambda>r. in_ranges rs r \<noteq> negated) # gs" "ws' = map One gs" by (cases fs) auto
      have lt: "length rest < length chunk"
        using class_ranges_shorter [OF 2(3)] Cons by (auto split: if_splits)
      note r = lt 2(6) [unfolded fs(2)] 2(5)
      show ?thesis
        using live [OF r] dead [OF r less.prems(3,4)] 2(1,2,3) less.prems(3) fs(1) Cons
        by (cases s) (auto simp: matchChunk.simps(2) class_loop_ranges Let_def)
    next
      case (3 ws')
      then obtain gs where fs: "fs = (\<lambda>_. True) # gs" "ws' = map One gs" by (cases fs) auto
      have r: "length p < length chunk" "seg_tokens p = Some (map One gs)" using 3 fs Cons by auto
      show ?thesis
        using live [OF r asc] dead [OF r asc less.prems(3,4)] 3(1) less.prems(3,4) fs(1) Cons
        by (cases s) (auto simp: matchChunk.simps(2))
    next
      case (4 d p' ws')
      then obtain gs where fs: "fs = (\<lambda>r. r = byte d) # gs" "ws' = map One gs" by (cases fs) auto
      have r: "length p' < length chunk" "seg_tokens p' = Some (map One gs)" "ascii p'" using 4 fs Cons asc by auto
      show ?thesis
        using live [OF r] dead [OF r less.prems(3,4)] 4(1,2) less.prems(3) fs(1) Cons
        by (cases s) (auto simp: matchChunk.simps(2))
    next
      case (5 ws')
      then obtain gs where fs: "fs = (\<lambda>r. r = byte c) # gs" "ws' = map One gs" by (cases fs) auto
      have r: "length p < length chunk" "seg_tokens p = Some (map One gs)" using 5 fs Cons by auto
      show ?thesis
        using live [OF r asc] dead [OF r asc less.prems(3,4)] 5(1) less.prems(3) fs(1) Cons
        by (cases s) (auto simp: matchChunk.simps(2))
    qed
  qed
qed

text \<open>A chunk that \<open>matchChunk\<close> accepts is a run of single-letter tokens.\<close>

lemma matchChunk_valid:
  assumes "matchChunk failed chunk s \<noteq> None" and "ascii chunk"
    and "scan_len False (chunk @ q) = length chunk"
  shows "\<exists>fs. seg_tokens chunk = Some (map One fs)"
  using assms
proof (induction "length chunk" arbitrary: chunk failed s rule: less_induct)
  case less
  show ?case
  proof (cases chunk)
    case Nil
    then show ?thesis by simp
  next
    case (Cons c p)
    have asc: "ascii p" using less.prems(2) Cons by simp
    have one: "\<exists>fs. map_option (Cons (One f)) (seg_tokens r) = Some (map One fs)"
      if "length r < length chunk" "matchChunk fl r t \<noteq> None" "ascii r"
        "scan_len False (r @ q) = length r" for f r fl t
      using less.hyps [OF that] by (auto intro: exI [of _ "f # _"])
    consider "c = CHR ''*''" | "c = CHR ''[''" | "c = CHR ''?''" | "c = CHR 0x5C"
      | "c \<notin> {CHR ''*'', CHR ''['', CHR ''?'', CHR 0x5C}" by auto
    then show ?thesis
    proof cases
      case 1
      then show ?thesis using less.prems(3) Cons by simp
    next
      case 2
      define negated where "negated \<longleftrightarrow> p \<noteq> [] \<and> hd p = CHR ''^''"
      let ?p = "if negated then tl p else p"
      have ascp: "ascii ?p" using asc by (cases p) auto
      obtain rs rest where cr: "class_ranges 0 ?p = Some (rs, rest)"
        using less.prems(1) Cons 2
        by (cases "class_ranges 0 ?p")
           (auto simp: matchChunk.simps(2) class_loop_ranges Let_def negated_def split: prod.splits)
      have "\<exists>fl t. matchChunk fl rest t \<noteq> None"
        using less.prems(1) Cons 2 cr
        by (simp add: matchChunk.simps(2) class_loop_ranges Let_def flip: negated_def split: prod.splits) blast
      then obtain fl t where m: "matchChunk fl rest t \<noteq> None" by blast
      obtain pre where pre: "?p = pre @ rest" "\<forall>q. scan_len True (pre @ q) = length pre + scan_len False q"
        and ascr: "ascii rest"
        using class_ranges_ascii [OF cr ascp] by blast
      have "scan_len True (?p @ q) = length ?p"
        using less.prems(3) Cons 2 by (cases p) (auto simp: negated_def)
      then have "scan_len False (rest @ q) = length rest" using pre by simp
      then show ?thesis
        using one [OF _ m ascr, of "\<lambda>r. in_ranges rs r \<noteq> negated"] class_ranges_shorter [OF cr] cr Cons 2
        by (auto simp: seg_tokens.simps(2) Let_def negated_def split: if_splits)
    next
      case 3
      then show ?thesis
        using less.prems one [of p _ _ "\<lambda>_. True"] asc Cons
        by (auto simp: matchChunk.simps(2) seg_tokens.simps(2))
    next
      case 4
      then show ?thesis
        using less.prems one [of "tl p" _ _ "\<lambda>r. r = byte (hd p)"] asc Cons
        by (cases p) (auto simp: matchChunk.simps(2) seg_tokens.simps(2))
    next
      case 5
      then have "matchChunk (failed \<or> s = [] \<or> c \<noteq> hd s) p (if failed \<or> s = [] then s else tl s) \<noteq> None"
        using less.prems(1) Cons by (auto simp: matchChunk.simps(2) disj_assoc)
      moreover have "scan_len False (p @ q) = length p"
        using less.prems(3) Cons 5 by (auto split: if_splits)
      ultimately show ?thesis
        using one [of p _ _ "\<lambda>r. r = byte c"] asc Cons 5 by (simp add: seg_tokens.simps(2))
    qed
  qed
qed

lemma getEsc_append:
  assumes "ascii chunk" and "getEsc chunk = Some (r, rest)"
  shows "getEsc (chunk @ q) = Some (r, rest @ q)"
  by (rule getEsc_ascii_cases [OF assms])
     (use assms in \<open>auto simp: getEsc_def Let_def split: if_splits\<close>)

lemma class_ranges_append:
  assumes "class_ranges n chunk = Some (rs, rest)" and "ascii chunk"
  shows "class_ranges n (chunk @ q) = Some (rs, rest @ q)"
  using assms
proof (induction rule: class_ranges_induct)
  case (close n rest)
  then show ?case by (simp add: class_ranges.simps [of n])
next
  case (single n chunk lo mid rs rest)
  note esc = getEsc_ascii [OF \<open>ascii chunk\<close> single(2)]
  show ?case
    using esc single getEsc_append [OF \<open>ascii chunk\<close> single(2)]
    by (simp add: class_ranges.simps [of n])
next
  case (range n chunk lo mid hi mid' rs rest)
  note esc = getEsc_ascii [OF \<open>ascii chunk\<close> range(2)]
  have asc: "ascii (tl mid)" using esc(2,3) by (cases mid) auto
  show ?case
    using esc range getEsc_append [OF \<open>ascii chunk\<close> range(2)] getEsc_append [OF asc range(4)]
      getEsc_ascii(2) [OF asc range(4)]
    by (simp add: class_ranges.simps [of n])
qed

lemma append_Cons_fun: "(@) (x # xs) = (\<lambda>ys. x # xs @ ys)"
  by (simp add: fun_eq_iff)

lemma seg_tokens_append:
  assumes "seg_tokens p = Some ws" and "ascii p"
  shows "seg_tokens (p @ q) = map_option (\<lambda>t. ws @ t) (seg_tokens q)"
  using assms
proof (induction "length p" arbitrary: p ws rule: less_induct)
  case less
  show ?case
  proof (cases p)
    case Nil
    then show ?thesis using less.prems(1) by (cases "seg_tokens q") auto
  next
    case (Cons c r)
    have asc: "ascii r" using less.prems(2) Cons by simp
    from less.prems(1,2) [unfolded Cons] show ?thesis
    proof (cases rule: seg_tokens_ConsE)
      case (2 rs rest ws' negated)
      have app: "class_ranges 0 ((if negated then tl r else r) @ q) = Some (rs, rest @ q)"
        by (rule class_ranges_append [OF 2(3,4)])
      have "r \<noteq> []" using 2(3) by (auto simp: class_ranges.simps [of 0] getEsc_def)
      moreover have "length rest < length p"
        using class_ranges_shorter [OF 2(3)] Cons by (auto split: if_splits)
      ultimately show ?thesis
        using app less.hyps [OF _ 2(6,5)] 2(1,2,7) Cons
        by (cases negated) (auto simp: seg_tokens.simps(2) Let_def option.map_comp comp_def append_Cons_fun)
    qed (use less.hyps [of r] less.hyps [of "tl r"] asc Cons in
          \<open>auto simp: seg_tokens.simps(2) option.map_comp comp_def append_Cons_fun\<close>)
  qed
qed

lemma scan_len_rest:
  "scan_len b p \<le> length p \<and> (drop (scan_len b p) p = [] \<or> hd (drop (scan_len b p) p) = CHR ''*'')"
proof (induction "length p" arbitrary: b p rule: less_induct)
  case less
  show ?case
  proof (cases p)
    case (Cons c q)
    have IH: "scan_len b r \<le> length r \<and> (drop (scan_len b r) r = [] \<or> hd (drop (scan_len b r) r) = CHR ''*'')"
      if "length r < length p" for b r
      using less.hyps [OF that] .
    show ?thesis
    proof (cases "c = CHR 0x5C")
      case True
      then show ?thesis using IH [of "tl q" b] Cons by (cases q) auto
    next
      case False
      then show ?thesis using IH [of q True] IH [of q False] IH [of q b] Cons by simp
    qed
  qed simp
qed

text \<open>What \<open>scanChunk\<close> cuts off a pattern: stars, a run of single-letter tokens, and a rest
  that is empty or starts with a star.\<close>

lemma scanChunk_parts:
  assumes "scanChunk pattern = (star, chunk, rest)" and "pattern \<noteq> []"
  obtains k where "pattern = replicate k (CHR ''*'') @ chunk @ rest" and "star \<longleftrightarrow> 0 < k"
    and "scan_len False (chunk @ rest) = length chunk" and "rest = [] \<or> hd rest = CHR ''*''"
    and "chunk = [] \<longrightarrow> rest = [] \<and> star"
proof -
  define p where "p = dropWhile (\<lambda>c. c = CHR ''*'') pattern"
  have cut: "chunk = take (scan_len False p) p" "rest = drop (scan_len False p) p"
    "star \<longleftrightarrow> hd pattern = CHR ''*''"
    using assms by (auto simp: scanChunk_def Let_def p_def)
  define k where "k = length (takeWhile (\<lambda>c. c = CHR ''*'') pattern)"
  have "takeWhile (\<lambda>c. c = CHR ''*'') pattern = replicate k (CHR ''*'')"
    unfolding k_def by (rule sym, rule replicate_length_same) (auto dest: set_takeWhileD)
  then have eq: "pattern = replicate k (CHR ''*'') @ chunk @ rest"
    using cut takeWhile_dropWhile_id [of "\<lambda>c. c = CHR ''*''" pattern] by (simp add: p_def)
  have "star \<longleftrightarrow> 0 < k" using cut(3) assms(2) by (cases pattern) (auto simp: k_def)
  moreover have "scan_len False (chunk @ rest) = length chunk"
    using cut scan_len_rest [of False p] by simp
  moreover have "rest = [] \<or> hd rest = CHR ''*''" using cut(2) scan_len_rest [of False p] by simp
  moreover have "p = []" if "chunk = []"
  proof (rule ccontr)
    assume "p \<noteq> []"
    then have "hd p \<noteq> CHR ''*''" unfolding p_def by (rule hd_dropWhile)
    moreover have "scan_len False p = 0" using that cut(1) \<open>p \<noteq> []\<close> by simp
    ultimately show False using \<open>p \<noteq> []\<close> by (cases p) (auto split: if_splits list.splits)
  qed
  then have "chunk = [] \<longrightarrow> rest = [] \<and> star"
    using cut(2) eq assms(2) \<open>star \<longleftrightarrow> 0 < k\<close> by auto
  ultimately show ?thesis using that eq by blast
qed

lemma seg_tokens_stars:
  "seg_tokens p = Some ws \<Longrightarrow> seg_tokens (replicate k (CHR ''*'') @ p) = Some (replicate k Any_Run @ ws)"
  by (induction k) (simp_all add: seg_tokens.simps(2))

lemma check_rest_tokens:
  assumes "check_rest pattern \<noteq> None" and "ascii pattern"
  shows "check_rest pattern = Some False \<and> (\<exists>ws. seg_tokens pattern = Some ws)"
  using assms
proof (induction "length pattern" arbitrary: pattern rule: less_induct)
  case less
  show ?case
  proof (cases "pattern = []")
    case True
    then show ?thesis by (simp add: check_rest.simps)
  next
    case False
    obtain star chunk rest where sc: "scanChunk pattern = (star, chunk, rest)" by (metis prod_cases3)
    obtain k where k: "pattern = replicate k (CHR ''*'') @ chunk @ rest"
      "scan_len False (chunk @ rest) = length chunk"
      using scanChunk_parts [OF sc False] by metis
    have m: "matchChunk False chunk [] \<noteq> None" and c: "check_rest pattern = check_rest rest"
      using less.prems(1) False sc by (auto simp: check_rest.simps [of pattern] split: option.splits)
    have asc: "ascii chunk" "ascii rest" using less.prems(2) k by auto
    obtain fs where fs: "seg_tokens chunk = Some (map One fs)"
      using matchChunk_valid [OF m asc(1) k(2)] by blast
    obtain ws where ws: "check_rest rest = Some False" "seg_tokens rest = Some ws"
      using less.hyps [OF scanChunk_shorter [OF False sc]] less.prems(1) c asc(2) by auto
    then have "seg_tokens (chunk @ rest) = Some (map One fs @ ws)"
      using seg_tokens_append [OF fs asc(1)] by simp
    then show ?thesis using seg_tokens_stars ws(1) c k(1) by metis
  qed
qed

lemma matchChunk_failed: "matchChunk True chunk s = Some (t, ok) \<Longrightarrow> \<not> ok"
proof (induction "length chunk" arbitrary: chunk s rule: less_induct)
  case less
  show ?case
  proof (cases chunk)
    case Nil
    then show ?thesis using less.prems by simp
  next
    case (Cons c p)
    have tail: "\<not> ok" if "length r < length chunk" "matchChunk True r u = Some (t, ok)" for r u
      using less.hyps [OF that] .
    show ?thesis
    proof (cases "c = CHR ''[''")
      case True
      let ?q = "if p \<noteq> [] \<and> hd p = CHR ''^'' then tl p else p"
      have "length ?q \<le> length p" by simp
      then show ?thesis
        using less.prems True Cons tail class_loop_shorter [of 0 False 0 ?q]
        by (fastforce simp: matchChunk.simps(2) Let_def split: option.splits)
    next
      case False
      then show ?thesis
        using less.prems Cons tail [of p] tail [of "tl p"]
        by (auto simp: matchChunk.simps(2) [of True c p s] split: if_splits list.splits)
    qed
  qed
qed

lemma matchChunk_at_end: "chunk \<noteq> [] \<Longrightarrow> matchChunk False chunk [] = matchChunk True chunk []"
  by (cases chunk) (simp_all add: matchChunk.simps(2))

lemma path_Match_empty:
  assumes "path_Match pattern [] \<noteq> None"
  shows "check_rest pattern \<noteq> None"
proof (cases "pattern = []")
  case True
  then show ?thesis by (simp add: check_rest.simps)
next
  case False
  obtain star chunk rest where sc: "scanChunk pattern = (star, chunk, rest)" by (metis prod_cases3)
  have empty: "chunk = [] \<Longrightarrow> rest = [] \<and> star" using scanChunk_parts [OF sc False] by metis
  have fail: "ok = False" if "chunk \<noteq> []" "matchChunk False chunk [] = Some (t, ok)" for t ok
    using that matchChunk_failed by (auto simp: matchChunk_at_end)
  show ?thesis
    using assms False sc empty fail
    by (cases "chunk = []")
       (auto simp: path_Match.simps [of pattern] check_rest.simps [of pattern] check_rest.simps [of "[]"]
         split: option.splits if_splits)
qed

lemma accepts_Suc [simp]: "accepts fs lastc (c # name) (Suc i) = accepts fs lastc name i"
  by (simp add: accepts_def)

lemma star_search_spec:
  assumes "seg_tokens chunk = Some (map One fs)" and "ascii chunk" and "ascii name" and "CHR ''/'' \<notin> set name"
  shows "(star_search lastc chunk name = Some None \<and> (\<forall>i < length name. \<not> accepts fs lastc name (Suc i)))
    \<or> (\<exists>i < length name. star_search lastc chunk name = Some (Some (drop (Suc i + length fs) name))
         \<and> accepts fs lastc name (Suc i) \<and> (\<forall>j < i. \<not> accepts fs lastc name (Suc j)))"
  using assms(3,4)
proof (induction name)
  case Nil
  then show ?case by simp
next
  case (Cons c name)
  have m: "matchChunk False chunk name =
      Some (if chunk_ok fs (map byte name) then (drop (length fs) name, True) else ([], False))"
    using matchChunk_tokens [OF assms(1,2), of name False] Cons.prems by simp
  show ?case
  proof (cases "accepts fs lastc name 0")
    case True
    then have "star_search lastc chunk (c # name) = Some (Some (drop (length fs) name))"
      using m Cons.prems by (auto simp: accepts_def)
    then show ?thesis using True by (intro disjI2 exI [of _ 0]) auto
  next
    case False
    then have step: "star_search lastc chunk (c # name) = star_search lastc chunk name"
      using m Cons.prems by (auto simp: accepts_def)
    have less_Suc: "(\<forall>j < Suc i. P j) \<longleftrightarrow> P 0 \<and> (\<forall>j < i. P (Suc j))" for P i
      by (metis less_Suc_eq_0_disj)
    from Cons.IH Cons.prems consider
        "star_search lastc chunk name = Some None" "\<forall>i < length name. \<not> accepts fs lastc name (Suc i)"
      | i where "i < length name" "star_search lastc chunk name = Some (Some (drop (Suc i + length fs) name))"
        "accepts fs lastc name (Suc i)" "\<forall>j < i. \<not> accepts fs lastc name (Suc j)"
      by auto
    then show ?thesis
    proof cases
      case 1
      then show ?thesis using step False by (auto simp: less_Suc_eq_0_disj)
    next
      case 2
      then show ?thesis
        using step False by (intro disjI2 exI [of _ "Suc i"]) (auto simp: less_Suc_eq_0_disj)
    qed
  qed
qed

lemma wild_spec_star: "wild_spec (Any_Run # vs) xs \<longleftrightarrow> (\<exists>i \<le> length xs. wild_spec vs (drop i xs))"
  by (simp del: upt_Suc add: less_Suc_eq_le Bex_def)

lemma wild_spec_stars:
  "0 < k \<Longrightarrow> wild_spec (replicate k Any_Run @ ws) xs \<longleftrightarrow> (\<exists>i \<le> length xs. wild_spec ws (drop i xs))"
proof (induction k arbitrary: xs)
  case (Suc k)
  note one = wild_spec_star [of _ xs]
  show ?case
  proof (cases "k = 0")
    case True
    then show ?thesis using one [of ws] by simp
  next
    case False
    have "(\<exists>i \<le> length xs. \<exists>j \<le> length xs - i. wild_spec ws (drop (j + i) xs))
        \<longleftrightarrow> (\<exists>i \<le> length xs. wild_spec ws (drop i xs))" (is "?l \<longleftrightarrow> ?r")
    proof
      assume ?l
      then obtain i j where "i \<le> length xs" "j \<le> length xs - i" "wild_spec ws (drop (j + i) xs)" by blast
      then show ?r by (intro exI [of _ "j + i"]) auto
    next
      assume ?r
      then show ?l by (intro exI [of _ 0]) auto
    qed
    then show ?thesis using Suc.IH False one [of "replicate k Any_Run @ ws"] by simp
  qed
qed simp

lemma wild_spec_skip:
  assumes "wild_spec (Any_Run # ws) (drop m xs)" and "n \<le> m"
  shows "wild_spec (Any_Run # ws) (drop n xs)"
proof -
  obtain i where i: "i \<le> length (drop m xs)" "wild_spec ws (drop i (drop m xs))"
    using assms(1) unfolding wild_spec_star by blast
  let ?j = "min (i + m) (length xs) - n"
  have "drop ?j (drop n xs) = drop i (drop m xs)"
    using assms(2) i(1) by (cases "m \<le> length xs") (auto simp: min_def)
  moreover have "?j \<le> length (drop n xs)" by auto
  ultimately show ?thesis using i(2) unfolding wild_spec_star by metis
qed

text \<open>Taking the first position where a chunk matches loses nothing: what follows it starts with a
  star, or the chunk is the last one and has to end the name.\<close>

lemma first_hit:
  assumes "vs = [] \<and> lastc \<or> (\<exists>us. vs = Any_Run # us) \<and> \<not> lastc"
    and "accepts fs lastc name i" and "\<forall>j < i. \<not> accepts fs lastc name j" and "i \<le> length name"
  shows "(\<exists>j \<le> length name. wild_spec (map One fs @ vs) (drop j (map byte name)))
    \<longleftrightarrow> wild_spec vs (drop (i + length fs) (map byte name))"
proof
  assume "\<exists>j \<le> length name. wild_spec (map One fs @ vs) (drop j (map byte name))"
  then obtain j where j: "chunk_ok fs (drop j (map byte name))" "wild_spec vs (drop (j + length fs) (map byte name))"
    by (auto simp: wild_spec_ones add.commute)
  show "wild_spec vs (drop (i + length fs) (map byte name))"
    using assms(1)
  proof
    assume "vs = [] \<and> lastc"
    then show ?thesis using assms(2) by (simp add: accepts_def)
  next
    assume vs: "(\<exists>us. vs = Any_Run # us) \<and> \<not> lastc"
    then have "accepts fs lastc name j" using j(1) by (simp add: accepts_def)
    then have "i \<le> j" using assms(3) not_le_imp_less by blast
    then show ?thesis using wild_spec_skip j(2) vs by (metis add_le_mono1)
  qed
next
  assume "wild_spec vs (drop (i + length fs) (map byte name))"
  then show "\<exists>j \<le> length name. wild_spec (map One fs @ vs) (drop j (map byte name))"
    using assms(2,4) by (intro exI [of _ i]) (simp add: accepts_def wild_spec_ones add.commute)
qed

lemma no_hit:
  assumes "vs = [] \<and> lastc \<or> (\<exists>us. vs = Any_Run # us) \<and> \<not> lastc"
    and "\<forall>i \<le> length name. \<not> accepts fs lastc name i"
  shows "\<not> (\<exists>j \<le> length name. wild_spec (map One fs @ vs) (drop j (map byte name)))"
  using assms by (auto simp: accepts_def wild_spec_ones add.commute)

lemma path_Match_chunk:
  assumes sc: "scanChunk pattern = (star, chunk, rest)" and "pattern \<noteq> []" and fs: "seg_tokens chunk = Some (map One fs)"
    and asc: "ascii chunk" "ascii name" "CHR ''/'' \<notin> set name"
    and vs: "vs = [] \<and> rest = [] \<or> (\<exists>us. vs = Any_Run # us) \<and> rest \<noteq> []"
    and dead: "check_rest rest = Some False" and none: "chunk = [] \<longrightarrow> rest = [] \<and> star"
    and IH: "\<And>i. path_Match rest (drop i name) = Some (wild_spec vs (drop i (map byte name)))"
  shows "path_Match pattern name =
    Some (if star then \<exists>i \<le> length name. wild_spec (map One fs @ vs) (drop i (map byte name))
          else wild_spec (map One fs @ vs) (map byte name))"
proof -
  let ?lastc = "rest = []" and ?n = "length fs"
  have m: "matchChunk False chunk name =
      Some (if chunk_ok fs (map byte name) then (drop ?n name, True) else ([], False))"
    using matchChunk_tokens [OF fs asc] by simp
  have acc0: "accepts fs ?lastc name 0 \<longleftrightarrow> chunk_ok fs (map byte name) \<and> (drop ?n name = [] \<or> rest \<noteq> [])"
    by (auto simp: accepts_def)
  have unfold: "path_Match pattern name =
      (if star \<and> chunk = [] then Some True
       else if accepts fs ?lastc name 0 then Some (wild_spec vs (drop ?n (map byte name)))
       else if star then
         (case star_search ?lastc chunk name of
            None \<Rightarrow> None | Some (Some t') \<Rightarrow> path_Match rest t' | Some None \<Rightarrow> Some False)
       else Some False)"
    using assms(2) asc(3) m acc0 IH [of ?n] dead
    by (auto simp: path_Match.simps [of pattern] sc check_rest.simps [of "[]"] split: option.splits)
  have vs': "vs = [] \<and> ?lastc \<or> (\<exists>us. vs = Any_Run # us) \<and> \<not> ?lastc" using vs by blast
  consider "star" "chunk = []" | "chunk \<noteq> []" "accepts fs ?lastc name 0"
    | "chunk \<noteq> []" "\<not> accepts fs ?lastc name 0" "\<not> star"
    | "chunk \<noteq> []" "\<not> accepts fs ?lastc name 0" "star"
    using none by blast
  then show ?thesis
  proof cases
    case 1
    then have "fs = []" "vs = []" using fs vs none by auto
    then show ?thesis using 1 unfold by (auto intro!: exI [of _ "length name"])
  next
    case 2
    then show ?thesis
      using unfold first_hit [OF vs' 2(2)] acc0 by (simp add: wild_spec_ones)
  next
    case 3
    then show ?thesis using unfold acc0 vs by (auto simp: wild_spec_ones)
  next
    case 4
    have no: "\<forall>i \<le> l. \<not> accepts fs ?lastc name i" if "\<forall>i < l. \<not> accepts fs ?lastc name (Suc i)" for l
      using that 4(2) by (metis Suc_le_eq not0_implies_Suc)
    from star_search_spec [OF fs asc, of ?lastc] show ?thesis
    proof (elim disjE conjE exE)
      assume s: "star_search ?lastc chunk name = Some None" "\<forall>i < length name. \<not> accepts fs ?lastc name (Suc i)"
      show ?thesis using unfold 4 s(1) no_hit [OF vs' no [OF s(2)]] by simp
    next
      fix i assume i: "i < length name" "star_search ?lastc chunk name = Some (Some (drop (Suc i + ?n) name))"
        "accepts fs ?lastc name (Suc i)" "\<forall>j < i. \<not> accepts fs ?lastc name (Suc j)"
      have "\<forall>j < Suc i. \<not> accepts fs ?lastc name j" using no [OF i(4)] by auto
      then show ?thesis
        using unfold 4 i(1,2) first_hit [OF vs' i(3)] IH [of "Suc i + ?n"] by simp
    qed
  qed
qed

lemma path_Match_tokens:
  assumes "check_rest pattern \<noteq> None" and "ascii pattern" and "ascii name" and "CHR ''/'' \<notin> set name"
    and "seg_tokens pattern = Some ws"
  shows "path_Match pattern name = Some (wild_spec ws (map byte name))"
  using assms
proof (induction "length pattern" arbitrary: pattern name ws rule: less_induct)
  case less
  show ?case
  proof (cases "pattern = []")
    case True
    then show ?thesis using less.prems(5) by (simp add: path_Match.simps)
  next
    case False
    obtain star chunk rest where sc: "scanChunk pattern = (star, chunk, rest)" by (metis prod_cases3)
    obtain k where k: "pattern = replicate k (CHR ''*'') @ chunk @ rest" "star \<longleftrightarrow> 0 < k"
      "scan_len False (chunk @ rest) = length chunk" "rest = [] \<or> hd rest = CHR ''*''"
      "chunk = [] \<longrightarrow> rest = [] \<and> star"
      using scanChunk_parts [OF sc False] by metis
    have m: "matchChunk False chunk [] \<noteq> None" and c: "check_rest rest \<noteq> None"
      using less.prems(1) False sc by (auto simp: check_rest.simps [of pattern] split: option.splits)
    have asc: "ascii chunk" "ascii rest" using less.prems(2) k by auto
    obtain fs where fs: "seg_tokens chunk = Some (map One fs)"
      using matchChunk_valid [OF m asc(1) k(3)] by blast
    obtain vs where vs: "seg_tokens rest = Some vs" and dead: "check_rest rest = Some False"
      using check_rest_tokens [OF c asc(2)] by blast
    have "seg_tokens pattern = Some (replicate k Any_Run @ map One fs @ vs)"
      using seg_tokens_stars [of "chunk @ rest"] seg_tokens_append [OF fs asc(1), of rest] vs k(1) by simp
    then have ws: "ws = replicate k Any_Run @ map One fs @ vs" using less.prems(5) by simp
    have IH: "path_Match rest (drop i name) = Some (wild_spec vs (drop i (map byte name)))" for i
      using less.hyps [OF scanChunk_shorter [OF False sc] c asc(2) _ _ vs, of "drop i name"] less.prems(3,4)
      by (auto simp: drop_map ascii_def list_all_iff dest: in_set_dropD)
    have "vs = [] \<and> rest = [] \<or> (\<exists>us. vs = Any_Run # us) \<and> rest \<noteq> []"
      using vs k(4) by (cases rest) (auto simp: seg_tokens.simps(2))
    from path_Match_chunk [OF sc False fs asc(1) less.prems(3,4) this dead k(5) IH]
    show ?thesis using ws k(2) wild_spec_stars [of k "map One fs @ vs"] by (cases star) auto
  qed
qed

section \<open>The two matchers agree\<close>

lemma lua_space_ascii: "byte c < 128 \<Longrightarrow> lua_space (byte c) = is_space c"
proof -
  assume "byte c < 128"
  have b: "byte (CHR 0x09) = 9" "byte (CHR 0x0A) = 10" "byte (CHR 0x0B) = 11" "byte (CHR 0x0C) = 12"
    "byte (CHR 0x0D) = 13" "byte (CHR '' '') = 32"
    by (simp_all add: byte_def)
  have "lua_space (byte c) \<longleftrightarrow> byte c = 9 \<or> byte c = 10 \<or> byte c = 11 \<or> byte c = 12 \<or> byte c = 13 \<or> byte c = 32"
    using \<open>byte c < 128\<close> by (auto simp: lua_space_def)
  also have "\<dots> \<longleftrightarrow> is_space c" unfolding is_space_def by (simp flip: b)
  finally show ?thesis .
qed

lemma history_trim_ascii:
  assumes "ascii s"
  shows "history_trim s = trim_slashes (TrimSpace s)"
proof -
  have sp: "\<forall>c \<in> set s. lua_space (byte c) = is_space c" "\<forall>c \<in> set s. lua_enc_width (byte c) = 1"
    using assms lua_space_ascii by (auto simp: ascii_def list_all_iff lua_enc_width_def)
  have tw: "takeWhile lua_space (map byte t) = map byte (takeWhile is_space t)"
    and dw: "dropWhile lua_space (map byte t) = map byte (dropWhile is_space t)" if "set t \<subseteq> set s" for t
    using that sp(1) by (auto simp: takeWhile_map dropWhile_map comp_def intro!: arg_cong [where f = "map byte"]
        takeWhile_cong dropWhile_cong)
  define lead where "lead = takeWhile is_space s"
  define kept where "kept = TrimSpace s"
  obtain trail where s: "s = lead @ kept @ trail"
    using takeWhile_dropWhile_id [of is_space s]
      takeWhile_dropWhile_id [of is_space "rev (dropWhile is_space s)"]
    unfolding lead_def kept_def TrimSpace_def by (metis rev_append rev_rev_ident)
  have sub: "set (dropWhile is_space s) \<subseteq> set s" "set (rev (dropWhile is_space s)) \<subseteq> set s"
    by (auto dest: set_dropWhileD)
  have runes: "takeWhile lua_space (history_runes s) = map byte lead"
    "rev (dropWhile lua_space (rev (dropWhile lua_space (history_runes s)))) = map byte kept"
    using assms tw [of s] dw [of s] dw [OF sub(2)]
    by (simp_all add: lead_def kept_def TrimSpace_def flip: rev_map)
  have w: "sum_list (map lua_enc_width (map byte t)) = length t" if "set t \<subseteq> set s" for t
    using that sp(2) by (induction t) auto
  have "set lead \<subseteq> set s" "set kept \<subseteq> set s" using s by auto
  then have from_to: "sum_list (map lua_enc_width (map byte lead)) = length lead"
    "sum_list (map lua_enc_width (map byte kept)) = length kept"
    using w by blast+
  have len: "length (history_runes s) = length s" using assms by simp
  have "length lead + length kept = length s \<Longrightarrow> trail = []" using arg_cong [OF s, of length] by simp
  moreover have "drop (length lead) (take (length lead + length kept) s) = kept" by (subst s) simp
  moreover have "drop (length lead) (take (length s) s) = kept" if "trail = []" using s that by auto
  ultimately have "history_trim s = trim_slashes kept"
    unfolding history_trim_def Let_def runes from_to len by auto
  then show ?thesis by (simp add: kept_def)
qed

lemma segments_agree:
  assumes "path_Match s [] \<noteq> None" and "ascii s" and "ascii p" and "CHR ''/'' \<notin> set p"
  shows "go_segment s p = history_segment s p"
proof -
  note valid = path_Match_empty [OF assms(1)]
  obtain ws where "seg_tokens s = Some ws" using check_rest_tokens [OF valid assms(2)] by blast
  then show ?thesis
    using path_Match_tokens [OF valid assms(2-4)] history_segment_tokens [OF _ assms(2,3)]
    by (simp add: go_segment_def)
qed

lemma glob_spec_cong:
  "(\<And>s p. s \<in> set segments \<Longrightarrow> p \<in> set parts \<Longrightarrow> f s p = g s p) \<Longrightarrow>
     glob_spec f segments parts = glob_spec g segments parts"
  unfolding glob_spec_def
proof (induction segments arbitrary: parts)
  case (Cons s segments)
  have IH: "wild_spec (map (segment_wild f) segments) (drop k parts) =
      wild_spec (map (segment_wild g) segments) (drop k parts)" for k
    using Cons.IH [of "drop k parts"] Cons.prems by (metis in_set_dropD list.set_intros(2))
  show ?case
  proof (cases "s = ''**''")
    case True
    then have "segment_wild f s = Any_Run" "segment_wild g s = Any_Run" by (simp_all add: segment_wild_def)
    then show ?thesis using IH by (simp del: upt_Suc)
  next
    case False
    then have "segment_wild f s = One (f s)" "segment_wild g s = One (g s)" by (simp_all add: segment_wild_def)
    then show ?thesis using IH [of 1] Cons.prems by (cases parts) auto
  qed
qed simp

lemma ascii_split:
  "ascii s \<Longrightarrow> p \<in> set (split_on c s) \<Longrightarrow> ascii p"
proof -
  have "set p \<subseteq> set s" if "p \<in> set (split_on c s)" for p s
    using that by (induction s arbitrary: p) (auto split: if_splits list.splits, blast+)
  then show "ascii s \<Longrightarrow> p \<in> set (split_on c s) \<Longrightarrow> ascii p"
    by (auto simp: ascii_def list_all_iff)
qed

lemma ascii_trim: "ascii s \<Longrightarrow> ascii (trim_slashes (TrimSpace s))"
  by (auto simp: ascii_def list_all_iff trim_slashes_def TrimSpace_def dest!: set_dropWhileD)

lemma glob_agree:
  assumes "compileGlob pattern = Some segments" and "ascii pattern" and "ascii value"
  shows "history_glob pattern value = MatchString segments value"
proof -
  let ?p = "trim_slashes (TrimSpace pattern)" and ?v = "trim_slashes (TrimSpace value)"
  have seg: "segments = split_on (CHR ''/'') ?p" and valid: "\<forall>s \<in> set segments. path_Match s [] \<noteq> None"
    using assms(1) by (auto simp: compileGlob_def glob_segments_def list_all_iff split: if_splits)
  have "glob_spec go_segment segments (split_on (CHR ''/'') ?v) =
      glob_spec history_segment segments (split_on (CHR ''/'') ?v)"
    using valid assms(2,3) seg
    by (intro glob_spec_cong segments_agree) (auto intro: ascii_split ascii_trim dest: split_on_parts)
  moreover have "\<not> glob_spec go_segment [[]] (split_on (CHR ''/'') ?v)" if "?v \<noteq> []"
  proof
    assume "glob_spec go_segment [[]] (split_on (CHR ''/'') ?v)"
    then have "split_on (CHR ''/'') ?v = [[]]"
      by (auto simp: glob_spec_def segment_wild_def go_segment_def path_Match.simps [of "[]"] split: list.splits)
    then show False using that join_split_on [of "CHR ''/''" ?v] by simp
  qed
  ultimately show ?thesis
    using seg assms(2,3)
    by (cases "?p = []") (auto simp: history_glob_spec MatchString_spec Let_def history_trim_ascii)
qed


text \<open>The equations that evaluate the Go matcher on concrete text.\<close>

lemmas glob_eval = path_Match.simps scanChunk_def matchChunk.simps(2) class_loop.simps getEsc_def
  DecodeRune_def byte_def check_rest.simps RuneError_def


end
