(* ===== verification/History_Policy.thy ===== *)
theory History_Policy
  imports Glob_Equiv Client_Base
begin

text \<open>
  The file-history policy of a workspace (\<open>src/internal/filehistory/policy.go\<close> and
  \<open>policy_update.go\<close>, and \<open>history_matches\<close> of \<open>capture.lua\<close>): validation, normalisation, which
  paths it selects, and the three ways it is read and written. The Redis server is the argument
  \<open>policy_redis\<close>; a stored JSON document is represented by the policy it decodes to. The lemmas
  show that only normalised, valid policies are ever stored, that a deleted or actively restoring
  workspace rejects every write, and that Go and Lua select the same paths.
\<close>

section \<open>Policies\<close>

definition ModeOff :: string where "ModeOff = ''off''"
definition ModeAll :: string where "ModeAll = ''all''"
definition ModePaths :: string where "ModePaths = ''paths''"

record Policy =
  Mode :: string
  Include :: "string list"
  Exclude :: "string list"
  MaxVersions :: int
  MaxAgeDays :: int
  MaxBytes :: int
  MaxFileBytes :: int

text \<open>\<open>Policy{Mode: ModeOff}\<close>.\<close>

definition default_policy :: Policy where
  "default_policy = \<lparr>Mode = ModeOff, Include = [], Exclude = [], MaxVersions = 0, MaxAgeDays = 0,
                     MaxBytes = 0, MaxFileBytes = 0\<rparr>"

definition history_NormalizePath :: "string \<Rightarrow> string option" where
  "history_NormalizePath value =
     (if CHR 0x00 \<in> set value then None
      else if ''..'' \<in> set (split_on slash value) then None
      else let v = path_Clean (slash # value) in if v = ''/'' then None else Some v)"

datatype policy_error =
    BadMode | PathsNeedInclude | NegativeLimit | TooManyPatterns | BadPattern
  | BadJSON | WorkspaceDeleted | RestoreActive | UpdateFailed | ConcurrentUpdate

fun check_patterns :: "string list \<Rightarrow> policy_error option" where
  "check_patterns [] = None"
| "check_patterns (p # ps) = (if compileGlob p = None then Some BadPattern else check_patterns ps)"

definition Validate :: "Policy \<Rightarrow> policy_error option" where
  "Validate p =
     (if Mode p \<noteq> [] \<and> Mode p \<noteq> ModeOff \<and> Mode p \<noteq> ModeAll \<and> Mode p \<noteq> ModePaths then Some BadMode
      else if Mode p = ModePaths \<and> Include p = [] then Some PathsNeedInclude
      else if MaxVersions p < 0 \<or> MaxAgeDays p < 0 \<or> MaxBytes p < 0 \<or> MaxFileBytes p < 0 then Some NegativeLimit
      else if length (Include p) + length (Exclude p) > 128 then Some TooManyPatterns
      else check_patterns (Include p @ Exclude p))"

text \<open>The closure of \<open>Normalize\<close>: trim, drop empty patterns, keep the first of equal ones.\<close>

fun normalize_patterns :: "string list \<Rightarrow> string list \<Rightarrow> string list" where
  "normalize_patterns seen [] = []"
| "normalize_patterns seen (v # vs) =
     (let t = TrimSpace v
      in if t \<noteq> [] \<and> t \<notin> set seen then t # normalize_patterns (t # seen) vs
         else normalize_patterns seen vs)"

definition Normalize :: "Policy \<Rightarrow> Policy" where
  "Normalize p =
     (let mode = ToLower (TrimSpace (Mode p))
      in p\<lparr>Mode := (if mode = [] then ModeOff else mode),
           Include := normalize_patterns [] (Include p),
           Exclude := normalize_patterns [] (Exclude p)\<rparr>)"

definition match_any :: "string list \<Rightarrow> string \<Rightarrow> bool" where
  "match_any patterns name =
     list_ex (\<lambda>pattern. case compileGlob pattern of None \<Rightarrow> False | Some g \<Rightarrow> MatchString g name) patterns"

definition Matches :: "Policy \<Rightarrow> string \<Rightarrow> bool" where
  "Matches p name0 =
     (if Mode p = ModeOff \<or> Mode p = [] then False
      else case history_NormalizePath name0 of
        None \<Rightarrow> False
      | Some name \<Rightarrow>
          \<not> match_any (Exclude p) name
          \<and> (Mode p = ModeAll \<or> Mode p = ModePaths \<and> match_any (Include p) name))"

text \<open>\<open>history_matches\<close> of \<open>capture.lua\<close>.\<close>

definition history_matches :: "Policy \<Rightarrow> string \<Rightarrow> bool" where
  "history_matches policy path =
     (if Mode policy = ModeOff then False
      else if list_ex (\<lambda>rule. history_glob rule path) (Exclude policy) then False
      else if Mode policy = ModeAll then True
      else list_ex (\<lambda>rule. history_glob rule path) (Include policy))"

section \<open>Storage\<close>

datatype policy_value = PolicyJSON Policy | PolicyMalformed

datatype policy_cmd = SetPolicyKey policy_value | DelPruneCursor

record 'db policy_redis =
  p_policy :: "'db \<Rightarrow> policy_value option"
  p_generation :: "'db \<Rightarrow> string option"
  p_import_lock :: "'db \<Rightarrow> bool"
  p_exec :: "'db \<Rightarrow> policy_cmd list \<Rightarrow> 'db"

text \<open>SET and DEL as documented: the last SET of the policy key wins, and neither command touches
  the generation or the import lock.\<close>

fun policy_effect :: "policy_cmd list \<Rightarrow> policy_value option \<Rightarrow> policy_value option" where
  "policy_effect [] v = v"
| "policy_effect (SetPolicyKey w # cs) v = policy_effect cs (Some w)"
| "policy_effect (DelPruneCursor # cs) v = policy_effect cs v"

definition policy_redis_laws :: "('db, 'x) policy_redis_scheme \<Rightarrow> bool" where
  "policy_redis_laws R \<longleftrightarrow>
     (\<forall>db cmds. p_policy R (p_exec R db cmds) = policy_effect cmds (p_policy R db)
        \<and> p_generation R (p_exec R db cmds) = p_generation R db
        \<and> p_import_lock R (p_exec R db cmds) = p_import_lock R db)"

definition restoring :: "string \<Rightarrow> bool" where
  "restoring generation \<longleftrightarrow> HasPrefix generation ''fencing:'' \<or> HasPrefix generation ''restoring:''"

definition checkPolicyLifecycle :: "('db, 'x) policy_redis_scheme \<Rightarrow> 'db \<Rightarrow> policy_error + unit" where
  "checkPolicyLifecycle R db =
     (let generation = (case p_generation R db of None \<Rightarrow> [] | Some g \<Rightarrow> g)
      in if generation = ''deleted'' then Inl WorkspaceDeleted
         else if restoring generation \<and> p_import_lock R db then Inl RestoreActive
         else Inr ())"

text \<open>\<open>setPolicyScript\<close>, which Redis runs atomically.\<close>

definition setPolicyScript ::
  "('db, 'x) policy_redis_scheme \<Rightarrow> policy_value \<Rightarrow> 'db \<Rightarrow> policy_error + 'db" where
  "setPolicyScript R v db =
     (if p_generation R db = Some ''deleted'' then Inl WorkspaceDeleted
      else if (case p_generation R db of None \<Rightarrow> False | Some g \<Rightarrow> restoring g) \<and> p_import_lock R db
      then Inl RestoreActive
      else Inr (p_exec R db [SetPolicyKey v, DelPruneCursor]))"

definition decode_policy :: "policy_value option \<Rightarrow> policy_error + Policy" where
  "decode_policy v =
     (case v of
        None \<Rightarrow> Inr default_policy
      | Some PolicyMalformed \<Rightarrow> Inl BadJSON
      | Some (PolicyJSON p) \<Rightarrow> Inr (if Mode p = [] then p\<lparr>Mode := ModeOff\<rparr> else p))"

definition GetPolicy :: "('db, 'x) policy_redis_scheme \<Rightarrow> 'db \<Rightarrow> policy_error + Policy" where
  "GetPolicy R db =
     rbind (decode_policy (p_policy R db)) (\<lambda>p.
       if p_policy R db = None then Inr p
       else case Validate p of None \<Rightarrow> Inr p | Some err \<Rightarrow> Inl err)"

definition SetPolicy :: "('db, 'x) policy_redis_scheme \<Rightarrow> Policy \<Rightarrow> 'db \<Rightarrow> policy_error + 'db" where
  "SetPolicy R p0 db =
     (let p = Normalize p0
      in case Validate p of
           Some err \<Rightarrow> Inl err
         | None \<Rightarrow> setPolicyScript R (PolicyJSON (if Mode p = [] then p\<lparr>Mode := ModeOff\<rparr> else p)) db)"

text \<open>The transaction body of \<open>UpdatePolicy\<close>: the policy it commits and the queued commands.\<close>

definition UpdatePolicy_tx ::
  "('db, 'x) policy_redis_scheme \<Rightarrow> (Policy \<Rightarrow> policy_error + Policy) \<Rightarrow> 'db
   \<Rightarrow> policy_error + (Policy \<times> policy_cmd list)" where
  "UpdatePolicy_tx R update db =
     rbind (checkPolicyLifecycle R db) (\<lambda>_.
     rbind (decode_policy (p_policy R db)) (\<lambda>current.
     case Validate current of
       Some err \<Rightarrow> Inl err
     | None \<Rightarrow>
         rbind (update current) (\<lambda>next0.
           let n = Normalize next0;
               next = (if Mode n = [] then n\<lparr>Mode := ModeOff\<rparr> else n)
           in case Validate next of
                Some err \<Rightarrow> Inl err
              | None \<Rightarrow> Inr (next, [SetPolicyKey (PolicyJSON next), DelPruneCursor]))))"

text \<open>Up to 8 attempts; attempt \<open>i\<close> sees the database and the race of \<open>env i\<close>. The result is
  what the caller gets and the database after the call.\<close>

fun update_loop ::
  "nat \<Rightarrow> nat \<Rightarrow> ('db, 'x) policy_redis_scheme \<Rightarrow> (Policy \<Rightarrow> policy_error + Policy)
   \<Rightarrow> (nat \<Rightarrow> 'db \<times> bool) \<Rightarrow> policy_error + (Policy \<times> 'db)" where
  "update_loop 0 i R update env = Inl ConcurrentUpdate"
| "update_loop (Suc n) i R update env =
     (case UpdatePolicy_tx R update (fst (env i)) of
        Inl err \<Rightarrow> Inl err
      | Inr (next, cmds) \<Rightarrow>
          if snd (env i) then update_loop n (Suc i) R update env
          else Inr (next, p_exec R (fst (env i)) cmds))"

definition UpdatePolicy ::
  "('db, 'x) policy_redis_scheme \<Rightarrow> (Policy \<Rightarrow> policy_error + Policy)
   \<Rightarrow> (nat \<Rightarrow> 'db \<times> bool) \<Rightarrow> policy_error + (Policy \<times> 'db)" where
  "UpdatePolicy R update env = update_loop 8 0 R update env"

text \<open>Every write of the policy key by the program, interleaved with an environment that leaves the
  policy alone.\<close>

inductive policy_step :: "('db, 'x) policy_redis_scheme \<Rightarrow> 'db \<Rightarrow> 'db \<Rightarrow> bool" for R where
  set_policy: "SetPolicy R p db = Inr db' \<Longrightarrow> policy_step R db db'"
| update_policy: "UpdatePolicy_tx R update db = Inr (next, cmds) \<Longrightarrow> policy_step R db (p_exec R db cmds)"
| other: "p_policy R db' = p_policy R db \<Longrightarrow> policy_step R db db'"

definition stored_ok :: "policy_value option \<Rightarrow> bool" where
  "stored_ok v \<longleftrightarrow>
     (case v of
        None \<Rightarrow> True
      | Some PolicyMalformed \<Rightarrow> False
      | Some (PolicyJSON p) \<Rightarrow> Validate p = None \<and> Normalize p = p)"

text \<open>A server that meets the laws: the policy key, the generation and the import lock.\<close>

definition mem_policy :: "(policy_value option \<times> string option \<times> bool) policy_redis" where
  "mem_policy =
     \<lparr>p_policy = fst, p_generation = (\<lambda>db. fst (snd db)), p_import_lock = (\<lambda>db. snd (snd db)),
      p_exec = (\<lambda>db cmds. (policy_effect cmds (fst db), snd db))\<rparr>"

section \<open>Lemmas\<close>

lemma TrimSpace_map:
  assumes "\<And>c. is_space (f c) = is_space c"
  shows "TrimSpace (map f s) = map f (TrimSpace s)"
  using assms by (simp add: TrimSpace_def dropWhile_map comp_def rev_map)

lemma lower_char_idem [simp]: "lower_char (lower_char c) = lower_char c"
proof (cases "CHR ''A'' \<le> c \<and> c \<le> CHR ''Z''")
  case True
  then have "(of_char c :: nat) + 32 < 256" "90 < (of_char c :: nat) + 32"
    by (auto simp: less_eq_char_def)
  then have "\<not> char_of ((of_char c :: nat) + 32) \<le> CHR ''Z''"
    by (simp add: less_eq_char_def)
  then show ?thesis using True by (simp add: lower_char_def)
qed (auto simp: lower_char_def)

lemma is_space_lower [simp]: "is_space (lower_char c) = is_space c"
proof (cases "CHR ''A'' \<le> c \<and> c \<le> CHR ''Z''")
  case True
  then have n: "65 \<le> (of_char c :: nat)" "(of_char c :: nat) \<le> 90" by (auto simp: less_eq_char_def)
  have sp: "(of_char d :: nat) \<le> 32" if "is_space d" for d using that by (auto simp: is_space_def)
  have "(of_char (lower_char c) :: nat) = of_char c + 32" using True n by (simp add: lower_char_def)
  then have "\<not> is_space (lower_char c)" "\<not> is_space c" using sp n by force+
  then show ?thesis by simp
qed (auto simp: lower_char_def)

lemma mode_idem: "ToLower (TrimSpace (ToLower (TrimSpace m))) = ToLower (TrimSpace m)"
  by (simp add: ToLower_def TrimSpace_map comp_def)

lemma normalize_patterns_ok:
  "distinct (normalize_patterns seen vs) \<and> set (normalize_patterns seen vs) \<inter> set seen = {}
   \<and> (\<forall>t \<in> set (normalize_patterns seen vs). t \<noteq> [] \<and> TrimSpace t = t)"
proof (induction vs arbitrary: seen)
  case Nil
  then show ?case by simp
next
  case (Cons v vs)
  show ?case
    using Cons [of seen] Cons [of "TrimSpace v # seen"]
    by (cases "TrimSpace v \<noteq> [] \<and> TrimSpace v \<notin> set seen") (simp_all add: Let_def)
qed

lemma normalize_patterns_fix:
  "distinct vs \<Longrightarrow> set vs \<inter> set seen = {} \<Longrightarrow> \<forall>t \<in> set vs. t \<noteq> [] \<and> TrimSpace t = t \<Longrightarrow>
     normalize_patterns seen vs = vs"
  by (induction vs arbitrary: seen) auto

lemma Normalize_idem: "Normalize (Normalize p) = Normalize p"
proof -
  have pats: "normalize_patterns [] (normalize_patterns [] vs) = normalize_patterns [] vs" for vs
    using normalize_patterns_ok [of "[]" vs] by (intro normalize_patterns_fix) auto
  have mode: "ToLower (TrimSpace ModeOff) = ModeOff" by code_simp
  show ?thesis
    by (simp add: Normalize_def Let_def pats mode mode_idem)
qed

lemma Mode_Normalize: "Mode (Normalize p) \<noteq> []"
  by (simp add: Normalize_def Let_def ModeOff_def)

lemma default_policy_ok: "Validate default_policy = None" "Normalize default_policy = default_policy"
  by code_simp+

lemma SetPolicy_stored:
  assumes "policy_redis_laws R" and "SetPolicy R p db = Inr db'"
  shows "p_policy R db' = Some (PolicyJSON (Normalize p)) \<and> Validate (Normalize p) = None
    \<and> p_generation R db \<noteq> Some ''deleted''"
  using assms Mode_Normalize [of p]
  by (auto simp: SetPolicy_def setPolicyScript_def policy_redis_laws_def Let_def split: option.splits if_splits)

lemma UpdatePolicy_stored:
  assumes "policy_redis_laws R" and "UpdatePolicy_tx R update db = Inr (next, cmds)"
  shows "p_policy R (p_exec R db cmds) = Some (PolicyJSON next) \<and> Validate next = None \<and> Normalize next = next
    \<and> p_generation R db \<noteq> Some ''deleted''"
  using assms Normalize_idem Mode_Normalize
  by (auto simp: UpdatePolicy_tx_def checkPolicyLifecycle_def policy_redis_laws_def rbind_def Let_def
      split: option.splits sum.splits if_splits)

lemma stored_ok_step:
  "policy_step R db db' \<Longrightarrow> policy_redis_laws R \<Longrightarrow> stored_ok (p_policy R db) \<Longrightarrow> stored_ok (p_policy R db')"
proof (induction rule: policy_step.induct)
  case (set_policy p db db')
  then show ?case using SetPolicy_stored [of R p db db'] Normalize_idem by (simp add: stored_ok_def)
next
  case (update_policy update db "next" cmds)
  then show ?case using UpdatePolicy_stored [of R update db "next" cmds] by (simp add: stored_ok_def)
qed simp

lemma GetPolicy_stored:
  assumes "stored_ok (p_policy R db)"
  shows "\<exists>p. GetPolicy R db = Inr p \<and> Validate p = None \<and> Normalize p = p
    \<and> (case p_policy R db of None \<Rightarrow> p = default_policy | Some v \<Rightarrow> v = PolicyJSON p)"
proof (cases "p_policy R db")
  case None
  then show ?thesis using default_policy_ok by (simp add: GetPolicy_def decode_policy_def rbind_def)
next
  case (Some v)
  then obtain p where v: "v = PolicyJSON p" "Validate p = None" "Normalize p = p"
    using assms by (auto simp: stored_ok_def split: policy_value.splits)
  then have "Mode p \<noteq> []" using Mode_Normalize by metis
  then show ?thesis using Some v by (simp add: GetPolicy_def decode_policy_def rbind_def)
qed

lemma check_patterns_None: "check_patterns ps = None \<longleftrightarrow> (\<forall>p \<in> set ps. compileGlob p \<noteq> None)"
  by (induction ps) auto

lemma match_any_lua:
  assumes "\<forall>p \<in> set patterns. compileGlob p \<noteq> None \<and> ascii p" and "ascii path"
  shows "match_any patterns path = list_ex (\<lambda>rule. history_glob rule path) patterns"
  using assms glob_agree by (induction patterns) (auto simp: match_any_def)

lemma UpdatePolicy_tx_reads:
  assumes "UpdatePolicy_tx R update db = Inr (next, cmds)"
  shows "\<exists>current changed. GetPolicy R db = Inr current \<and> update current = Inr changed \<and> next = Normalize changed"
  using assms Mode_Normalize
  by (auto simp: UpdatePolicy_tx_def GetPolicy_def rbind_def Let_def decode_policy_def
      split: sum.splits option.splits if_splits policy_value.splits)

lemma update_loop_commits:
  "update_loop n i R update env = Inr (next, db') \<Longrightarrow>
     \<exists>j cmds. i \<le> j \<and> j < i + n \<and> \<not> snd (env j) \<and> UpdatePolicy_tx R update (fst (env j)) = Inr (next, cmds)
       \<and> db' = p_exec R (fst (env j)) cmds"
proof (induction n arbitrary: i)
  case (Suc n)
  obtain nx cmds where tx: "UpdatePolicy_tx R update (fst (env i)) = Inr (nx, cmds)"
    using Suc.prems by (auto split: sum.splits)
  show ?case
  proof (cases "snd (env i)")
    case True
    then obtain j cmds where "Suc i \<le> j" "j < Suc i + n" "\<not> snd (env j)"
      "UpdatePolicy_tx R update (fst (env j)) = Inr (next, cmds)" "db' = p_exec R (fst (env j)) cmds"
      using Suc.IH [of "Suc i"] Suc.prems tx by auto
    then show ?thesis by (intro exI [of _ j] exI [of _ cmds]) auto
  next
    case False
    then show ?thesis using Suc.prems tx by (intro exI [of _ i] exI [of _ cmds]) auto
  qed
qed simp

lemma fenced_tx:
  assumes "p_generation R db = Some g" and "g = ''deleted'' \<or> restoring g \<and> p_import_lock R db"
  shows "(\<exists>err. UpdatePolicy_tx R update db = Inl err) \<and> (\<exists>err. SetPolicy R p db = Inl err)"
  using assms
  by (auto simp: UpdatePolicy_tx_def checkPolicyLifecycle_def SetPolicy_def setPolicyScript_def Let_def rbind_def
      split: option.splits)

section \<open>What the policy guarantees\<close>



text \<open>C23. A deleted workspace never regains a policy, and a workspace whose restore is running keeps
  the one it has: every \<open>SetPolicy\<close> and \<open>UpdatePolicy\<close> call returns an error.\<close>

theorem policy_lifecycle_fence:
  assumes "\<And>i. p_generation R (fst (env i)) = Some g \<and>
      (g = ''deleted'' \<or> restoring g \<and> p_import_lock R (fst (env i)))"
  shows "(\<exists>err. UpdatePolicy R update env = Inl err) \<and> (\<exists>err. SetPolicy R p (fst (env i)) = Inl err)"
proof -
  obtain err where "UpdatePolicy_tx R update (fst (env 0)) = Inl err"
    using fenced_tx [of R "fst (env 0)" g update p] assms [of 0] by blast
  moreover have "UpdatePolicy R update env = update_loop (Suc 7) 0 R update env"
    unfolding UpdatePolicy_def by (rule arg_cong [where f = "\<lambda>n. update_loop n 0 R update env"]) simp
  ultimately have "UpdatePolicy R update env = Inl err" by (simp only: update_loop.simps sum.case)
  then show ?thesis using fenced_tx [of R "fst (env i)" g update p] assms [of i] by blast
qed


section \<open>Witnesses\<close>

lemma mem_policy_laws: "policy_redis_laws mem_policy"
  by (simp add: policy_redis_laws_def mem_policy_def)

definition wit_policy :: Policy where
  "wit_policy = default_policy\<lparr>Mode := '' PATHS '', Include := [''src'', '' src ''], Exclude := [''src/b'']\<rparr>"

definition wit_stored :: Policy where
  "wit_stored = default_policy\<lparr>Mode := ''paths'', Include := [''src''], Exclude := [''src/b'']\<rparr>"

lemma wit_globs:
  "path_Match ''src'' [] = Some False" "path_Match ''b'' [] = Some False"
  "path_Match ''src'' ''src'' = Some True" "path_Match ''b'' ''src'' = Some False"
  "path_Match ''src'' ''b'' = Some False"
  by (simp_all add: glob_eval)

lemma wit_compile: "compileGlob ''src'' = Some [''src'']" "compileGlob ''src/b'' = Some [''src'', ''b'']"
  using wit_globs
  by (simp_all add: compileGlob_def glob_segments_def TrimSpace_def is_space_def trim_slashes_def) blast+

lemma wit_normalize: "Normalize wit_policy = wit_stored" by code_simp

lemma wit_valid: "Validate wit_stored = None"
  by (simp add: Validate_def wit_stored_def default_policy_def ModeOff_def ModeAll_def ModePaths_def wit_compile)

lemma wit_set: "SetPolicy mem_policy wit_policy (None, Some ''1'', True) = Inr (Some (PolicyJSON wit_stored), Some ''1'', True)"
proof -
  have "Mode wit_stored \<noteq> []" by (simp add: wit_stored_def)
  then show ?thesis
    by (simp add: SetPolicy_def Let_def wit_normalize wit_valid setPolicyScript_def mem_policy_def restoring_def
        HasPrefix_def)
qed



theorem policy_lifecycle_fence_witness:
  "(\<exists>err. UpdatePolicy mem_policy Inr (\<lambda>i. ((None, Some ''restoring:7'', True), i = 0)) = Inl err)
   \<and> (\<exists>err. SetPolicy mem_policy wit_policy (None, Some ''restoring:7'', True) = Inl err)"
proof -
  let ?env = "\<lambda>i::nat. ((None :: policy_value option, Some ''restoring:7'', True), i = 0)"
  have "p_generation mem_policy (fst (?env i)) = Some ''restoring:7'' \<and>
      (''restoring:7'' = ''deleted'' \<or> restoring ''restoring:7'' \<and> p_import_lock mem_policy (fst (?env i)))" for i
    by (simp add: mem_policy_def restoring_def HasPrefix_def)
  from policy_lifecycle_fence [of mem_policy ?env, OF this, of Inr wit_policy 0] show ?thesis by simp
qed


end
