(* ===== verification/Simulation.thy ===== *)
theory Simulation
  imports AFS_Prelude
begin

text \<open>
  Forward simulation: a component's operations, which may fail, against an abstract machine. The
  interface is the locale \<open>simulation\<close>; it lifts one step to any sequence of operations, for the
  results of the operations as well as for the state.
\<close>

fun run_steps :: "('op \<Rightarrow> 's \<Rightarrow> 'e + 's) \<Rightarrow> 'op list \<Rightarrow> 's \<Rightarrow> 'e + 's" where
  "run_steps step [] s = Inr s"
| "run_steps step (op # ops) s = rbind (step op s) (run_steps step ops)"

lemma run_steps_append [simp]:
  "run_steps step (xs @ ys) s = rbind (run_steps step xs s) (run_steps step ys)"
  by (induction xs arbitrary: s) (auto simp: rbind_def split: sum.split)

locale simulation =
  fixes rel :: "'s \<Rightarrow> 'a \<Rightarrow> bool"
    and step :: "'op \<Rightarrow> 's \<Rightarrow> 'e + 's"
    and astep :: "'op \<Rightarrow> 'a \<Rightarrow> 'a"
    and ok :: "'op \<Rightarrow> bool"
  assumes step_sim: "rel s a \<Longrightarrow> ok op \<Longrightarrow> \<exists>s'. step op s = Inr s' \<and> rel s' (astep op a)"
begin

lemma run_sim:
  "rel s a \<Longrightarrow> \<forall>op\<in>set ops. ok op \<Longrightarrow> \<exists>s'. run_steps step ops s = Inr s' \<and> rel s' (fold astep ops a)"
proof (induction ops arbitrary: s a)
  case (Cons op ops)
  from Cons.prems obtain s1 where "step op s = Inr s1" "rel s1 (astep op a)"
    using step_sim by force
  then show ?case
    using Cons by simp
qed simp

lemma run_never_fails: "rel s a \<Longrightarrow> \<forall>op\<in>set ops. ok op \<Longrightarrow> run_steps step ops s \<noteq> Inl e"
  using run_sim by force

end

end
