(* ===== verification/Redis_Content.thy ===== *)
theory Redis_Content
  imports Simulation
begin

text \<open>
  File content in Redis (\<open>src/internal/rediscontent/content.go\<close>): a plain string value, or a Redis
  Array of 4096-byte chunks with the exact size kept in the file's metadata. The server is the
  argument \<open>content_redis\<close>; \<open>content_redis_laws\<close> states what GET, GETRANGE, SET, DEL, ARGETRANGE,
  ARSET and ARDELRANGE are documented to do. The lemmas show that the chunked array implements a
  byte string: loading, range reads, range writes, truncation and full writes refine the
  corresponding operations on a list of bytes, in any sequence.
\<close>

section \<open>The server\<close>

datatype content_cmd =
    SetString string string
  | DelKey string
  | ArSet string nat "string list"
  | ArDelRange string nat nat
  | ExpireKey string nat

text \<open>
  The value of a key: a string, or the elements of an array. A key that does not exist is an array
  with no element.
\<close>

datatype content_value = KString string | KArray "nat \<Rightarrow> string option"

datatype content_error = ServerError | NoArraySupport | UnsupportedRef | InvalidOffset | InvalidSize

record 'db content_redis =
  c_value :: "'db \<Rightarrow> string \<Rightarrow> content_value"
  c_get :: "'db \<Rightarrow> string \<Rightarrow> content_error + string option"
  c_getrange :: "'db \<Rightarrow> string \<Rightarrow> nat \<Rightarrow> nat \<Rightarrow> content_error + string"
  c_argetrange :: "'db \<Rightarrow> string \<Rightarrow> nat \<Rightarrow> nat \<Rightarrow> content_error + string option list"
  c_exec :: "'db \<Rightarrow> content_cmd list \<Rightarrow> content_error + 'db"
  c_arrays :: bool

fun set_elems :: "nat \<Rightarrow> string list \<Rightarrow> (nat \<Rightarrow> string option) \<Rightarrow> nat \<Rightarrow> string option" where
  "set_elems start [] a = a"
| "set_elems start (v # vs) a = set_elems (Suc start) vs (a(start := Some v))"

text \<open>One command on the values of all keys; an array command on a string is the WRONGTYPE error.\<close>

fun cmd_effect :: "content_cmd \<Rightarrow> (string \<Rightarrow> content_value) \<Rightarrow> (string \<Rightarrow> content_value) option" where
  "cmd_effect (SetString k v) s = Some (s(k := KString v))"
| "cmd_effect (DelKey k) s = Some (s(k := KArray (\<lambda>_. None)))"
| "cmd_effect (ArSet k start vs) s =
     (case s k of KString _ \<Rightarrow> None | KArray a \<Rightarrow> Some (s(k := KArray (set_elems start vs a))))"
| "cmd_effect (ArDelRange k lo hi) s =
     (case s k of
        KString _ \<Rightarrow> None
      | KArray a \<Rightarrow> Some (s(k := KArray (\<lambda>i. if lo \<le> i \<and> i \<le> hi then None else a i))))"
| "cmd_effect (ExpireKey k n) s = Some s"

fun cmds_effect :: "content_cmd list \<Rightarrow> (string \<Rightarrow> content_value) \<Rightarrow> (string \<Rightarrow> content_value) option" where
  "cmds_effect [] s = Some s"
| "cmds_effect (c # cs) s = (case cmd_effect c s of None \<Rightarrow> None | Some s' \<Rightarrow> cmds_effect cs s')"

definition content_redis_laws :: "('db, 'x) content_redis_scheme \<Rightarrow> bool" where
  "content_redis_laws R \<longleftrightarrow>
     (\<forall>db key s. c_value R db key = KString s \<longrightarrow> c_get R db key = Inr (Some s)) \<and>
     (\<forall>db key. c_value R db key = KArray (\<lambda>_. None) \<longrightarrow> c_get R db key = Inr None) \<and>
     (\<forall>db key s lo hi. c_value R db key = KString s \<longrightarrow>
        c_getrange R db key lo hi = Inr (take (Suc hi - lo) (drop lo s))) \<and>
     (\<forall>db key a lo hi. c_value R db key = KArray a \<longrightarrow> lo \<le> hi \<longrightarrow>
        c_argetrange R db key lo hi = Inr (map a [lo..<Suc hi])) \<and>
     (\<forall>db cmds s. cmds_effect cmds (c_value R db) = Some s \<longrightarrow>
        (\<exists>db'. c_exec R db cmds = Inr db' \<and> c_value R db' = s))"

section \<open>Operations\<close>

definition RefExternal :: string where "RefExternal = ''ext''"
definition RefArray :: string where "RefArray = ''array''"
definition ArrayChunkBytes :: nat where "ArrayChunkBytes = 4096"
definition arrayCommandBatchChunks :: nat where "arrayCommandBatchChunks = 512"

abbreviation zero_byte :: char where "zero_byte \<equiv> CHR 0x00"

text \<open>\<open>copy(dst[i:i+len(src)], src)\<close>.\<close>

definition copy_at :: "nat \<Rightarrow> 'a list \<Rightarrow> 'a list \<Rightarrow> 'a list" where
  "copy_at i src dst = take i dst @ src @ drop (i + length src) dst"

definition chunkCountForSize :: "int \<Rightarrow> nat" where
  "chunkCountForSize sz =
     (if sz \<le> 0 then 0 else nat ((sz + int ArrayChunkBytes - 1) div int ArrayChunkBytes))"

function splitArrayChunks :: "string \<Rightarrow> string list" where
  "splitArrayChunks data =
     (if data = [] then []
      else take ArrayChunkBytes data # splitArrayChunks (drop ArrayChunkBytes data))"
  by auto
termination by (relation "measure length") (auto simp: ArrayChunkBytes_def)

declare splitArrayChunks.simps [simp del]

definition arrayGetRange ::
  "('db, 'x) content_redis_scheme \<Rightarrow> 'db \<Rightarrow> string \<Rightarrow> nat \<Rightarrow> nat \<Rightarrow> content_error + string option list" where
  "arrayGetRange R db key start stop = (if stop < start then Inr [] else c_argetrange R db key start stop)"

definition arrayValueBytes :: "string option \<Rightarrow> string" where
  "arrayValueBytes v = (case v of None \<Rightarrow> [] | Some s \<Rightarrow> s)"

text \<open>One element of a batch of \<open>loadArray\<close>, at chunk \<open>c\<close>.\<close>

fun load_elem :: "nat \<Rightarrow> nat \<times> string option \<Rightarrow> string \<Rightarrow> string" where
  "load_elem sz (c, None) result = result"
| "load_elem sz (c, Some raw) result =
     (let offset = c * ArrayChunkBytes;
          limit = min (length raw) (sz - offset)
      in if limit = 0 then result else copy_at offset (take limit raw) result)"

function load_batches ::
  "('db, 'x) content_redis_scheme \<Rightarrow> 'db \<Rightarrow> string \<Rightarrow> nat \<Rightarrow> nat \<Rightarrow> nat \<Rightarrow> string \<Rightarrow>
     content_error + string" where
  "load_batches R db key sz totalChunks start result =
     (if totalChunks \<le> start then Inr result
      else
        case arrayGetRange R db key start (min (start + arrayCommandBatchChunks) totalChunks - 1) of
          Inl e \<Rightarrow> Inl e
        | Inr vals \<Rightarrow>
            load_batches R db key sz totalChunks (start + arrayCommandBatchChunks)
              (fold (load_elem sz) (zip [start..<start + length vals] vals) result))"
  by auto
termination
  by (relation "measure (\<lambda>(R, db, key, sz, totalChunks, start, result). totalChunks - start)")
     (auto simp: arrayCommandBatchChunks_def)

declare load_batches.simps [simp del]

definition loadArray :: "('db, 'x) content_redis_scheme \<Rightarrow> 'db \<Rightarrow> string \<Rightarrow> int \<Rightarrow> content_error + string" where
  "loadArray R db key sz =
     (if sz \<le> 0 then Inr []
      else load_batches R db key (nat sz) (chunkCountForSize sz) 0 (replicate (nat sz) zero_byte))"

definition Load ::
  "('db, 'x) content_redis_scheme \<Rightarrow> 'db \<Rightarrow> string \<Rightarrow> string \<Rightarrow> int \<Rightarrow> content_error + string" where
  "Load R db key ref sz =
     (if TrimSpace ref = [] \<or> TrimSpace ref = RefExternal then
        (case c_get R db key of Inl e \<Rightarrow> Inl e | Inr None \<Rightarrow> Inr [] | Inr (Some v) \<Rightarrow> Inr v)
      else if TrimSpace ref = RefArray then
        (if \<not> c_arrays R then Inl NoArraySupport else loadArray R db key sz)
      else Inl UnsupportedRef)"

text \<open>The ARSET commands of a full write, in batches of 512 chunks.\<close>

function queue_batches :: "string \<Rightarrow> string list \<Rightarrow> nat \<Rightarrow> content_cmd list" where
  "queue_batches key chunks start =
     (if length chunks \<le> start then []
      else ArSet key start (take arrayCommandBatchChunks (drop start chunks))
             # queue_batches key chunks (start + arrayCommandBatchChunks))"
  by auto
termination
  by (relation "measure (\<lambda>(key, chunks, start). length chunks - start)")
     (auto simp: arrayCommandBatchChunks_def)

declare queue_batches.simps [simp del]

definition queueArrayWriteFull :: "string \<Rightarrow> string \<Rightarrow> content_cmd list" where
  "queueArrayWriteFull key data =
     DelKey key # (if data = [] then [] else queue_batches key (splitArrayChunks data) 0)"

definition QueueWriteFull :: "string \<Rightarrow> string \<Rightarrow> string \<Rightarrow> content_cmd list" where
  "QueueWriteFull key ref data =
     (if TrimSpace ref = RefArray then queueArrayWriteFull key data else [SetString key data])"

text \<open>One element of \<open>readArrayRange\<close>.\<close>

definition read_elem :: "nat \<Rightarrow> nat \<Rightarrow> nat \<times> string option \<Rightarrow> string \<Rightarrow> string" where
  "read_elem startByte endByte cv result =
     (case cv of
        (c, None) \<Rightarrow> result
      | (c, Some raw) \<Rightarrow>
          let chunkStart = c * ArrayChunkBytes;
              chunkEnd = chunkStart + ArrayChunkBytes;
              segmentStart = max startByte chunkStart;
              segmentEnd = min endByte chunkEnd
          in if segmentEnd \<le> segmentStart then result
             else
               let srcStart = segmentStart - chunkStart;
                   srcEnd = min (length raw) (segmentEnd - chunkStart)
               in if srcEnd \<le> srcStart then result
                  else copy_at (segmentStart - startByte) (drop srcStart (take srcEnd raw)) result)"

definition readArrayRange ::
  "('db, 'x) content_redis_scheme \<Rightarrow> 'db \<Rightarrow> string \<Rightarrow> nat \<Rightarrow> nat \<Rightarrow> content_error + string" where
  "readArrayRange R db key startByte endByte =
     (if endByte \<le> startByte then Inr []
      else
        let startChunk = startByte div ArrayChunkBytes;
            endChunk = (endByte - 1) div ArrayChunkBytes
        in case arrayGetRange R db key startChunk endChunk of
             Inl e \<Rightarrow> Inl e
           | Inr vals \<Rightarrow> Inr (fold (read_elem startByte endByte) (zip [startChunk..<startChunk + length vals] vals)
             (replicate (endByte - startByte) zero_byte)))"

definition ReadRange ::
  "('db, 'x) content_redis_scheme \<Rightarrow> 'db \<Rightarrow> string \<Rightarrow> string \<Rightarrow> int \<Rightarrow> int \<Rightarrow> int \<Rightarrow> content_error + string" where
  "ReadRange R db key ref sz off cnt =
     (if cnt \<le> 0 \<or> sz \<le> off then Inr []
      else if off < 0 then Inl InvalidOffset
      else
        let stop = (if sz < off + cnt then sz else off + cnt)
        in if TrimSpace ref = [] \<or> TrimSpace ref = RefExternal then
             c_getrange R db key (nat off) (nat (stop - 1))
           else if TrimSpace ref = RefArray then
             (if \<not> c_arrays R then Inl NoArraySupport
              else readArrayRange R db key (nat off) (nat stop))
           else Inl UnsupportedRef)"

text \<open>
  One chunk of \<open>writeArrayRange\<close>: the existing element padded to the chunk size, the payload
  bytes that fall into it copied over, cut to the length to store. The state of the loop is the
  payload offset.
\<close>

definition write_elem :: "nat \<Rightarrow> nat \<Rightarrow> string \<Rightarrow> nat \<times> string option \<Rightarrow> nat \<Rightarrow> string \<times> nat" where
  "write_elem off endByte payload cv payloadOffset =
     (let (c, v) = cv;
          raw = arrayValueBytes v;
          chunk = take ArrayChunkBytes raw @ replicate (ArrayChunkBytes - length raw) zero_byte;
          chunkStart = c * ArrayChunkBytes;
          chunkEnd = chunkStart + ArrayChunkBytes;
          writeStart = max off chunkStart;
          writeEnd = min endByte chunkEnd;
          n = writeEnd - writeStart;
          chunk' = (if writeEnd > writeStart
                    then copy_at (writeStart - chunkStart) (take n (drop payloadOffset payload)) chunk
                    else chunk);
          storeLen = (if writeEnd > chunkStart then max (length raw) (writeEnd - chunkStart) else length raw)
      in (take (min storeLen ArrayChunkBytes) chunk',
          if writeEnd > writeStart then payloadOffset + n else payloadOffset))"

fun write_elems :: "nat \<Rightarrow> nat \<Rightarrow> string \<Rightarrow> (nat \<times> string option) list \<Rightarrow> nat \<Rightarrow> string list" where
  "write_elems off endByte payload [] po = []"
| "write_elems off endByte payload (cv # cvs) po =
     (let (chunk, po') = write_elem off endByte payload cv po
      in chunk # write_elems off endByte payload cvs po')"

definition writeArrayRange ::
  "('db, 'x) content_redis_scheme \<Rightarrow> 'db \<Rightarrow> string \<Rightarrow> nat \<Rightarrow> string \<Rightarrow> nat \<Rightarrow> content_error + 'db" where
  "writeArrayRange R db key off payload ttl =
     (let startChunk = off div ArrayChunkBytes;
          endByte = off + length payload;
          endChunk = (endByte - 1) div ArrayChunkBytes
      in case arrayGetRange R db key startChunk endChunk of
           Inl e \<Rightarrow> Inl e
         | Inr existing \<Rightarrow>
             c_exec R db
               (ArSet key startChunk
                  (write_elems off endByte payload (zip [startChunk..<startChunk + length existing] existing) 0)
                # (if ttl = 0 then [] else [ExpireKey key ttl])))"

definition WriteRangeWithTTL ::
  "('db, 'x) content_redis_scheme \<Rightarrow> 'db \<Rightarrow> string \<Rightarrow> int \<Rightarrow> string \<Rightarrow> nat \<Rightarrow> content_error + 'db" where
  "WriteRangeWithTTL R db key off payload ttl =
     (if off < 0 then Inl InvalidOffset
      else if payload = [] then Inr db
      else if \<not> c_arrays R then Inl NoArraySupport
      else writeArrayRange R db key (nat off) payload ttl)"

definition WriteRange ::
  "('db, 'x) content_redis_scheme \<Rightarrow> 'db \<Rightarrow> string \<Rightarrow> int \<Rightarrow> string \<Rightarrow> content_error + 'db" where
  "WriteRange R db key off payload = WriteRangeWithTTL R db key off payload 0"

definition truncateArray ::
  "('db, 'x) content_redis_scheme \<Rightarrow> 'db \<Rightarrow> string \<Rightarrow> int \<Rightarrow> int \<Rightarrow> nat \<Rightarrow> content_error + 'db" where
  "truncateArray R db key oldSize newSize ttl =
     (if newSize = oldSize then Inr db
      else if newSize = 0 then c_exec R db [DelKey key]
      else if newSize > oldSize then Inr db
      else
        let oldChunks = chunkCountForSize oldSize;
            newChunks = chunkCountForSize newSize;
            lastChunkSize = nat newSize mod ArrayChunkBytes;
            delTail = (if newChunks < oldChunks then [ArDelRange key newChunks (oldChunks - 1)] else [])
        in if newChunks = 0 then c_exec R db [DelKey key]
           else if lastChunkSize = 0 then (if delTail = [] then Inr db else c_exec R db delTail)
           else
             case arrayGetRange R db key (newChunks - 1) (newChunks - 1) of
               Inl e \<Rightarrow> Inl e
             | Inr vals \<Rightarrow>
                 c_exec R db
                   ((case vals of
                       Some raw # _ \<Rightarrow> [ArSet key (newChunks - 1) [take (min lastChunkSize (length raw)) raw]]
                     | _ \<Rightarrow> []) @
                    delTail @
                    (if ttl = 0 then [] else [ExpireKey key ttl])))"

definition TruncateWithTTL ::
  "('db, 'x) content_redis_scheme \<Rightarrow> 'db \<Rightarrow> string \<Rightarrow> int \<Rightarrow> int \<Rightarrow> nat \<Rightarrow> content_error + 'db" where
  "TruncateWithTTL R db key oldSize newSize ttl =
     (if newSize < 0 then Inl InvalidSize
      else if \<not> c_arrays R then Inl NoArraySupport
      else truncateArray R db key oldSize newSize ttl)"

definition Truncate ::
  "('db, 'x) content_redis_scheme \<Rightarrow> 'db \<Rightarrow> string \<Rightarrow> int \<Rightarrow> int \<Rightarrow> content_error + 'db" where
  "Truncate R db key oldSize newSize = TruncateWithTTL R db key oldSize newSize 0"

section \<open>The byte string an array stands for\<close>

definition byte_at :: "(nat \<Rightarrow> string option) \<Rightarrow> nat \<Rightarrow> char" where
  "byte_at a i =
     (case a (i div ArrayChunkBytes) of
        None \<Rightarrow> zero_byte
      | Some raw \<Rightarrow> if i mod ArrayChunkBytes < length raw then raw ! (i mod ArrayChunkBytes) else zero_byte)"

definition array_bytes :: "(nat \<Rightarrow> string option) \<Rightarrow> nat \<Rightarrow> string" where
  "array_bytes a n = map (byte_at a) [0..<n]"

text \<open>Every element holds 1 to 4096 bytes, none of them at or past the size.\<close>

definition array_wf :: "(nat \<Rightarrow> string option) \<Rightarrow> nat \<Rightarrow> bool" where
  "array_wf a n \<longleftrightarrow>
     (\<forall>c raw. a c = Some raw \<longrightarrow>
        raw \<noteq> [] \<and> length raw \<le> ArrayChunkBytes \<and> c * ArrayChunkBytes + length raw \<le> n)"

text \<open>The operations on a plain list of bytes.\<close>

definition overlay :: "nat \<Rightarrow> string \<Rightarrow> string \<Rightarrow> string" where
  "overlay off payload bytes =
     take off (bytes @ replicate (off - length bytes) zero_byte) @ payload @ drop (off + length payload) bytes"

definition resize :: "nat \<Rightarrow> string \<Rightarrow> string" where
  "resize n bytes = take n bytes @ replicate (n - length bytes) zero_byte"

section \<open>Chunk arithmetic and loops over chunks\<close>

lemma chunk_pos [simp]: "0 < ArrayChunkBytes"
  by (simp add: ArrayChunkBytes_def)

lemma chunk_div: "c * ArrayChunkBytes \<le> j \<Longrightarrow> j < c * ArrayChunkBytes + ArrayChunkBytes \<Longrightarrow> j div ArrayChunkBytes = c"
  by (intro div_nat_eqI) (auto simp: ac_simps)

lemma chunk_mod:
  assumes "c * ArrayChunkBytes \<le> j" "j < c * ArrayChunkBytes + ArrayChunkBytes"
  shows "j mod ArrayChunkBytes = j - c * ArrayChunkBytes"
  using chunk_div [OF assms] by (simp add: modulo_nat_def)

lemma chunk_bounds:
  "j div ArrayChunkBytes * ArrayChunkBytes \<le> j"
  "j < j div ArrayChunkBytes * ArrayChunkBytes + ArrayChunkBytes"
  using chunk_pos dividend_less_div_times [of ArrayChunkBytes j] by simp_all

lemma chunk_lower: "off div ArrayChunkBytes \<le> c \<Longrightarrow> off < c * ArrayChunkBytes + ArrayChunkBytes"
  using chunk_bounds(2) [of off] mult_le_mono1 [of "off div ArrayChunkBytes" c ArrayChunkBytes] by linarith

lemma chunk_upper: "0 < n \<Longrightarrow> c \<le> (n - 1) div ArrayChunkBytes \<Longrightarrow> c * ArrayChunkBytes < n"
  using chunk_bounds(1) [of "n - 1"] mult_le_mono1 [of c "(n - 1) div ArrayChunkBytes" ArrayChunkBytes]
  by linarith

lemma chunkCount_nat: "0 < n \<Longrightarrow> chunkCountForSize (int n) = Suc ((n - 1) div ArrayChunkBytes)"
  by (simp add: chunkCountForSize_def ArrayChunkBytes_def)

lemma chunkCount_less: "c < chunkCountForSize (int n) \<longleftrightarrow> c * ArrayChunkBytes < n"
proof (cases "n = 0")
  case False
  then have "c < chunkCountForSize (int n) \<longleftrightarrow> c \<le> (n - 1) div ArrayChunkBytes"
    by (simp add: chunkCount_nat less_Suc_eq_le)
  also have "\<dots> \<longleftrightarrow> c * ArrayChunkBytes \<le> n - 1"
    by (simp add: less_eq_div_iff_mult_less_eq)
  finally show ?thesis
    using False by linarith
qed (simp add: chunkCountForSize_def)

lemma length_copy_at [simp]: "i + length src \<le> length dst \<Longrightarrow> length (copy_at i src dst) = length dst"
  by (simp add: copy_at_def)

lemma nth_copy_at:
  "i + length src \<le> length dst \<Longrightarrow> j < length dst \<Longrightarrow>
   copy_at i src dst ! j = (if i \<le> j \<and> j < i + length src then src ! (j - i) else dst ! j)"
  by (auto simp: copy_at_def nth_append min_def)

lemma set_elems_apply:
  "set_elems start vs a i = (if start \<le> i \<and> i < start + length vs then Some (vs ! (i - start)) else a i)"
  by (induction vs arbitrary: start a) (auto simp: nth_Cons')

text \<open>The byte an element gives to position \<open>j\<close>, if it has one there.\<close>

fun elem_has :: "string option \<Rightarrow> nat \<Rightarrow> bool" where
  "elem_has None j = False"
| "elem_has (Some raw) j = (j mod ArrayChunkBytes < length raw)"

fun elem_byte :: "string option \<Rightarrow> nat \<Rightarrow> char" where
  "elem_byte None j = zero_byte"
| "elem_byte (Some raw) j = raw ! (j mod ArrayChunkBytes)"

lemma byte_at_elem:
  "byte_at a i = (if elem_has (a (i div ArrayChunkBytes)) i then elem_byte (a (i div ArrayChunkBytes)) i else zero_byte)"
  by (auto simp: byte_at_def split: option.split)

text \<open>
  A loop over consecutive chunks, each of which fills in its own positions of the result: position
  \<open>j\<close> of the result belongs to the chunk of byte \<open>base + j\<close>.
\<close>

lemma fold_chunks:
  assumes step: "\<And>c v r. v \<in> set vs \<Longrightarrow> length r = n \<Longrightarrow> length (f (c, v) r) = n \<and>
      (\<forall>j<n. f (c, v) r ! j =
         (if (base + j) div ArrayChunkBytes = c \<and> elem_has v (base + j) then elem_byte v (base + j) else r ! j))"
  shows "length r = n \<Longrightarrow> length (fold f (zip [s..<s + length vs] vs) r) = n \<and>
      (\<forall>j<n. fold f (zip [s..<s + length vs] vs) r ! j =
         (let c = (base + j) div ArrayChunkBytes
          in if s \<le> c \<and> c < s + length vs \<and> elem_has (vs ! (c - s)) (base + j)
             then elem_byte (vs ! (c - s)) (base + j) else r ! j))"
  using step
proof (induction vs arbitrary: s r)
  case (Cons v vs)
  let ?r = "f (s, v) r"
  have st: "length ?r = n"
    and nth: "\<And>j. j < n \<Longrightarrow> ?r ! j = (if (base + j) div ArrayChunkBytes = s \<and> elem_has v (base + j)
                 then elem_byte v (base + j) else r ! j)"
    using Cons.prems(2) [of v r s] Cons.prems(1) by simp_all
  have unf: "zip [s..<s + length (v # vs)] (v # vs) = (s, v) # zip [Suc s..<Suc s + length vs] vs"
    by (simp add: upt_rec del: upt_Suc)
  have ih: "length (fold f (zip [Suc s..<Suc s + length vs] vs) ?r) = n \<and>
      (\<forall>j<n. fold f (zip [Suc s..<Suc s + length vs] vs) ?r ! j =
         (let c = (base + j) div ArrayChunkBytes
          in if Suc s \<le> c \<and> c < Suc s + length vs \<and> elem_has (vs ! (c - Suc s)) (base + j)
             then elem_byte (vs ! (c - Suc s)) (base + j) else ?r ! j))"
    by (rule Cons.IH [OF st]) (rule Cons.prems(2), simp_all)
  show ?case
    unfolding unf using ih by (auto simp: Let_def nth nth_Cons')
qed (auto simp: Let_def)

lemma copy_segment:
  assumes "a \<le> lo" "cs \<le> lo" "lo - cs < se" "se \<le> length raw" "cs + se \<le> b" "length r = b - a"
  shows "length (copy_at (lo - a) (drop (lo - cs) (take se raw)) r) = b - a" (is "length ?out = _")
    and "j < b - a \<Longrightarrow> copy_at (lo - a) (drop (lo - cs) (take se raw)) r ! j =
       (if lo \<le> a + j \<and> a + j < cs + se then raw ! (a + j - cs) else r ! j)"
proof -
  let ?src = "drop (lo - cs) (take se raw)"
  have len: "length ?src = cs + se - lo"
    using assms(2-4) by simp
  then have fit: "lo - a + length ?src \<le> length r"
    using assms by linarith
  then show "length ?out = b - a"
    using assms(6) by simp
  assume j: "j < b - a"
  have "lo - a \<le> j \<and> j < lo - a + length ?src \<longleftrightarrow> lo \<le> a + j \<and> a + j < cs + se"
    unfolding len using assms(1-3) by linarith
  moreover have "?src ! (j - (lo - a)) = raw ! (a + j - cs)" if "lo \<le> a + j" "a + j < cs + se"
  proof -
    have "?src ! (j - (lo - a)) = take se raw ! (lo - cs + (j - (lo - a)))"
      using assms(3,4) by (intro nth_drop) simp
    also have "lo - cs + (j - (lo - a)) = a + j - cs"
      using that assms(1,2) by linarith
    finally show ?thesis
      using that assms(2) by simp
  qed
  ultimately show "?out ! j = (if lo \<le> a + j \<and> a + j < cs + se then raw ! (a + j - cs) else r ! j)"
    using nth_copy_at [OF fit] j assms(6) by simp
qed

lemma read_elem_step:
  assumes "\<And>raw. v = Some raw \<Longrightarrow> length raw \<le> ArrayChunkBytes" "length r = n" "n = b - a"
  shows "length (read_elem a b (c, v) r) = n \<and>
    (\<forall>j<n. read_elem a b (c, v) r ! j =
       (if (a + j) div ArrayChunkBytes = c \<and> elem_has v (a + j) then elem_byte v (a + j) else r ! j))"
proof (cases v)
  case (Some raw)
  define cs where "cs = c * ArrayChunkBytes"
  define lo where "lo = max a cs"
  define hi where "hi = min b (cs + ArrayChunkBytes)"
  define se where "se = min (length raw) (hi - cs)"
  have len: "length raw \<le> ArrayChunkBytes"
    by (rule assms(1) [OF Some])
  have run: "read_elem a b (c, v) r =
      (if hi \<le> lo \<or> se \<le> lo - cs then r else copy_at (lo - a) (drop (lo - cs) (take se raw)) r)"
    by (auto simp: read_elem_def Some Let_def cs_def lo_def hi_def se_def)
  have iff: "(a + j) div ArrayChunkBytes = c \<and> (a + j) mod ArrayChunkBytes < length raw \<longleftrightarrow>
      cs \<le> a + j \<and> a + j < cs + length raw" for j
    using chunk_div [of c "a + j"] chunk_mod [of c "a + j"] chunk_bounds [of "a + j"] len
    unfolding cs_def by auto
  have val: "raw ! (a + j - cs) = raw ! ((a + j) mod ArrayChunkBytes)" if "(a + j) div ArrayChunkBytes = c" for j
    using chunk_mod [of c "a + j"] chunk_bounds [of "a + j"] that unfolding cs_def by simp
  show ?thesis
  proof (cases "hi \<le> lo \<or> se \<le> lo - cs")
    case True
    have "\<not> (cs \<le> a + j \<and> a + j < cs + length raw)" if "j < n" for j
      using True that assms(3) len unfolding lo_def hi_def se_def by auto
    then show ?thesis
      using run True assms(2) iff Some by auto
  next
    case False
    then have b: "a \<le> lo" "cs \<le> lo" "lo - cs < se" "se \<le> length raw" "cs + se \<le> b" "length r = b - a"
    proof -
      have m: "a \<le> lo" "cs \<le> lo" "hi \<le> b" "se \<le> hi - cs" "se \<le> length raw"
        by (simp_all add: lo_def hi_def se_def)
      then show "a \<le> lo" "cs \<le> lo" "se \<le> length raw"
        by simp_all
      show "lo - cs < se" "cs + se \<le> b" "length r = b - a"
        using False m assms(2,3) by linarith+
    qed
    have "lo \<le> a + j \<and> a + j < cs + se \<longleftrightarrow> cs \<le> a + j \<and> a + j < cs + length raw" if "j < n" for j
      using that assms(3) len by (auto simp: lo_def hi_def se_def)
    then show ?thesis
      using copy_segment [OF b] run False assms(3) iff val Some by auto
  qed
qed (use assms(2) in \<open>simp add: read_elem_def\<close>)

text \<open>Loading is reading the range from 0, chunk by chunk.\<close>

lemma load_elem_read:
  assumes "\<And>raw. v = Some raw \<Longrightarrow> length raw \<le> ArrayChunkBytes"
  shows "load_elem n (c, v) r = read_elem 0 n (c, v) r"
proof (cases v)
  case (Some raw)
  then have "length raw \<le> ArrayChunkBytes"
    by (rule assms)
  then show ?thesis
    by (auto simp: Some read_elem_def Let_def min_def)
qed (simp add: read_elem_def)

lemma load_elem_step:
  assumes "\<And>raw. v = Some raw \<Longrightarrow> length raw \<le> ArrayChunkBytes" "length r = n"
  shows "length (load_elem n (c, v) r) = n \<and>
    (\<forall>j<n. load_elem n (c, v) r ! j =
       (if (0 + j) div ArrayChunkBytes = c \<and> elem_has v (0 + j) then elem_byte v (0 + j) else r ! j))"
  using read_elem_step [OF assms, where a = 0 and b = n] load_elem_read [OF assms(1)] by simp

section \<open>Loads and range reads\<close>

definition array_short :: "(nat \<Rightarrow> string option) \<Rightarrow> bool" where
  "array_short a \<longleftrightarrow> (\<forall>c raw. a c = Some raw \<longrightarrow> length raw \<le> ArrayChunkBytes)"

lemma array_wf_short: "array_wf a n \<Longrightarrow> array_short a"
  by (simp add: array_wf_def array_short_def)

lemma length_array_bytes [simp]: "length (array_bytes a n) = n"
  by (simp add: array_bytes_def)

lemma nth_array_bytes [simp]: "i < n \<Longrightarrow> array_bytes a n ! i = byte_at a i"
  by (simp add: array_bytes_def)

lemma arrayGetRange_array:
  assumes "content_redis_laws R" "c_value R db key = KArray a"
  shows "arrayGetRange R db key lo hi = Inr (map a [lo..<Suc hi])"
  using assms by (simp add: arrayGetRange_def content_redis_laws_def del: upt_Suc)

lemma load_batches_bytes:
  assumes laws: "content_redis_laws R" and val: "c_value R db key = KArray a" and short: "array_short a"
    and tc: "totalChunks = chunkCountForSize (int n)"
  shows "length r = n \<Longrightarrow> \<forall>j<n. r ! j = (if j div ArrayChunkBytes < start then byte_at a j else zero_byte) \<Longrightarrow>
    load_batches R db key n totalChunks start r = Inr (array_bytes a n)"
proof (induction "totalChunks - start" arbitrary: start r rule: less_induct)
  case less
  show ?case
  proof (cases "totalChunks \<le> start")
    case True
    have "r ! j = byte_at a j" if "j < n" for j
      using less.prems(2) that True chunkCount_less [of "j div ArrayChunkBytes" n] chunk_bounds(1) [of j] tc by auto
    then have "r = array_bytes a n"
      using less.prems(1) by (simp add: list_eq_iff_nth_eq)
    then show ?thesis
      using True by (simp add: load_batches.simps [of R db key n totalChunks start])
  next
    case False
    define top where "top = min (start + arrayCommandBatchChunks) totalChunks"
    let ?vals = "map a [start..<top]"
    let ?r = "fold (load_elem n) (zip [start..<start + length ?vals] ?vals) r"
    have top: "start < top" "top \<le> start + arrayCommandBatchChunks" "top \<le> totalChunks"
      using False by (auto simp: top_def arrayCommandBatchChunks_def)
    have get: "arrayGetRange R db key start (top - 1) = Inr ?vals"
      using arrayGetRange_array [OF laws val] top by (simp del: upt_Suc)
    have step: "v \<in> set ?vals \<Longrightarrow> length r' = n \<Longrightarrow> length (load_elem n (c, v) r') = n \<and>
      (\<forall>j<n. load_elem n (c, v) r' ! j =
       (if (0 + j) div ArrayChunkBytes = c \<and> elem_has v (0 + j) then elem_byte v (0 + j) else r' ! j))" for c v r'
      by (rule load_elem_step) (use short in \<open>auto simp: array_short_def\<close>)
    note res = fold_chunks [where f = "load_elem n" and vs = ?vals and base = 0 and s = start,
        OF step less.prems(1), unfolded Let_def]
    have "?r ! j = (if j div ArrayChunkBytes < start + arrayCommandBatchChunks then byte_at a j else zero_byte)"
      if j: "j < n" for j
    proof -
      have "j div ArrayChunkBytes < totalChunks"
        using j chunkCount_less [of "j div ArrayChunkBytes" n] chunk_bounds(1) [of j] tc by simp
      then show ?thesis
        using res less.prems(2) j top by (auto simp: byte_at_elem top_def min_def split: if_splits)
    qed
    then have "load_batches R db key n totalChunks (start + arrayCommandBatchChunks) ?r = Inr (array_bytes a n)"
      using less.hyps [of "start + arrayCommandBatchChunks" ?r] res False
      by (auto simp: arrayCommandBatchChunks_def)
    then show ?thesis
      using False get by (simp add: load_batches.simps [of R db key n totalChunks start] top_def)
  qed
qed

lemma loadArray_bytes:
  assumes "content_redis_laws R" "c_value R db key = KArray a" "array_short a"
  shows "loadArray R db key (int n) = Inr (array_bytes a n)"
proof (cases "n = 0")
  case False
  then show ?thesis
    using load_batches_bytes [OF assms refl, of "replicate n zero_byte" n 0] by (simp add: loadArray_def)
qed (simp add: loadArray_def array_bytes_def)

lemma readArrayRange_bytes:
  assumes laws: "content_redis_laws R" and val: "c_value R db key = KArray a" and short: "array_short a"
  shows "readArrayRange R db key lo hi = Inr (map (byte_at a) [lo..<hi])"
proof (cases "hi \<le> lo")
  case False
  let ?s = "lo div ArrayChunkBytes" and ?e = "(hi - 1) div ArrayChunkBytes"
  let ?vals = "map a [?s..<Suc ?e]" and ?r = "replicate (hi - lo) zero_byte"
  let ?out = "fold (read_elem lo hi) (zip [?s..<?s + length ?vals] ?vals) ?r"
  have step: "v \<in> set ?vals \<Longrightarrow> length r = hi - lo \<Longrightarrow> length (read_elem lo hi (c, v) r) = hi - lo \<and>
      (\<forall>j<hi - lo. read_elem lo hi (c, v) r ! j =
       (if (lo + j) div ArrayChunkBytes = c \<and> elem_has v (lo + j) then elem_byte v (lo + j) else r ! j))" for c v r
    by (rule read_elem_step) (use short in \<open>auto simp: array_short_def\<close>)
  note res = fold_chunks [where f = "read_elem lo hi" and vs = ?vals and base = lo and s = ?s and r = ?r,
      OF step length_replicate, unfolded Let_def]
  have se: "?s \<le> ?e"
    using False by (intro div_le_mono) simp
  have "?out ! j = byte_at a (lo + j)" if "j < hi - lo" for j
  proof -
    have "?s \<le> (lo + j) div ArrayChunkBytes" "(lo + j) div ArrayChunkBytes \<le> ?e"
      using that by (auto intro!: div_le_mono)
    then show ?thesis
      using res that se by (auto simp: byte_at_elem simp del: upt_Suc)
  qed
  then have "?out = map (byte_at a) [lo..<hi]"
    using res by (simp add: list_eq_iff_nth_eq del: upt_Suc)
  then show ?thesis
    using False arrayGetRange_array [OF laws val] by (simp add: readArrayRange_def Let_def del: upt_Suc)
qed (simp add: readArrayRange_def)

lemma array_range_bytes: "hi \<le> n \<Longrightarrow> map (byte_at a) [lo..<hi] = take (hi - lo) (drop lo (array_bytes a n))"
  by (cases "lo \<le> hi") (simp_all add: array_bytes_def take_map drop_map)

section \<open>Range writes\<close>

lemma write_elem_first:
  assumes len: "length (arrayValueBytes v) \<le> ArrayChunkBytes" and off: "off < c * ArrayChunkBytes + ArrayChunkBytes"
    and stop: "c * ArrayChunkBytes < off + length payload" and ne: "payload \<noteq> []"
    and po: "po = max off (c * ArrayChunkBytes) - off"
    and w: "write_elem off (off + length payload) payload (c, v) po = (chunk, po')"
  shows "po' = min (off + length payload) (c * ArrayChunkBytes + ArrayChunkBytes) - off"
    and "length chunk = max (length (arrayValueBytes v))
           (min (off + length payload) (c * ArrayChunkBytes + ArrayChunkBytes) - c * ArrayChunkBytes)"
    and "\<And>p. p < length chunk \<Longrightarrow> chunk ! p =
           (if off \<le> c * ArrayChunkBytes + p \<and> c * ArrayChunkBytes + p < off + length payload
            then payload ! (c * ArrayChunkBytes + p - off)
            else if p < length (arrayValueBytes v) then arrayValueBytes v ! p else zero_byte)"
proof -
  define cs where "cs = c * ArrayChunkBytes"
  define raw where "raw = arrayValueBytes v"
  define fin where "fin = off + length payload"
  define ws where "ws = max off cs"
  define we where "we = min fin (cs + ArrayChunkBytes)"
  define padded where "padded = raw @ replicate (ArrayChunkBytes - length raw) zero_byte"
  define src where "src = take (we - ws) (drop po payload)"
  have b: "off < cs + ArrayChunkBytes" "cs < fin" "off < fin" "length raw \<le> ArrayChunkBytes" "po = ws - off"
    using off stop ne len po by (auto simp: cs_def fin_def raw_def ws_def)
  then have lt: "ws < we" "cs < we"
    by (auto simp: ws_def we_def)
  have lens: "length padded = ArrayChunkBytes" "length src = we - ws"
    using b lt by (auto simp: padded_def src_def ws_def we_def fin_def)
  have fit: "ws - cs + length src \<le> length padded"
    using b lt lens by (auto simp: ws_def we_def)
  have eq: "chunk = take (min (max (length raw) (we - cs)) ArrayChunkBytes) (copy_at (ws - cs) src padded)"
    "po' = po + (we - ws)"
    using w lt b(4) unfolding write_elem_def Let_def
    by (auto simp: cs_def raw_def fin_def ws_def we_def padded_def src_def)
  have bound: "max (length raw) (we - cs) \<le> ArrayChunkBytes"
    using b by (auto simp: we_def)
  then have ch: "chunk = take (max (length raw) (we - cs)) (copy_at (ws - cs) src padded)"
    using eq(1) by simp
  show "po' = min (off + length payload) (c * ArrayChunkBytes + ArrayChunkBytes) - off"
    using eq(2) b lt unfolding cs_def [symmetric] fin_def [symmetric] we_def [symmetric] by (auto simp: ws_def)
  show len': "length chunk = max (length (arrayValueBytes v))
           (min (off + length payload) (c * ArrayChunkBytes + ArrayChunkBytes) - c * ArrayChunkBytes)"
    using ch bound fit lens unfolding cs_def [symmetric] fin_def [symmetric] we_def [symmetric] raw_def [symmetric]
    by simp
  fix p
  assume p: "p < length chunk"
  then have p': "p < max (length raw) (we - cs)" "p < length padded"
    using ch bound lens fit by simp_all
  have in_src: "src ! (p - (ws - cs)) = payload ! (cs + p - off)" if "ws - cs \<le> p" "p < ws - cs + length src"
    using that lens b lt by (auto simp: src_def ws_def max_def add.commute)
  have range: "off \<le> cs + p \<and> cs + p < fin \<longleftrightarrow> ws - cs \<le> p \<and> p < ws - cs + length src"
    using p' b lt lens by (auto simp: ws_def we_def min_def max_def split: if_splits)
  show "chunk ! p = (if off \<le> c * ArrayChunkBytes + p \<and> c * ArrayChunkBytes + p < off + length payload
            then payload ! (c * ArrayChunkBytes + p - off)
            else if p < length (arrayValueBytes v) then arrayValueBytes v ! p else zero_byte)"
    unfolding cs_def [symmetric] fin_def [symmetric] raw_def [symmetric] range
    using p' fit in_src by (auto simp: ch nth_copy_at padded_def nth_append)
qed

text \<open>What the chunk stored for an existing element \<open>v\<close> at chunk \<open>c\<close> holds after a range write.\<close>

definition written :: "nat \<Rightarrow> string \<Rightarrow> nat \<Rightarrow> string option \<Rightarrow> string \<Rightarrow> bool" where
  "written off payload c v chunk \<longleftrightarrow>
     length chunk = max (length (arrayValueBytes v))
       (min (off + length payload) (c * ArrayChunkBytes + ArrayChunkBytes) - c * ArrayChunkBytes) \<and>
     (\<forall>p<length chunk. chunk ! p =
        (if off \<le> c * ArrayChunkBytes + p \<and> c * ArrayChunkBytes + p < off + length payload
         then payload ! (c * ArrayChunkBytes + p - off)
         else if p < length (arrayValueBytes v) then arrayValueBytes v ! p else zero_byte))"

lemma write_elems_written:
  assumes "payload \<noteq> []"
  shows "\<forall>v\<in>set vs. length (arrayValueBytes v) \<le> ArrayChunkBytes \<Longrightarrow>
    off div ArrayChunkBytes \<le> s \<Longrightarrow>
    vs \<noteq> [] \<longrightarrow> (s + length vs - 1) * ArrayChunkBytes < off + length payload \<Longrightarrow>
    vs \<noteq> [] \<longrightarrow> po = max off (s * ArrayChunkBytes) - off \<Longrightarrow>
    list_all2 (\<lambda>(c, v). written off payload c v) (zip [s..<s + length vs] vs)
      (write_elems off (off + length payload) payload (zip [s..<s + length vs] vs) po)"
proof (induction vs arbitrary: s po)
  case (Cons v vs)
  obtain chunk po' where w: "write_elem off (off + length payload) payload (s, v) po = (chunk, po')"
    by fastforce
  have unf: "zip [s..<s + length (v # vs)] (v # vs) = (s, v) # zip [Suc s..<Suc s + length vs] vs"
    by (simp add: upt_rec del: upt_Suc)
  have pre: "length (arrayValueBytes v) \<le> ArrayChunkBytes" "off < s * ArrayChunkBytes + ArrayChunkBytes"
    "s * ArrayChunkBytes < off + length payload" "po = max off (s * ArrayChunkBytes) - off"
    using Cons.prems chunk_lower [of off s] le_less_trans [OF mult_le_mono1 [OF le_add1, of s ArrayChunkBytes "length vs"]]
    by auto
  note first = write_elem_first [OF pre(1-3) assms pre(4) w]
  have "vs \<noteq> [] \<longrightarrow> Suc s * ArrayChunkBytes < off + length payload"
    using Cons.prems(3) by (auto simp: neq_Nil_conv add_mult_distrib)
  then have "list_all2 (\<lambda>(c, v). written off payload c v) (zip [Suc s..<Suc s + length vs] vs)
      (write_elems off (off + length payload) payload (zip [Suc s..<Suc s + length vs] vs) po')"
    using Cons.prems pre(2) first(1) by (intro Cons.IH) (auto simp: neq_Nil_conv)
  moreover have "written off payload s v chunk"
    using first(2,3) by (simp add: written_def)
  ultimately show ?case
    unfolding unf using w by (simp del: upt_Suc)
qed simp

lemma write_array_bytes:
  assumes ne: "payload \<noteq> []" and short: "array_short a"
    and s: "s = off div ArrayChunkBytes" and e: "e = (off + length payload - 1) div ArrayChunkBytes"
    and vs: "vs = map a [s..<Suc e]"
    and a': "a' = set_elems s (write_elems off (off + length payload) payload (zip [s..<s + length vs] vs) 0) a"
  shows "s \<le> c \<Longrightarrow> c \<le> e \<Longrightarrow> \<exists>chunk. a' c = Some chunk \<and> written off payload c (a c) chunk"
    and "\<not> (s \<le> c \<and> c \<le> e) \<Longrightarrow> a' c = a c"
proof -
  let ?ws = "write_elems off (off + length payload) payload (zip [s..<s + length vs] vs) 0"
  have se: "s \<le> e"
    unfolding s e using ne by (intro div_le_mono) (cases payload; simp)
  have "e * ArrayChunkBytes < off + length payload"
    by (rule chunk_upper) (use ne e in auto)
  moreover have "s * ArrayChunkBytes \<le> off"
    unfolding s by (rule chunk_bounds)
  ultimately have all: "list_all2 (\<lambda>(c, v). written off payload c v) (zip [s..<s + length vs] vs) ?ws"
    using se short s by (intro write_elems_written [OF ne])
      (auto simp: vs arrayValueBytes_def array_short_def max_def split: option.split)
  then have len: "length ?ws = Suc e - s"
    by (auto dest!: list_all2_lengthD simp: vs)
  show "\<exists>chunk. a' c = Some chunk \<and> written off payload c (a c) chunk" if "s \<le> c" "c \<le> e"
    using list_all2_nthD [OF all, of "c - s"] that len by (simp add: a' set_elems_apply vs del: upt_Suc)
  show "a' c = a c" if "\<not> (s \<le> c \<and> c \<le> e)"
    using that len se by (auto simp: a' set_elems_apply)
qed

lemma byte_at_arrayValueBytes:
  "byte_at a i = (if i mod ArrayChunkBytes < length (arrayValueBytes (a (i div ArrayChunkBytes)))
     then arrayValueBytes (a (i div ArrayChunkBytes)) ! (i mod ArrayChunkBytes) else zero_byte)"
  by (simp add: byte_at_def arrayValueBytes_def split: option.split)

lemma byte_at_write:
  assumes ne: "payload \<noteq> []"
    and s: "s = off div ArrayChunkBytes" and e: "e = (off + length payload - 1) div ArrayChunkBytes"
    and inside: "\<And>c. s \<le> c \<Longrightarrow> c \<le> e \<Longrightarrow> \<exists>chunk. a' c = Some chunk \<and> written off payload c (a c) chunk"
    and outside: "\<And>c. \<not> (s \<le> c \<and> c \<le> e) \<Longrightarrow> a' c = a c"
  shows "byte_at a' i = (if off \<le> i \<and> i < off + length payload then payload ! (i - off) else byte_at a i)"
proof (cases "s \<le> i div ArrayChunkBytes \<and> i div ArrayChunkBytes \<le> e")
  case True
  let ?c = "i div ArrayChunkBytes" and ?p = "i mod ArrayChunkBytes"
  obtain chunk where ch: "a' ?c = Some chunk" "written off payload ?c (a ?c) chunk"
    using inside True by blast
  have i: "?c * ArrayChunkBytes + ?p = i" "?p < ArrayChunkBytes"
    by simp_all
  have len: "length chunk = max (length (arrayValueBytes (a ?c)))
      (min (off + length payload) (?c * ArrayChunkBytes + ArrayChunkBytes) - ?c * ArrayChunkBytes)"
    using ch(2) by (simp add: written_def)
  show ?thesis
  proof (cases "?p < length chunk")
    case True
    then have "chunk ! ?p = (if off \<le> i \<and> i < off + length payload then payload ! (i - off)
        else if ?p < length (arrayValueBytes (a ?c)) then arrayValueBytes (a ?c) ! ?p else zero_byte)"
      using ch(2) i unfolding written_def by metis
    then show ?thesis
      using True by (simp add: byte_at_def [of a'] ch byte_at_arrayValueBytes [of a])
  next
    case False
    then have "\<not> ?p < length (arrayValueBytes (a ?c))" "off + length payload \<le> i"
      using len i by linarith+
    then show ?thesis
      using False by (simp add: byte_at_def [of a'] ch byte_at_arrayValueBytes [of a])
  qed
next
  case False
  then have "\<not> (off \<le> i \<and> i < off + length payload)"
    using s e div_le_mono [of off i ArrayChunkBytes]
      div_le_mono [of i "off + length payload - 1" ArrayChunkBytes] by fastforce
  moreover have "a' (i div ArrayChunkBytes) = a (i div ArrayChunkBytes)"
    using outside False by blast
  ultimately show ?thesis
    by (auto simp: byte_at_def)
qed

lemma array_wf_write:
  assumes wf: "array_wf a n" and ne: "payload \<noteq> []" and e: "e = (off + length payload - 1) div ArrayChunkBytes"
    and inside: "\<And>c. s \<le> c \<Longrightarrow> c \<le> e \<Longrightarrow> \<exists>chunk. a' c = Some chunk \<and> written off payload c (a c) chunk"
    and outside: "\<And>c. \<not> (s \<le> c \<and> c \<le> e) \<Longrightarrow> a' c = a c"
  shows "array_wf a' (max n (off + length payload))"
  unfolding array_wf_def
proof (intro allI impI)
  fix c chunk
  assume c: "a' c = Some chunk"
  show "chunk \<noteq> [] \<and> length chunk \<le> ArrayChunkBytes \<and>
      c * ArrayChunkBytes + length chunk \<le> max n (off + length payload)"
  proof (cases "s \<le> c \<and> c \<le> e")
    case True
    then have "written off payload c (a c) chunk"
      using inside [of c] c by auto
    then have len: "length chunk = max (length (arrayValueBytes (a c)))
       (min (off + length payload) (c * ArrayChunkBytes + ArrayChunkBytes) - c * ArrayChunkBytes)"
      by (simp add: written_def)
    have "length (arrayValueBytes (a c)) \<le> ArrayChunkBytes"
      "length (arrayValueBytes (a c)) = 0 \<or> c * ArrayChunkBytes + length (arrayValueBytes (a c)) \<le> n"
      using wf by (auto simp: array_wf_def arrayValueBytes_def split: option.split)
    moreover have "c * ArrayChunkBytes < off + length payload"
      by (rule chunk_upper) (use ne e True in auto)
    ultimately have "0 < length chunk \<and> length chunk \<le> ArrayChunkBytes \<and>
      c * ArrayChunkBytes + length chunk \<le> max n (off + length payload)"
      using len chunk_pos by linarith
    then show ?thesis
      by simp
  next
    case False
    then have "a c = Some chunk"
      using outside [of c] c by simp
    then have "chunk \<noteq> [] \<and> length chunk \<le> ArrayChunkBytes \<and> c * ArrayChunkBytes + length chunk \<le> n"
      using wf unfolding array_wf_def by blast
    then show ?thesis
      by auto
  qed
qed

lemma byte_at_beyond:
  assumes "array_wf a n" "n \<le> i"
  shows "byte_at a i = zero_byte"
proof (cases "a (i div ArrayChunkBytes)")
  case (Some raw)
  then have "i div ArrayChunkBytes * ArrayChunkBytes + length raw \<le> n"
    using assms(1) by (auto simp: array_wf_def)
  then have "\<not> i mod ArrayChunkBytes < length raw"
    using assms(2) div_mult_mod_eq [of i ArrayChunkBytes] by linarith
  then show ?thesis
    by (simp add: byte_at_def Some)
qed (simp add: byte_at_def)

lemma nth_overlay:
  "i < max (length bytes) (off + length payload) \<Longrightarrow> overlay off payload bytes ! i =
     (if off \<le> i \<and> i < off + length payload then payload ! (i - off)
      else if i < length bytes then bytes ! i else zero_byte)"
  by (auto simp: overlay_def nth_append min_def)

lemma length_overlay: "length (overlay off payload bytes) = max (length bytes) (off + length payload)"
  by (auto simp: overlay_def)

lemma exec_ok:
  assumes "content_redis_laws R" "cmds_effect cmds (c_value R db) = Some s"
  shows "\<exists>db'. c_exec R db cmds = Inr db' \<and> c_value R db' = s"
  using assms by (simp add: content_redis_laws_def)

lemma writeArrayRange_bytes:
  assumes laws: "content_redis_laws R" and val: "c_value R db key = KArray a" and wf: "array_wf a n"
    and ne: "payload \<noteq> []"
  shows "\<exists>db' a'. writeArrayRange R db key off payload ttl = Inr db' \<and>
    c_value R db' = (c_value R db)(key := KArray a') \<and> array_wf a' (max n (off + length payload)) \<and>
    array_bytes a' (max n (off + length payload)) = overlay off payload (array_bytes a n)"
proof -
  define s where "s = off div ArrayChunkBytes"
  define e where "e = (off + length payload - 1) div ArrayChunkBytes"
  define vs where "vs = map a [s..<Suc e]"
  define ws where "ws = write_elems off (off + length payload) payload (zip [s..<s + length vs] vs) 0"
  define a' where "a' = set_elems s ws a"
  note eff = write_array_bytes [OF ne array_wf_short [OF wf] s_def e_def vs_def a'_def [unfolded ws_def]]
  have "cmds_effect (ArSet key s ws # (if ttl = 0 then [] else [ExpireKey key ttl])) (c_value R db) =
      Some ((c_value R db)(key := KArray a'))"
    by (simp add: val a'_def)
  then obtain db' where ex: "c_exec R db (ArSet key s ws # (if ttl = 0 then [] else [ExpireKey key ttl])) = Inr db'"
      "c_value R db' = (c_value R db)(key := KArray a')"
    using exec_ok [OF laws] by blast
  have "writeArrayRange R db key off payload ttl = Inr db'"
    unfolding writeArrayRange_def Let_def s_def [symmetric] e_def [symmetric] arrayGetRange_array [OF laws val]
      sum.case vs_def [symmetric] ws_def [symmetric] by (rule ex(1))
  moreover have wf': "array_wf a' (max n (off + length payload))"
    by (rule array_wf_write [OF wf ne e_def eff])
  moreover have "array_bytes a' (max n (off + length payload)) = overlay off payload (array_bytes a n)"
    using byte_at_write [OF ne s_def e_def eff] byte_at_beyond [OF wf]
    by (auto simp: list_eq_iff_nth_eq length_overlay nth_overlay)
  ultimately show ?thesis
    using ex(2) by blast
qed

section \<open>Truncation and full writes\<close>

lemma array_wf_grow: "array_wf a n \<Longrightarrow> n \<le> m \<Longrightarrow> array_wf a m"
  by (force simp: array_wf_def)

lemma array_wf_empty [simp]: "array_wf (\<lambda>_. None) n"
  by (simp add: array_wf_def)

lemma array_bytes_grow: "array_wf a n \<Longrightarrow> n \<le> m \<Longrightarrow> array_bytes a m = resize m (array_bytes a n)"
  by (auto simp: list_eq_iff_nth_eq resize_def nth_append byte_at_beyond)

text \<open>The array after a cut at \<open>n\<close>, where \<open>k\<close> is the number of chunks kept.\<close>

definition cut_array :: "nat \<Rightarrow> (nat \<Rightarrow> string option) \<Rightarrow> nat \<Rightarrow> string option" where
  "cut_array n a c =
     (if n \<le> c * ArrayChunkBytes then None
      else map_option (take (n - c * ArrayChunkBytes)) (a c))"

lemma byte_at_cut:
  assumes "i < n"
  shows "byte_at (cut_array n a) i = byte_at a i"
proof -
  have "i div ArrayChunkBytes * ArrayChunkBytes + i mod ArrayChunkBytes = i"
    by simp
  then have "i mod ArrayChunkBytes < n - i div ArrayChunkBytes * ArrayChunkBytes"
    using assms by linarith
  then show ?thesis
    by (auto simp: byte_at_def cut_array_def split: option.split)
qed

lemma array_wf_cut: "array_wf a m \<Longrightarrow> array_wf (cut_array n a) n"
  by (fastforce simp: array_wf_def cut_array_def)

lemma cut_array_bytes: "n \<le> m \<Longrightarrow> array_bytes (cut_array n a) n = resize n (array_bytes a m)"
  by (simp add: list_eq_iff_nth_eq resize_def byte_at_cut)

lemma array_wf_none:
  assumes "array_wf a m" "m \<le> c * ArrayChunkBytes"
  shows "a c = None"
proof (cases "a c")
  case (Some raw)
  then have "0 < length raw" "c * ArrayChunkBytes + length raw \<le> m"
    using assms(1) by (auto simp: array_wf_def)
  then show ?thesis
    using assms(2) by linarith
qed

lemma cut_array_drop:
  assumes "array_wf a m" "0 < n"
  shows "cut_array n a = (\<lambda>c. if chunkCountForSize (int n) \<le> c \<and> c \<le> chunkCountForSize (int m) - 1 then None
     else if c = chunkCountForSize (int n) - 1
     then map_option (take (n - (chunkCountForSize (int n) - 1) * ArrayChunkBytes)) (a c) else a c)"
proof
  fix c
  let ?k = "chunkCountForSize (int n)"
  have iff: "n \<le> c * ArrayChunkBytes \<longleftrightarrow> ?k \<le> c"
    using chunkCount_less [of c n] by auto
  consider "?k \<le> c" "c \<le> chunkCountForSize (int m) - 1" | "?k \<le> c" "\<not> c \<le> chunkCountForSize (int m) - 1"
    | "c < ?k - 1" | "c = ?k - 1" "0 < ?k"
    using chunkCount_nat [OF assms(2)] by fastforce
  then show "cut_array n a c = (if ?k \<le> c \<and> c \<le> chunkCountForSize (int m) - 1 then None
     else if c = ?k - 1 then map_option (take (n - (?k - 1) * ArrayChunkBytes)) (a c) else a c)"
  proof cases
    case 2
    then have "m \<le> c * ArrayChunkBytes"
      using chunkCount_less [of c m] by auto
    then have "a c = None"
      by (rule array_wf_none [OF assms(1)])
    then show ?thesis
      using 2 by (auto simp: cut_array_def)
  next
    case 3
    then have "Suc c < ?k"
      by linarith
    then have "(Suc c) * ArrayChunkBytes < n"
      using chunkCount_less [of "Suc c" n] by simp
    then have "map_option (take (n - c * ArrayChunkBytes)) (a c) = a c"
      using assms(1) by (cases "a c") (auto simp: array_wf_def dest!: spec [of _ c])
    then show ?thesis
      using 3 iff by (auto simp: cut_array_def)
  qed (use iff in \<open>auto simp: cut_array_def\<close>)
qed

lemma last_chunk_size:
  assumes "0 < n"
  shows "n - (chunkCountForSize (int n) - 1) * ArrayChunkBytes =
    (if n mod ArrayChunkBytes = 0 then ArrayChunkBytes else n mod ArrayChunkBytes)"
proof -
  obtain n' where n: "n = Suc n'"
    using assms by (cases n) auto
  have "Suc n' - n' div ArrayChunkBytes * ArrayChunkBytes = Suc (n' mod ArrayChunkBytes)"
    using chunk_bounds(1) [of n'] by (simp add: Suc_diff_le minus_div_mult_eq_mod)
  then show ?thesis
    unfolding chunkCount_nat [OF assms] using n by (simp add: mod_Suc)
qed

lemma truncate_shrink:
  assumes laws: "content_redis_laws R" and val: "c_value R db key = KArray a" and wf: "array_wf a m"
    and n: "0 < n" "n < m"
  shows "\<exists>db'. truncateArray R db key (int m) (int n) ttl = Inr db' \<and>
    c_value R db' = (c_value R db)(key := KArray (cut_array n a))"
proof -
  let ?o = "chunkCountForSize (int m)" and ?l = "n mod ArrayChunkBytes"
  obtain k where k: "chunkCountForSize (int n) = Suc k" "Suc k \<le> ?o"
    using n div_le_mono [of "n - 1" "m - 1" ArrayChunkBytes] by (simp add: chunkCount_nat)
  define del where "del = (if Suc k < ?o then [ArDelRange key (Suc k) (?o - 1)] else [])"
  define keep where "keep = (case a k of Some raw \<Rightarrow> [ArSet key k [take (min ?l (length raw)) raw]] | None \<Rightarrow> [])"
  define cmds where "cmds = (if ?l = 0 then del else keep @ del @ (if ttl = 0 then [] else [ExpireKey key ttl]))"
  have full: "map_option (take ArrayChunkBytes) (a c) = a c" for c
    using wf by (cases "a c") (auto simp: array_wf_def dest!: spec [of _ c])
  let ?cut = "\<lambda>c. if c = k then map_option (take (if ?l = 0 then ArrayChunkBytes else ?l)) (a c) else a c"
  have cut: "cut_array n a = (\<lambda>c. if Suc k \<le> c \<and> c \<le> ?o - 1 then None else ?cut c)"
    using cut_array_drop [OF wf n(1)] last_chunk_size [OF n(1)] k(1) by auto
  have keep: "cmds_effect (keep @ rest) (c_value R db) =
      cmds_effect rest ((c_value R db)(key := KArray (\<lambda>c. if c = k then map_option (take ?l) (a c) else a c)))" for rest
  proof (cases "a k")
    case None
    then have "(\<lambda>c. if c = k then map_option (take ?l) (a c) else a c) = a"
      by auto
    then show ?thesis
      using None val by (simp add: keep_def fun_upd_idem)
  next
    case (Some raw)
    then have "a(k \<mapsto> take (min ?l (length raw)) raw) = (\<lambda>c. if c = k then map_option (take ?l) (a c) else a c)"
      by (auto simp: fun_eq_iff min_def)
    then show ?thesis
      using Some val by (simp add: keep_def)
  qed
  have del: "cmds_effect (del @ rest) (s(key := KArray b)) =
      cmds_effect rest (s(key := KArray (\<lambda>c. if Suc k \<le> c \<and> c \<le> ?o - 1 then None else b c)))" for rest s b
  proof (cases "Suc k < ?o")
    case False
    then have "(\<lambda>c. if Suc k \<le> c \<and> c \<le> ?o - 1 then None else b c) = b"
      by (auto simp: fun_eq_iff)
    then show ?thesis
      using False by (simp add: del_def)
  qed (simp add: del_def)
  have "cmds_effect cmds (c_value R db) = Some ((c_value R db)(key := KArray (cut_array n a)))"
  proof (cases "?l = 0")
    case True
    then have "cut_array n a = (\<lambda>c. if Suc k \<le> c \<and> c \<le> ?o - 1 then None else a c)"
      unfolding cut using full by (simp add: fun_eq_iff)
    then show ?thesis
      using del [of "[]" "c_value R db" a] True val unfolding cmds_def by (simp add: fun_upd_idem)
  next
    case False
    then show ?thesis
      unfolding cut cmds_def by (simp add: keep del)
  qed
  then obtain db' where ex: "c_exec R db cmds = Inr db'" "c_value R db' = (c_value R db)(key := KArray (cut_array n a))"
    using exec_ok [OF laws] by blast
  have nz: "(if del = [] then Inr db else c_exec R db del) = Inr db'" if "?l = 0"
  proof -
    have "n - k * ArrayChunkBytes = ArrayChunkBytes"
      using last_chunk_size [OF n(1)] that k(1) by simp
    then have "n = ArrayChunkBytes + k * ArrayChunkBytes"
      using chunk_pos by linarith
    then have "Suc k < ?o"
      using n(2) by (simp add: chunkCount_less)
    then show ?thesis
      using ex(1) that by (simp add: cmds_def del_def)
  qed
  have get: "arrayGetRange R db key k k = Inr [a k]"
    using arrayGetRange_array [OF laws val, of k k] by simp
  have "truncateArray R db key (int m) (int n) ttl =
      (if ?l = 0 then (if del = [] then Inr db else c_exec R db del) else c_exec R db cmds)"
    using n get unfolding cmds_def
    by (cases "a k") (simp_all add: truncateArray_def Let_def k(1) keep_def del_def)
  then have "truncateArray R db key (int m) (int n) ttl = Inr db'"
    using nz ex(1) by simp
  then show ?thesis
    using ex(2) by blast
qed

lemma truncateArray_bytes:
  assumes laws: "content_redis_laws R" and val: "c_value R db key = KArray a" and wf: "array_wf a m"
  shows "\<exists>db' a'. truncateArray R db key (int m) (int n) ttl = Inr db' \<and>
    c_value R db' = (c_value R db)(key := KArray a') \<and> array_wf a' n \<and>
    array_bytes a' n = resize n (array_bytes a m)"
proof -
  consider "m \<le> n" | "n = 0" "n < m" | "0 < n" "n < m"
    by linarith
  then show ?thesis
  proof cases
    case 1
    show ?thesis
    proof (cases "n = 0")
      case False
      then have "truncateArray R db key (int m) (int n) ttl = Inr db"
        using 1 by (auto simp: truncateArray_def)
      moreover have "c_value R db = (c_value R db)(key := KArray a)"
        using val by auto
      ultimately show ?thesis
        using array_wf_grow [OF wf 1] array_bytes_grow [OF wf 1] by blast
    qed (use 1 wf val in \<open>auto simp: truncateArray_def resize_def array_bytes_def intro!: exI [of _ db] exI [of _ a]\<close>)
  next
    case 2
    have "cmds_effect [DelKey key] (c_value R db) = Some ((c_value R db)(key := KArray (\<lambda>_. None)))"
      by simp
    then show ?thesis
      using exec_ok [OF laws, of "[DelKey key]" db] 2
      by (auto simp: truncateArray_def resize_def array_bytes_def intro!: exI [of _ "\<lambda>_. None"])
  next
    case 3
    show ?thesis
      using truncate_shrink [OF laws val wf 3] array_wf_cut [OF wf] cut_array_bytes 3(2)
      by (metis less_imp_le)
  qed
qed

lemma set_elems_append: "set_elems s (xs @ ys) a = set_elems (s + length xs) ys (set_elems s xs a)"
  by (induction xs arbitrary: s a) simp_all

lemma queue_batches_effect:
  "start \<le> length chunks \<Longrightarrow> cmds_effect (queue_batches key chunks start) (s(key := KArray a)) =
     Some (s(key := KArray (set_elems start (drop start chunks) a)))"
proof (induction "length chunks - start" arbitrary: start a rule: less_induct)
  case less
  show ?case
  proof (cases "length chunks \<le> start")
    case False
    let ?n = "arrayCommandBatchChunks"
    let ?a = "set_elems start (take ?n (drop start chunks)) a"
    have pos: "0 < ?n"
      by (simp add: arrayCommandBatchChunks_def)
    have "cmds_effect (queue_batches key chunks start) (s(key := KArray a)) =
        cmds_effect (queue_batches key chunks (start + ?n)) (s(key := KArray ?a))"
      using False by (simp add: queue_batches.simps [of key chunks start])
    also have "\<dots> = Some (s(key := KArray (set_elems start (drop start chunks) a)))"
    proof (cases "start + ?n \<le> length chunks")
      case True
      then show ?thesis
        using less.hyps [of "start + ?n" ?a] False pos
          set_elems_append [of start "take ?n (drop start chunks)" "drop (start + ?n) chunks" a]
        by (simp add: append_take_drop_id [of ?n "drop start chunks", simplified] add.commute)
    qed (simp add: queue_batches.simps [of key chunks "start + ?n"])
    finally show ?thesis .
  qed (use less.prems in \<open>simp add: queue_batches.simps [of key chunks start]\<close>)
qed

lemma splitArrayChunks_nth:
  "length (splitArrayChunks data) = chunkCountForSize (int (length data)) \<and>
   (\<forall>c. c * ArrayChunkBytes < length data \<longrightarrow>
      splitArrayChunks data ! c = take ArrayChunkBytes (drop (c * ArrayChunkBytes) data))"
proof (induction data rule: splitArrayChunks.induct)
  case (1 data)
  show ?case
  proof (cases "data = []")
    case False
    let ?d = "drop ArrayChunkBytes data"
    have unf: "splitArrayChunks data = take ArrayChunkBytes data # splitArrayChunks ?d"
      using False splitArrayChunks.simps [of data] by simp
    have "chunkCountForSize (int (length data)) = Suc (chunkCountForSize (int (length ?d)))"
    proof -
      have "c < chunkCountForSize (int (length data)) \<longleftrightarrow> c < Suc (chunkCountForSize (int (length ?d)))" for c
        using False by (cases c) (auto simp: chunkCount_less)
      then show ?thesis
        by (metis less_irrefl linorder_neqE_nat)
    qed
    moreover have "splitArrayChunks data ! c = take ArrayChunkBytes (drop (c * ArrayChunkBytes) data)"
      if "c * ArrayChunkBytes < length data" for c
      using 1 [OF False] that by (cases c) (auto simp: unf add.commute)
    ultimately show ?thesis
      using 1 [OF False] unf by simp
  qed (simp add: splitArrayChunks.simps chunkCountForSize_def)
qed

text \<open>The array of a full write.\<close>

definition chunk_array :: "string \<Rightarrow> nat \<Rightarrow> string option" where
  "chunk_array data c =
     (if c * ArrayChunkBytes < length data
      then Some (take ArrayChunkBytes (drop (c * ArrayChunkBytes) data)) else None)"

lemma queueArrayWriteFull_effect:
  "cmds_effect (queueArrayWriteFull key data) s = Some (s(key := KArray (chunk_array data)))"
proof -
  have "set_elems 0 (splitArrayChunks data) (\<lambda>_. None) = chunk_array data"
    using splitArrayChunks_nth [of data] by (auto simp: fun_eq_iff set_elems_apply chunk_array_def chunkCount_less)
  moreover have "chunk_array [] = (\<lambda>_. None)"
    by (simp add: chunk_array_def fun_eq_iff)
  ultimately show ?thesis
    using queue_batches_effect [of 0 "splitArrayChunks data" key s "\<lambda>_. None"]
    by (simp add: queueArrayWriteFull_def)
qed

lemma chunk_array_wf: "array_wf (chunk_array data) (length data)"
  by (auto simp: array_wf_def chunk_array_def)

lemma chunk_array_bytes: "array_bytes (chunk_array data) (length data) = data"
proof (rule nth_equalityI)
  fix i
  assume "i < length (array_bytes (chunk_array data) (length data))"
  then have i: "i < length data"
    by simp
  moreover have "i div ArrayChunkBytes * ArrayChunkBytes + i mod ArrayChunkBytes = i"
    by simp
  ultimately have "i div ArrayChunkBytes * ArrayChunkBytes < length data"
    "i mod ArrayChunkBytes < length data - i div ArrayChunkBytes * ArrayChunkBytes"
    by linarith+
  then show "array_bytes (chunk_array data) (length data) ! i = data ! i"
    using i by (simp add: byte_at_def chunk_array_def)
qed simp

section \<open>Sequences of operations\<close>

text \<open>
  The callers keep the size of the file in its metadata: a range write grows it to the end of the
  payload, a truncation and a full write set it. \<open>content_op\<close> is one such call.
\<close>

datatype content_op = OpWrite nat string | OpTruncate nat | OpFull string

fun apply_op ::
  "('db, 'x) content_redis_scheme \<Rightarrow> string \<Rightarrow> content_op \<Rightarrow> 'db \<times> nat \<Rightarrow> content_error + 'db \<times> nat" where
  "apply_op R key (OpWrite off payload) (db, n) =
     rbind (WriteRange R db key (int off) payload)
       (\<lambda>db'. Inr (db', if payload = [] then n else max n (off + length payload)))"
| "apply_op R key (OpTruncate m) (db, n) =
     rbind (Truncate R db key (int n) (int m)) (\<lambda>db'. Inr (db', m))"
| "apply_op R key (OpFull data) (db, n) =
     rbind (c_exec R db (QueueWriteFull key RefArray data)) (\<lambda>db'. Inr (db', length data))"

text \<open>The same calls on a plain list of bytes.\<close>

fun spec_op :: "content_op \<Rightarrow> string \<Rightarrow> string" where
  "spec_op (OpWrite off payload) bytes = (if payload = [] then bytes else overlay off payload bytes)"
| "spec_op (OpTruncate m) bytes = resize m bytes"
| "spec_op (OpFull data) bytes = data"

text \<open>The key holds a well-formed array for the file's size and bytes.\<close>

definition holds :: "('db, 'x) content_redis_scheme \<Rightarrow> string \<Rightarrow> 'db \<times> nat \<Rightarrow> string \<Rightarrow> bool" where
  "holds R key st bytes \<longleftrightarrow>
     (\<exists>a. c_value R (fst st) key = KArray a \<and> array_wf a (snd st) \<and> array_bytes a (snd st) = bytes)"

lemma ref_simps [simp]: "TrimSpace RefArray = RefArray" "RefArray \<noteq> []" "RefArray \<noteq> RefExternal"
  by (code_simp, simp_all add: RefArray_def RefExternal_def)

lemma holdsI:
  "c_value R db key = KArray a \<Longrightarrow> array_wf a n \<Longrightarrow> array_bytes a n = bytes \<Longrightarrow> holds R key (db, n) bytes"
  by (auto simp: holds_def)

lemma apply_op_refines:
  assumes laws: "content_redis_laws R" and arrays: "c_arrays R" and st: "holds R key (db, n) bytes"
  shows "\<exists>db' n'. apply_op R key op (db, n) = Inr (db', n') \<and> holds R key (db', n') (spec_op op bytes) \<and>
    (\<forall>k. k \<noteq> key \<longrightarrow> c_value R db' k = c_value R db k)"
proof -
  obtain a where a: "c_value R db key = KArray a" "array_wf a n" "bytes = array_bytes a n"
    using st by (auto simp: holds_def)
  show ?thesis
  proof (cases op)
    case (OpWrite off payload)
    then show ?thesis
      using writeArrayRange_bytes [OF laws a(1,2), of payload off 0] arrays st a(3)
      by (cases "payload = []") (auto simp: WriteRange_def WriteRangeWithTTL_def intro!: holdsI)
  next
    case (OpTruncate m)
    then show ?thesis
      using truncateArray_bytes [OF laws a(1,2), of m 0] arrays a(3)
      by (auto simp: Truncate_def TruncateWithTTL_def intro!: holdsI)
  next
    case (OpFull data)
    then show ?thesis
      using exec_ok [OF laws queueArrayWriteFull_effect, of db key data]
      by (auto simp: QueueWriteFull_def chunk_array_wf chunk_array_bytes intro!: holdsI)
  qed
qed

text \<open>
  The array content of a key, with every other key left alone, is a simulation of the byte list.
\<close>

definition array_file ::
  "('db, 'x) content_redis_scheme \<Rightarrow> string \<Rightarrow> (string \<Rightarrow> content_value) \<Rightarrow> 'db \<times> nat \<Rightarrow> string \<Rightarrow> bool" where
  "array_file R key others st bytes \<longleftrightarrow>
     content_redis_laws R \<and> c_arrays R \<and> holds R key st bytes \<and>
     (\<forall>k. k \<noteq> key \<longrightarrow> c_value R (fst st) k = others k)"

interpretation array_content: simulation "array_file R key others" "apply_op R key" spec_op "\<lambda>_. True" for R key others
proof unfold_locales
  fix s bytes op
  assume "array_file R key others s bytes"
  then show "\<exists>s'. apply_op R key op s = Inr s' \<and> array_file R key others s' (spec_op op bytes)"
    using apply_op_refines [of R key "fst s" "snd s" bytes op] by (fastforce simp: array_file_def)
qed

lemma Load_array:
  assumes "content_redis_laws R" "c_arrays R" "holds R key (db, n) bytes"
  shows "Load R db key RefArray (int n) = Inr bytes"
  using assms loadArray_bytes [OF assms(1) _ array_wf_short] by (auto simp: Load_def holds_def)

lemma ReadRange_array:
  assumes "content_redis_laws R" "c_arrays R" "holds R key (db, n) bytes"
  shows "ReadRange R db key RefArray (int n) (int off) (int cnt) = Inr (take cnt (drop off bytes))"
proof -
  obtain a where a: "c_value R db key = KArray a" "array_wf a n" "bytes = array_bytes a n"
    using assms(3) by (auto simp: holds_def)
  let ?hi = "min n (off + cnt)"
  have "readArrayRange R db key off ?hi = Inr (take (?hi - off) (drop off bytes))"
    using readArrayRange_bytes [OF assms(1) a(1) array_wf_short [OF a(2)]] array_range_bytes [of ?hi n a off] a(3)
    by simp
  also have "take (?hi - off) (drop off bytes) = take cnt (drop off bytes)"
    using a(3) by (auto simp: min_def)
  finally have rd: "readArrayRange R db key off ?hi = Inr (take cnt (drop off bytes))" .
  have hi: "nat (if int n < int off + int cnt then int n else int off + int cnt) = ?hi"
    by auto
  show ?thesis
    using assms(2) a(3) rd unfolding ReadRange_def Let_def nat_int hi by auto
qed

lemma holds_length: "holds R key (db, n) bytes \<Longrightarrow> length bytes = n"
  by (auto simp: holds_def)

section \<open>An in-memory server\<close>

definition mem_content :: "(string \<Rightarrow> content_value) content_redis" where
  "mem_content =
     \<lparr>c_value = (\<lambda>db. db),
      c_get = (\<lambda>db key. case db key of
         KString s \<Rightarrow> Inr (Some s)
       | KArray a \<Rightarrow> if a = (\<lambda>_. None) then Inr None else Inl ServerError),
      c_getrange = (\<lambda>db key lo hi. case db key of
         KString s \<Rightarrow> Inr (take (Suc hi - lo) (drop lo s))
       | KArray a \<Rightarrow> if a = (\<lambda>_. None) then Inr [] else Inl ServerError),
      c_argetrange = (\<lambda>db key lo hi. case db key of
         KString s \<Rightarrow> Inl ServerError
       | KArray a \<Rightarrow> Inr (map a [lo..<Suc hi])),
      c_exec = (\<lambda>db cmds. case cmds_effect cmds db of None \<Rightarrow> Inl ServerError | Some s \<Rightarrow> Inr s),
      c_arrays = True\<rparr>"

lemma mem_content_laws: "content_redis_laws mem_content" "c_arrays mem_content"
  by (simp_all add: content_redis_laws_def mem_content_def)

definition no_values :: "string \<Rightarrow> content_value" where
  "no_values = (\<lambda>_. KArray (\<lambda>_. None))"

lemma holds_fresh: "c_value R db key = KArray (\<lambda>_. None) \<Longrightarrow> holds R key (db, 0) []"
  by (rule holdsI [OF _ array_wf_empty]) (simp_all add: array_bytes_def)

lemma mem_content_fresh: "array_file mem_content key no_values (no_values, 0) []"
  using mem_content_laws holds_fresh [of mem_content no_values key]
  by (simp add: array_file_def mem_content_def no_values_def)

section \<open>Properties\<close>





end
