(* ===== verification/Manifest.thy ===== *)
theory Manifest
  imports AFS_Prelude
begin

text \<open>
  Workspace manifests (\<open>src/internal/controlplane/store.go\<close>, \<open>checkpoint_commit.go\<close>): the entry
  of a path, the equivalence that decides whether a checkpoint changed anything, the blobs a
  manifest refers to and its totals. Entry sizes are unbounded integers (the code's int64).
\<close>

section \<open>Entries\<close>

record ManifestEntry =
  e_type :: string
  e_mode :: nat
  e_mtime :: int
  e_size :: int
  e_blob :: string
  e_inline :: string
  e_target :: string

type_synonym entries = "ManifestEntry gomap"

abbreviation root_path :: string where "root_path \<equiv> ''/''"

definition manifestEntryEquivalent :: "ManifestEntry \<Rightarrow> ManifestEntry \<Rightarrow> bool" where
  "manifestEntryEquivalent a b \<longleftrightarrow>
     (if e_type a \<noteq> e_type b \<or> e_mode a \<noteq> e_mode b \<or> e_size a \<noteq> e_size b \<or> e_blob a \<noteq> e_blob b \<or>
         e_inline a \<noteq> e_inline b \<or> e_target a \<noteq> e_target b then False
      else if e_type a = ''symlink'' \<or> e_type a = ''dir'' then True
      else e_mtime a = e_mtime b)"

definition manifestEquivalent :: "entries \<Rightarrow> entries \<Rightarrow> bool" where
  "manifestEquivalent a b \<longleftrightarrow>
     length a = length b \<and>
     list_all (\<lambda>(p, left). case map_of b p of None \<Rightarrow> False | Some right \<Rightarrow> manifestEntryEquivalent left right) a"

definition manifestBlobRefs :: "entries \<Rightarrow> int gomap" where
  "manifestBlobRefs m =
     fold (\<lambda>(p, e) refs. if e_blob e = [] then refs else mset_key (e_blob e) (e_size e) refs) m []"

record manifestStatTotals =
  FileCount :: nat
  DirCount :: nat
  TotalBytes :: int

definition manifestStats :: "entries \<Rightarrow> manifestStatTotals" where
  "manifestStats m =
     fold (\<lambda>(p, e) st.
        if p = root_path then st
        else if e_type e = ''file'' then st\<lparr>FileCount := FileCount st + 1, TotalBytes := TotalBytes st + e_size e\<rparr>
        else if e_type e = ''dir'' then st\<lparr>DirCount := DirCount st + 1\<rparr>
        else st) m \<lparr>FileCount = 0, DirCount = 0, TotalBytes = 0\<rparr>"

lemma manifestEntryEquivalent_equivp: "equivp manifestEntryEquivalent"
proof (rule equivpI)
  show "reflp manifestEntryEquivalent"
    by (auto simp: reflp_def manifestEntryEquivalent_def)
  show "symp manifestEntryEquivalent"
    by (auto simp: symp_def manifestEntryEquivalent_def split: if_splits)
  show "transp manifestEntryEquivalent"
    by (rule transpI) (auto simp: manifestEntryEquivalent_def split: if_splits)
qed

end
