(* ===== verification/Manifest_Diff.thy ===== *)
theory Manifest_Diff
  imports Manifest
begin

text \<open>
  The workspace diff (\<open>src/internal/controlplane/server_diff.go\<close>): classification of every path of
  two manifests into creations, deletions, updates, metadata changes and renames, and the summary of
  the result. The lemmas show that replaying the reported entries
  on the base gives the head, that every path is reported at most once, that the result does not
  depend on the iteration order of the maps, and that the summary's byte totals balance.
\<close>

section \<open>Entries of a diff\<close>

datatype diff_op = DiffOpCreate | DiffOpUpdate | DiffOpDelete | DiffOpRename | DiffOpMetadata

record DiffEntry =
  d_op :: diff_op
  d_path :: string
  d_prev_path :: string
  d_kind :: string
  d_prev_kind :: string
  d_size :: int
  d_prev_size :: int
  d_delta :: int
  d_hash :: string
  d_prev_hash :: string
  d_mode :: nat
  d_prev_mode :: nat

record DiffSummary =
  Total :: nat
  Created :: nat
  Updated :: nat
  Deleted :: nat
  Renamed :: nat
  MetadataChanged :: nat
  BytesAdded :: int
  BytesRemoved :: int

definition entryHash :: "ManifestEntry \<Rightarrow> string" where
  "entryHash e =
     (if e_blob e \<noteq> [] then e_blob e
      else if e_target e \<noteq> [] then ''symlink:'' @ e_target e
      else if e_inline e \<noteq> [] then ''inline:'' @ e_inline e
      else [])"

definition entryContentEquivalent :: "ManifestEntry \<Rightarrow> ManifestEntry \<Rightarrow> bool" where
  "entryContentEquivalent a b \<longleftrightarrow>
     e_type a = e_type b \<and> e_size a = e_size b \<and> e_blob a = e_blob b \<and> e_inline a = e_inline b \<and>
     e_target a = e_target b"

definition renameDiffKey :: "ManifestEntry \<Rightarrow> string" where
  "renameDiffKey e =
     (if e_type e \<noteq> ''file'' \<and> e_type e \<noteq> ''symlink'' then []
      else if entryHash e = [] then []
      else e_type e @ [CHR 0x00] @ entryHash e @ [CHR 0x00] @ FormatInt (e_size e))"

definition createdDiffEntry :: "string \<Rightarrow> ManifestEntry \<Rightarrow> DiffEntry" where
  "createdDiffEntry p next =
     \<lparr>d_op = DiffOpCreate, d_path = p, d_prev_path = [], d_kind = e_type next, d_prev_kind = [],
      d_size = e_size next, d_prev_size = 0, d_delta = e_size next, d_hash = entryHash next,
      d_prev_hash = [], d_mode = e_mode next, d_prev_mode = 0\<rparr>"

definition deletedDiffEntry :: "string \<Rightarrow> ManifestEntry \<Rightarrow> DiffEntry" where
  "deletedDiffEntry p prev =
     \<lparr>d_op = DiffOpDelete, d_path = p, d_prev_path = [], d_kind = [], d_prev_kind = e_type prev,
      d_size = 0, d_prev_size = e_size prev, d_delta = - e_size prev, d_hash = [],
      d_prev_hash = entryHash prev, d_mode = 0, d_prev_mode = e_mode prev\<rparr>"

definition updatedDiffEntry :: "string \<Rightarrow> ManifestEntry \<Rightarrow> ManifestEntry \<Rightarrow> DiffEntry" where
  "updatedDiffEntry p prev next =
     \<lparr>d_op = (if entryContentEquivalent prev next then DiffOpMetadata else DiffOpUpdate), d_path = p,
      d_prev_path = [], d_kind = e_type next, d_prev_kind = e_type prev, d_size = e_size next,
      d_prev_size = e_size prev, d_delta = e_size next - e_size prev, d_hash = entryHash next,
      d_prev_hash = entryHash prev, d_mode = e_mode next, d_prev_mode = e_mode prev\<rparr>"

definition renamedDiffEntry :: "string \<Rightarrow> ManifestEntry \<Rightarrow> string \<Rightarrow> ManifestEntry \<Rightarrow> DiffEntry" where
  "renamedDiffEntry old prev new next =
     \<lparr>d_op = DiffOpRename, d_path = new, d_prev_path = old, d_kind = e_type next,
      d_prev_kind = e_type prev, d_size = e_size next, d_prev_size = e_size prev, d_delta = 0,
      d_hash = entryHash next, d_prev_hash = entryHash prev, d_mode = e_mode next,
      d_prev_mode = e_mode prev\<rparr>"

section \<open>The diff\<close>

text \<open>The paths of a map grouped by rename key.\<close>

definition key_paths :: "string list gomap \<Rightarrow> string \<Rightarrow> string list" where
  "key_paths g key = (case map_of g key of None \<Rightarrow> [] | Some ps \<Rightarrow> ps)"

definition group_path :: "string \<times> ManifestEntry \<Rightarrow> string list gomap \<Rightarrow> string list gomap" where
  "group_path pe acc =
     (let key = renameDiffKey (snd pe)
      in if key = [] then acc else mset_key key (key_paths acc key @ [fst pe]) acc)"

definition group_paths :: "entries \<Rightarrow> string list gomap" where
  "group_paths m = fold group_path m []"

definition detectRenames :: "entries \<Rightarrow> entries \<Rightarrow> DiffEntry list" where
  "detectRenames deleted created =
     (let deletedByKey = group_paths deleted;
          createdByKey = group_paths created;
          keys = sort (filter (\<lambda>key. key_paths createdByKey key \<noteq> []) (map fst deletedByKey))
      in concat (map (\<lambda>key.
           map (\<lambda>(old, new). renamedDiffEntry old (the (map_of deleted old)) new (the (map_of created new)))
             (zip (sort (key_paths deletedByKey key)) (sort (key_paths createdByKey key)))) keys))"

text \<open>
  \<open>diffManifests\<close> visits the paths of both manifests but the root. \<open>diff_path\<close> is the classification
  of one path that no rename accounts for.
\<close>

definition diff_path :: "entries \<Rightarrow> entries \<Rightarrow> string \<Rightarrow> DiffEntry list" where
  "diff_path base head p =
     (case (map_of base p, map_of head p) of
        (Some prev, None) \<Rightarrow> [deletedDiffEntry p prev]
      | (None, Some next) \<Rightarrow> [createdDiffEntry p next]
      | (Some prev, Some next) \<Rightarrow>
          if manifestEntryEquivalent prev next then [] else [updatedDiffEntry p prev next]
      | (None, None) \<Rightarrow> [])"

definition only_in :: "entries \<Rightarrow> entries \<Rightarrow> entries" where
  "only_in a b = filter (\<lambda>(p, e). p \<noteq> root_path \<and> map_of b p = None) a"

definition diff_paths :: "entries \<Rightarrow> entries \<Rightarrow> string list" where
  "diff_paths base head = filter (\<lambda>p. p \<noteq> root_path) (remdups (map fst base @ map fst head))"

definition diffManifests :: "entries \<Rightarrow> entries \<Rightarrow> DiffEntry list" where
  "diffManifests base head =
     (let renames = detectRenames (only_in base head) (only_in head base);
          renamedPaths = concat (map (\<lambda>d. [d_prev_path d, d_path d]) renames);
          rest = concat (map (diff_path base head)
                   (filter (\<lambda>p. p \<notin> set renamedPaths) (diff_paths base head)))
      in sort_key (\<lambda>d. (d_path d, d_prev_path d)) (renames @ rest))"

definition summarize_entry :: "DiffEntry \<Rightarrow> DiffSummary \<Rightarrow> DiffSummary" where
  "summarize_entry d s =
     (let s = (case d_op d of
                 DiffOpCreate \<Rightarrow> s\<lparr>Created := Created s + 1\<rparr>
               | DiffOpUpdate \<Rightarrow> s\<lparr>Updated := Updated s + 1\<rparr>
               | DiffOpDelete \<Rightarrow> s\<lparr>Deleted := Deleted s + 1\<rparr>
               | DiffOpRename \<Rightarrow> s\<lparr>Renamed := Renamed s + 1\<rparr>
               | DiffOpMetadata \<Rightarrow> s\<lparr>MetadataChanged := MetadataChanged s + 1\<rparr>)
      in if d_delta d > 0 then s\<lparr>BytesAdded := BytesAdded s + d_delta d\<rparr>
         else if d_delta d < 0 then s\<lparr>BytesRemoved := BytesRemoved s - d_delta d\<rparr>
         else s)"

definition summarizeDiffEntries :: "DiffEntry list \<Rightarrow> DiffSummary" where
  "summarizeDiffEntries ds =
     fold summarize_entry ds
       \<lparr>Total = length ds, Created = 0, Updated = 0, Deleted = 0, Renamed = 0, MetadataChanged = 0,
        BytesAdded = 0, BytesRemoved = 0\<rparr>"

section \<open>Renames\<close>

lemma append_nul_inject:
  assumes "a @ CHR 0x00 # s = b @ CHR 0x00 # t" "CHR 0x00 \<notin> set s" "CHR 0x00 \<notin> set t"
  shows "a = b \<and> s = t"
proof -
  have tail: "takeWhile (\<lambda>c. c \<noteq> CHR 0x00) (rev (x @ CHR 0x00 # y)) = rev y" if "CHR 0x00 \<notin> set y" for x y
    using that by (auto simp: takeWhile_tail intro!: takeWhile_append2 [THEN trans])
  have "rev s = rev t"
    using tail [OF assms(2), of a] tail [OF assms(3), of b] assms(1) by simp
  then show ?thesis
    using assms(1) by simp
qed

lemma renameDiffKey_eq:
  assumes "renameDiffKey a = renameDiffKey b" "renameDiffKey a \<noteq> []"
  shows "e_type a = e_type b" "entryHash a = entryHash b" "e_size a = e_size b"
proof -
  have a: "e_type a = ''file'' \<or> e_type a = ''symlink''"
      "renameDiffKey a = e_type a @ CHR 0x00 # (entryHash a @ CHR 0x00 # FormatInt (e_size a))"
    using assms(2) by (auto simp: renameDiffKey_def split: if_splits)
  have b: "e_type b = ''file'' \<or> e_type b = ''symlink''"
      "renameDiffKey b = e_type b @ CHR 0x00 # (entryHash b @ CHR 0x00 # FormatInt (e_size b))"
    using assms by (auto simp: renameDiffKey_def split: if_splits)
  show t: "e_type a = e_type b"
    using a b assms(1) by auto
  then have "entryHash a = entryHash b \<and> FormatInt (e_size a) = FormatInt (e_size b)"
    using a(2) b(2) assms(1) by (intro append_nul_inject) (auto simp: FormatInt_no_nul)
  then show "entryHash a = entryHash b" "e_size a = e_size b"
    by simp_all
qed

definition paths_of_key :: "entries \<Rightarrow> string \<Rightarrow> string list" where
  "paths_of_key m key = (if key = [] then [] else map fst (filter (\<lambda>(p, e). renameDiffKey e = key) m))"

lemma paths_of_key_Cons: "paths_of_key (x # m) key = paths_of_key [x] key @ paths_of_key m key"
  by (auto simp: paths_of_key_def)

lemma group_path_step:
  "gomap_wf acc \<Longrightarrow> gomap_wf (group_path x acc)"
  "key_paths (group_path x acc) key = key_paths acc key @ paths_of_key [x] key"
  "set (map fst (group_path x acc)) = set (map fst acc) \<union> {k. paths_of_key [x] k \<noteq> []}"
  by (cases x; auto simp: group_path_def Let_def paths_of_key_def key_paths_def dom_update)+

lemma group_paths_fold:
  "gomap_wf acc \<Longrightarrow> gomap_wf (fold group_path m acc)"
  "key_paths (fold group_path m acc) key = key_paths acc key @ paths_of_key m key"
  "set (map fst (fold group_path m acc)) = set (map fst acc) \<union> {k. paths_of_key m k \<noteq> []}"
proof (induction m arbitrary: acc)
  case (Cons x m)
  { case 1
    then show ?case
      using Cons.IH(1) group_path_step(1) by simp
  next
    case 2
    then show ?case
      using Cons.IH(2) group_path_step(2) by (simp add: paths_of_key_Cons [of x m])
  next
    case 3
    then show ?case
      unfolding fold_simps comp_apply Cons.IH(3) group_path_step(3) paths_of_key_Cons [of x m] by auto }
qed (simp_all add: paths_of_key_def)

lemma group_paths_simps:
  "gomap_wf (group_paths m)"
  "key_paths (group_paths m) key = paths_of_key m key"
  "set (map fst (group_paths m)) = {k. paths_of_key m k \<noteq> []}"
  using group_paths_fold [where acc = "[]" and m = m] by (auto simp: group_paths_def key_paths_def)

lemma set_paths_of_key:
  "gomap_wf m \<Longrightarrow> p \<in> set (paths_of_key m key) \<longleftrightarrow>
     key \<noteq> [] \<and> (\<exists>e. map_of m p = Some e \<and> renameDiffKey e = key)"
  by (force simp: paths_of_key_def image_iff)

lemma paths_of_key_inj:
  assumes "gomap_wf m" "p \<in> set (paths_of_key m k)" "p \<in> set (paths_of_key m k')"
  shows "k = k'"
  using assms(2,3) set_paths_of_key [OF assms(1)] by force

lemma distinct_paths_of_key: "gomap_wf m \<Longrightarrow> distinct (paths_of_key m key)"
  by (auto simp: paths_of_key_def)

definition rename_keys :: "entries \<Rightarrow> entries \<Rightarrow> string list" where
  "rename_keys deleted created =
     sort (filter (\<lambda>key. paths_of_key created key \<noteq> []) (map fst (group_paths deleted)))"

definition rename_pairs :: "entries \<Rightarrow> entries \<Rightarrow> (string \<times> string) list" where
  "rename_pairs deleted created =
     concat (map (\<lambda>key. zip (sort (paths_of_key deleted key)) (sort (paths_of_key created key)))
       (rename_keys deleted created))"

lemma detectRenames_pairs:
  "detectRenames deleted created =
     map (\<lambda>(old, new). renamedDiffEntry old (the (map_of deleted old)) new (the (map_of created new)))
       (rename_pairs deleted created)"
  by (simp add: detectRenames_def rename_pairs_def rename_keys_def Let_def group_paths_simps map_concat comp_def)

lemma distinct_rename_keys: "distinct (rename_keys deleted created)"
  using group_paths_simps(1) [of deleted] by (simp add: rename_keys_def)

lemma rename_pairs_sound:
  assumes "gomap_wf deleted" "gomap_wf created" "(old, new) \<in> set (rename_pairs deleted created)"
  shows "\<exists>prev next. map_of deleted old = Some prev \<and> map_of created new = Some next \<and>
    renameDiffKey prev = renameDiffKey next \<and> renameDiffKey prev \<noteq> []"
proof -
  obtain key where "(old, new) \<in> set (zip (sort (paths_of_key deleted key)) (sort (paths_of_key created key)))"
    using assms(3) by (auto simp: rename_pairs_def)
  then have "old \<in> set (paths_of_key deleted key)" "new \<in> set (paths_of_key created key)"
    by (auto dest: set_zip_leftD set_zip_rightD)
  then show ?thesis
    using set_paths_of_key [OF assms(1)] set_paths_of_key [OF assms(2)] by fastforce
qed

lemma distinct_concat_keys:
  assumes "distinct keys" "\<And>k. distinct (f k)"
    and "\<And>k k' p. p \<in> set (f k) \<Longrightarrow> p \<in> set (f k') \<Longrightarrow> k = k'"
  shows "distinct (concat (map f keys))"
  using assms(1) by (induction keys) (use assms(2,3) in auto)

lemma distinct_rename_pairs:
  assumes "gomap_wf deleted" "gomap_wf created"
  shows "distinct (map fst (rename_pairs deleted created))" "distinct (map snd (rename_pairs deleted created))"
proof -
  let ?z = "\<lambda>key. zip (sort (paths_of_key deleted key)) (sort (paths_of_key created key))"
  have f: "set (map fst (?z k)) \<subseteq> set (paths_of_key deleted k)"
    and s: "set (map snd (?z k)) \<subseteq> set (paths_of_key created k)" for k
    by (auto dest: set_zip_leftD set_zip_rightD)
  have "distinct (concat (map (\<lambda>k. map fst (?z k)) (rename_keys deleted created)))"
  proof (rule distinct_concat_keys [OF distinct_rename_keys])
    show "distinct (map fst (?z k))" for k
      by (simp add: map_fst_zip_take distinct_paths_of_key [OF assms(1)])
    show "k = k'" if "p \<in> set (map fst (?z k))" "p \<in> set (map fst (?z k'))" for k k' p
      using paths_of_key_inj [OF assms(1)] f that by blast
  qed
  then show "distinct (map fst (rename_pairs deleted created))"
    by (simp add: rename_pairs_def map_concat comp_def)
  have "distinct (concat (map (\<lambda>k. map snd (?z k)) (rename_keys deleted created)))"
  proof (rule distinct_concat_keys [OF distinct_rename_keys])
    show "distinct (map snd (?z k))" for k
      by (simp add: map_snd_zip_take distinct_paths_of_key [OF assms(2)])
    show "k = k'" if "p \<in> set (map snd (?z k))" "p \<in> set (map snd (?z k'))" for k k' p
      using paths_of_key_inj [OF assms(2)] s that by blast
  qed
  then show "distinct (map snd (rename_pairs deleted created))"
    by (simp add: rename_pairs_def map_concat comp_def)
qed

section \<open>The paths a diff reports\<close>

lemma only_in_map_of:
  "gomap_wf a \<Longrightarrow> map_of (only_in a b) p = (if p \<noteq> root_path \<and> map_of b p = None then map_of a p else None)"
  using map_of_filter_distinct [of a "\<lambda>p e. p \<noteq> root_path \<and> map_of b p = None" p]
  by (auto simp: only_in_def split: option.splits)

lemma only_in_wf: "gomap_wf a \<Longrightarrow> gomap_wf (only_in a b)"
  by (simp add: only_in_def)

abbreviation diff_pairs :: "entries \<Rightarrow> entries \<Rightarrow> (string \<times> string) list" where
  "diff_pairs base head \<equiv> rename_pairs (only_in base head) (only_in head base)"

text \<open>A rename pairs a path of the base only with a path of the head only, of the same content.\<close>

lemma diff_pairs_sound:
  assumes "gomap_wf base" "gomap_wf head" "(old, new) \<in> set (diff_pairs base head)"
  shows "\<exists>prev next. map_of base old = Some prev \<and> map_of head old = None \<and> old \<noteq> root_path \<and>
    map_of head new = Some next \<and> map_of base new = None \<and> new \<noteq> root_path \<and>
    e_type prev = e_type next \<and> entryHash prev = entryHash next \<and> e_size prev = e_size next"
proof -
  obtain prev nxt where "map_of (only_in base head) old = Some prev" "map_of (only_in head base) new = Some nxt"
      "renameDiffKey prev = renameDiffKey nxt" "renameDiffKey prev \<noteq> []"
    using rename_pairs_sound [OF only_in_wf only_in_wf assms(3)] assms(1,2) by blast
  then show ?thesis
    using assms(1,2) renameDiffKey_eq [of prev nxt] by (auto simp: only_in_map_of split: if_splits)
qed

definition renamed_entry :: "entries \<Rightarrow> entries \<Rightarrow> string \<times> string \<Rightarrow> DiffEntry" where
  "renamed_entry base head pr =
     renamedDiffEntry (fst pr) (the (map_of base (fst pr))) (snd pr) (the (map_of head (snd pr)))"

lemma detectRenames_entries:
  assumes "gomap_wf base" "gomap_wf head"
  shows "detectRenames (only_in base head) (only_in head base) = map (renamed_entry base head) (diff_pairs base head)"
  unfolding detectRenames_pairs
proof (rule map_cong [OF refl], clarify)
  fix old new
  assume "(old, new) \<in> set (diff_pairs base head)"
  then show "renamedDiffEntry old (the (map_of (only_in base head) old)) new (the (map_of (only_in head base) new)) =
      renamed_entry base head (old, new)"
    using diff_pairs_sound [OF assms] assms by (fastforce simp: renamed_entry_def only_in_map_of)
qed

definition renamed_paths :: "entries \<Rightarrow> entries \<Rightarrow> string list" where
  "renamed_paths base head = concat (map (\<lambda>(old, new). [old, new]) (diff_pairs base head))"

definition plain_paths :: "entries \<Rightarrow> entries \<Rightarrow> string list" where
  "plain_paths base head = filter (\<lambda>p. p \<notin> set (renamed_paths base head)) (diff_paths base head)"

lemma diffManifests_parts:
  assumes "gomap_wf base" "gomap_wf head"
  shows "diffManifests base head =
    sort_key (\<lambda>d. (d_path d, d_prev_path d))
      (map (renamed_entry base head) (diff_pairs base head) @ concat (map (diff_path base head) (plain_paths base head)))"
proof -
  have "concat (map (\<lambda>d. [d_prev_path d, d_path d]) (map (renamed_entry base head) (diff_pairs base head))) =
      renamed_paths base head"
    by (simp add: renamed_paths_def renamed_entry_def renamedDiffEntry_def comp_def case_prod_unfold)
  then show ?thesis
    unfolding diffManifests_def Let_def detectRenames_entries [OF assms] plain_paths_def by presburger
qed

lemma set_diffManifests:
  assumes "gomap_wf base" "gomap_wf head"
  shows "set (diffManifests base head) =
    renamed_entry base head ` set (diff_pairs base head) \<union> (\<Union>p\<in>set (plain_paths base head). set (diff_path base head p))"
  by (simp add: diffManifests_parts [OF assms])

lemma set_diff_paths: "set (diff_paths base head) = (dom (map_of base) \<union> dom (map_of head)) - {root_path}"
  by (auto simp: diff_paths_def dom_map_of_conv_image_fst)

lemma distinct_renamed_paths:
  assumes "gomap_wf base" "gomap_wf head"
  shows "distinct (renamed_paths base head)"
proof -
  have elems: "set (concat (map (\<lambda>(a, b). [a, b]) ps)) = fst ` set ps \<union> snd ` set ps" for ps :: "(string \<times> string) list"
    by (induction ps) auto
  have split: "distinct (concat (map (\<lambda>(a, b). [a, b]) ps)) \<longleftrightarrow>
      distinct (map fst ps) \<and> distinct (map snd ps) \<and> fst ` set ps \<inter> snd ` set ps = {}" for ps :: "(string \<times> string) list"
  proof (induction ps)
    case (Cons x ps)
    obtain a b where x: "x = (a, b)"
      by fastforce
    have "distinct (concat (map (\<lambda>(a, b). [a, b]) (x # ps))) \<longleftrightarrow>
        a \<noteq> b \<and> a \<notin> fst ` set ps \<union> snd ` set ps \<and> b \<notin> fst ` set ps \<union> snd ` set ps \<and>
        distinct (concat (map (\<lambda>(a, b). [a, b]) ps))"
      unfolding elems [symmetric] by (auto simp: x)
    then show ?case
      unfolding Cons.IH by (auto simp: x)
  qed simp
  have "map_of base (fst x) \<noteq> None \<and> map_of base (snd x) = None" if "x \<in> set (diff_pairs base head)" for x
    using diff_pairs_sound [OF assms, of "fst x" "snd x"] that by auto
  then have "fst ` set (diff_pairs base head) \<inter> snd ` set (diff_pairs base head) = {}"
    by (metis (no_types, lifting) disjoint_iff imageE)
  then show ?thesis
    using distinct_rename_pairs [OF only_in_wf only_in_wf, OF assms] by (simp add: renamed_paths_def split)
qed

lemma set_renamed_paths: "set (renamed_paths base head) = fst ` set (diff_pairs base head) \<union> snd ` set (diff_pairs base head)"
  by (force simp: renamed_paths_def)

lemma diff_path_entry: "d \<in> set (diff_path base head p) \<Longrightarrow> d_path d = p \<and> d_prev_path d = [] \<and> d_op d \<noteq> DiffOpRename"
  by (auto simp: diff_path_def createdDiffEntry_def deletedDiffEntry_def updatedDiffEntry_def
      split: option.splits if_splits)

lemma length_diff_path: "length (diff_path base head p) \<le> 1"
  by (auto simp: diff_path_def split: option.splits)

definition touched :: "DiffEntry \<Rightarrow> string list" where
  "touched d = (if d_op d = DiffOpRename then [d_prev_path d, d_path d] else [d_path d])"

lemma touched_simps:
  "touched (renamed_entry base head pr) = [fst pr, snd pr]"
  "d \<in> set (diff_path base head p) \<Longrightarrow> touched d = [p]"
  using diff_path_entry [of d base head p] by (auto simp: touched_def renamed_entry_def renamedDiffEntry_def)

lemma concat_touched_plain:
  "concat (map touched (concat (map (diff_path base head) ps))) = filter (\<lambda>p. diff_path base head p \<noteq> []) ps"
proof (induction ps)
  case (Cons p ps)
  have "concat (map touched (diff_path base head p)) = (if diff_path base head p = [] then [] else [p])"
    using length_diff_path [of base head p] touched_simps(2) [of _ base head p]
    by (cases "diff_path base head p") auto
  then show ?case
    using Cons by simp
qed simp

lemma touched_once:
  assumes "gomap_wf base" "gomap_wf head"
  shows "distinct (concat (map touched (diffManifests base head)))"
proof -
  let ?ds = "map (renamed_entry base head) (diff_pairs base head) @ concat (map (diff_path base head) (plain_paths base head))"
  have "concat (map touched ?ds) =
      renamed_paths base head @ filter (\<lambda>p. diff_path base head p \<noteq> []) (plain_paths base head)"
    by (simp add: concat_touched_plain renamed_paths_def touched_simps(1) comp_def case_prod_unfold)
  moreover have "distinct \<dots>"
    using distinct_renamed_paths [OF assms] by (auto simp: plain_paths_def diff_paths_def)
  ultimately have "distinct (concat (map touched ?ds))"
    by simp
  moreover have "mset (concat (map touched (sort_key f ?ds))) = mset (concat (map touched ?ds))" for f :: "DiffEntry \<Rightarrow> string \<times> string"
    by (rule mset_concat_map_perm) simp
  ultimately show ?thesis
    unfolding diffManifests_parts [OF assms] by (metis mset_eq_imp_distinct_iff)
qed

section \<open>Replaying a diff\<close>

text \<open>What a diff entry shows of a file: its type, size, content hash and mode.\<close>

type_synonym entry_view = "string \<times> int \<times> string \<times> nat"

definition view_of :: "ManifestEntry \<Rightarrow> entry_view" where
  "view_of e = (e_type e, e_size e, entryHash e, e_mode e)"

definition new_view :: "DiffEntry \<Rightarrow> entry_view" where
  "new_view d = (d_kind d, d_size d, d_hash d, d_mode d)"

text \<open>One reported change, carried out on a map of paths.\<close>

definition replay_entry :: "DiffEntry \<Rightarrow> (string \<rightharpoonup> entry_view) \<Rightarrow> string \<rightharpoonup> entry_view" where
  "replay_entry d m =
     (case d_op d of
        DiffOpDelete \<Rightarrow> m(d_path d := None)
      | DiffOpRename \<Rightarrow> (m(d_prev_path d := None))(d_path d \<mapsto> new_view d)
      | _ \<Rightarrow> m(d_path d \<mapsto> new_view d))"

abbreviation view_map :: "entries \<Rightarrow> string \<rightharpoonup> entry_view" where
  "view_map m \<equiv> (\<lambda>p. map_option view_of (map_of m p))"

text \<open>If every entry agrees with \<open>h\<close> on the paths it touches, replaying gives \<open>h\<close> there.\<close>

lemma replay_agree:
  assumes "\<forall>d\<in>set ds. \<forall>m. \<forall>q\<in>set (touched d). replay_entry d m q = h q"
  shows "fold replay_entry ds m p = (if p \<in> set (concat (map touched ds)) then h p else m p)"
  using assms
proof (induction ds arbitrary: m)
  case (Cons d ds)
  have frame: "q \<notin> set (touched d) \<Longrightarrow> replay_entry d m q = m q" for q
    by (auto simp: replay_entry_def touched_def split: diff_op.splits if_splits)
  show ?case
    using Cons.IH [of "replay_entry d m"] Cons.prems frame [of p] by auto
qed simp

lemma equivalent_view: "manifestEntryEquivalent a b \<Longrightarrow> view_of a = view_of b"
  by (auto simp: manifestEntryEquivalent_def view_of_def entryHash_def split: if_splits)

lemma renamed_entry_replay:
  assumes "gomap_wf base" "gomap_wf head" "pr \<in> set (diff_pairs base head)" "q \<in> set (touched (renamed_entry base head pr))"
  shows "replay_entry (renamed_entry base head pr) m q = view_map head q"
proof -
  obtain prev nxt where "map_of base (fst pr) = Some prev" "map_of head (fst pr) = None"
      "map_of head (snd pr) = Some nxt" "map_of base (snd pr) = None"
    using diff_pairs_sound [OF assms(1,2), of "fst pr" "snd pr"] assms(3) by auto
  then show ?thesis
    using assms(4)
    by (auto simp: touched_simps(1)) (auto simp: replay_entry_def renamed_entry_def renamedDiffEntry_def new_view_def view_of_def)
qed

lemma plain_entry_replay:
  assumes "d \<in> set (diff_path base head p)" "q \<in> set (touched d)"
  shows "replay_entry d m q = view_map head q"
proof -
  have "q = p"
    using assms touched_simps(2) by auto
  then show ?thesis
    using assms(1)
    by (cases "map_of base p"; cases "map_of head p")
       (auto simp: diff_path_def replay_entry_def createdDiffEntry_def deletedDiffEntry_def updatedDiffEntry_def
        new_view_def view_of_def split: if_splits)
qed

lemma untouched_view:
  assumes "gomap_wf base" "gomap_wf head" "p \<noteq> root_path"
    and "p \<notin> set (concat (map touched (diffManifests base head)))"
  shows "view_map base p = view_map head p"
proof -
  have "p \<notin> set (renamed_paths base head)"
    using assms(4) by (fastforce simp: set_diffManifests [OF assms(1,2)] set_renamed_paths touched_simps(1))
  moreover have "diff_path base head p = []" if "p \<in> set (plain_paths base head)"
  proof (rule ccontr)
    assume "diff_path base head p \<noteq> []"
    then obtain d where d: "d \<in> set (diff_path base head p)"
      by (cases "diff_path base head p") auto
    then have "d \<in> set (diffManifests base head)"
      using that by (auto simp: set_diffManifests [OF assms(1,2)])
    then show False
      using assms(4) touched_simps(2) [OF d] by auto
  qed
  ultimately consider "map_of base p = None" "map_of head p = None" | "diff_path base head p = []"
    using assms(3) set_diff_paths [of base head] by (auto simp: plain_paths_def)
  then show ?thesis
    by cases (auto simp: diff_path_def equivalent_view split: option.splits if_splits)
qed

section \<open>Order independence\<close>

lemma gomap_mset_eq:
  assumes "gomap_wf m" "gomap_wf m'" "map_of m = map_of m'"
  shows "mset m = mset m'"
proof -
  have "x \<in> set m \<longleftrightarrow> x \<in> set m'" for x
    using gomap_in_map_of [OF assms(1), of "fst x" "snd x"] gomap_in_map_of [OF assms(2), of "fst x" "snd x"] assms(3)
    by simp
  then have "set m = set m'"
    by blast
  then show ?thesis
    using assms(1,2) by (intro set_eq_iff_mset_eq_distinct [THEN iffD1]) (simp_all add: distinct_map)
qed

lemma paths_of_key_mset: "mset m = mset m' \<Longrightarrow> mset (paths_of_key m key) = mset (paths_of_key m' key)"
  by (simp add: paths_of_key_def)

lemma sort_mset_cong: "mset xs = mset ys \<Longrightarrow> sort xs = sort ys"
  by (metis sorted_list_of_multiset_mset)

lemma rename_pairs_mset:
  assumes "mset deleted = mset deleted'" "mset created = mset created'" "gomap_wf deleted" "gomap_wf deleted'"
  shows "rename_pairs deleted created = rename_pairs deleted' created'"
proof -
  have paths: "sort (paths_of_key deleted k) = sort (paths_of_key deleted' k)"
      "sort (paths_of_key created k) = sort (paths_of_key created' k)"
      "paths_of_key deleted k = [] \<longleftrightarrow> paths_of_key deleted' k = []"
      "paths_of_key created k = [] \<longleftrightarrow> paths_of_key created' k = []" for k
    using paths_of_key_mset [OF assms(1)] paths_of_key_mset [OF assms(2)]
    by (auto intro: sort_mset_cong) (metis mset_zero_iff)+
  have "rename_keys deleted created = rename_keys deleted' created'"
    using distinct_rename_keys [of deleted created] distinct_rename_keys [of deleted' created'] paths(3,4)
      group_paths_simps(3) [of deleted] group_paths_simps(3) [of deleted']
    by (intro sorted_distinct_set_unique) (auto simp: rename_keys_def simp del: set_map)
  then show ?thesis
    by (simp add: rename_pairs_def paths(1,2))
qed

lemma diff_keys_inj:
  assumes "gomap_wf base" "gomap_wf head"
  shows "inj_on (\<lambda>d. (d_path d, d_prev_path d)) (set (diffManifests base head))" "distinct (diffManifests base head)"
proof -
  have last: "d_path d = last (touched d)" "touched d \<noteq> []" for d
    by (simp_all add: touched_def)
  have key: "distinct (concat (map touched ds)) \<Longrightarrow> distinct (map d_path ds)" for ds
    by (induction ds) (auto simp: last intro: last_in_set, metis IntI UN_I empty_iff last last_in_set)
  have "distinct (map d_path (diffManifests base head))"
    by (rule key [OF touched_once [OF assms]])
  then show "inj_on (\<lambda>d. (d_path d, d_prev_path d)) (set (diffManifests base head))" "distinct (diffManifests base head)"
    by (auto simp: distinct_map inj_on_def)
qed

lemma diffManifests_map_order:
  assumes "gomap_wf base" "gomap_wf base'" "map_of base = map_of base'"
    and "gomap_wf head" "gomap_wf head'" "map_of head = map_of head'"
  shows "diffManifests base head = diffManifests base' head'"
proof -
  have b: "mset base = mset base'" and h: "mset head = mset head'"
    using assms by (auto intro: gomap_mset_eq)
  have only: "mset (only_in base head) = mset (only_in base' head')" "mset (only_in head base) = mset (only_in head' base')"
    using b h assms(3,6) by (simp_all add: only_in_def)
  have pairs: "diff_pairs base head = diff_pairs base' head'"
    by (rule rename_pairs_mset [OF only]) (use assms in \<open>auto intro: only_in_wf\<close>)
  have plain: "mset (plain_paths base head) = mset (plain_paths base' head')"
    using pairs set_diff_paths assms(3,6)
    by (intro set_eq_iff_mset_eq_distinct [THEN iffD1])
       (auto simp: plain_paths_def renamed_paths_def diff_paths_def dom_map_of_conv_image_fst [symmetric])
  have path: "diff_path base head = diff_path base' head'" and rn: "renamed_entry base head = renamed_entry base' head'"
    using assms(3,6) by (auto simp: fun_eq_iff diff_path_def renamed_entry_def)
  have "mset (map (renamed_entry base head) (diff_pairs base head) @ concat (map (diff_path base head) (plain_paths base head))) =
      mset (map (renamed_entry base' head') (diff_pairs base' head') @ concat (map (diff_path base' head') (plain_paths base' head')))"
    using mset_concat_map_perm [OF plain, of "diff_path base' head'"] by (simp add: pairs path rn)
  then show ?thesis
    using diff_keys_inj [OF assms(1,4)] unfolding diffManifests_parts [OF assms(1,4)] diffManifests_parts [OF assms(2,5)]
    by (intro sort_key_unique) simp_all
qed

section \<open>The summary\<close>

definition size_at :: "entries \<Rightarrow> string \<Rightarrow> int" where
  "size_at m p = (case map_of m p of None \<Rightarrow> 0 | Some e \<Rightarrow> e_size e)"

text \<open>The bytes of all entries but the root.\<close>

definition total_size :: "entries \<Rightarrow> int" where
  "total_size m = sum_list (map (\<lambda>(p, e). e_size e) (filter (\<lambda>(p, e). p \<noteq> root_path) m))"

lemma summary_fold:
  "BytesAdded (fold summarize_entry ds s) - BytesRemoved (fold summarize_entry ds s) =
     BytesAdded s - BytesRemoved s + sum_list (map d_delta ds)"
  "Created (fold summarize_entry ds s) + Updated (fold summarize_entry ds s) + Deleted (fold summarize_entry ds s) +
     Renamed (fold summarize_entry ds s) + MetadataChanged (fold summarize_entry ds s) =
     Created s + Updated s + Deleted s + Renamed s + MetadataChanged s + length ds"
  "Total (fold summarize_entry ds s) = Total s"
  "0 \<le> BytesAdded s \<Longrightarrow> 0 \<le> BytesAdded (fold summarize_entry ds s)"
  "0 \<le> BytesRemoved s \<Longrightarrow> 0 \<le> BytesRemoved (fold summarize_entry ds s)"
proof (induction ds arbitrary: s)
  case (Cons d ds)
  have step: "BytesAdded (summarize_entry d s) - BytesRemoved (summarize_entry d s) = BytesAdded s - BytesRemoved s + d_delta d"
    "Created (summarize_entry d s) + Updated (summarize_entry d s) + Deleted (summarize_entry d s) +
       Renamed (summarize_entry d s) + MetadataChanged (summarize_entry d s) =
     Created s + Updated s + Deleted s + Renamed s + MetadataChanged s + 1"
    "Total (summarize_entry d s) = Total s"
    "BytesAdded s \<le> BytesAdded (summarize_entry d s)" "BytesRemoved s \<le> BytesRemoved (summarize_entry d s)" for s
    by (auto simp: summarize_entry_def Let_def split: diff_op.splits)
  { case 1 show ?case using Cons(1) [of "summarize_entry d s"] step(1) [of s] by simp
  next case 2 show ?case using Cons(2) [of "summarize_entry d s"] step(2) [of s] by simp
  next case 3 show ?case using Cons(3) [of "summarize_entry d s"] step(3) [of s] by simp
  next case 4 then show ?case using Cons(4) [of "summarize_entry d s"] step(4) [of s] by simp
  next case 5 then show ?case using Cons(5) [of "summarize_entry d s"] step(5) [of s] by simp }
qed simp_all

lemma diff_path_delta: "sum_list (map d_delta (diff_path base head p)) = size_at head p - size_at base p"
  by (cases "map_of base p"; cases "map_of head p")
     (auto simp: diff_path_def size_at_def createdDiffEntry_def deletedDiffEntry_def updatedDiffEntry_def
       manifestEntryEquivalent_def split: if_splits)

lemma renamed_paths_delta:
  assumes "gomap_wf base" "gomap_wf head"
  shows "sum_list (map (\<lambda>p. size_at head p - size_at base p) (renamed_paths base head)) = 0"
proof -
  have zero: "(\<Sum>p\<leftarrow>[fst pr, snd pr]. size_at head p - size_at base p) = 0" if "pr \<in> set (diff_pairs base head)" for pr
    using diff_pairs_sound [OF assms, of "fst pr" "snd pr"] that by (auto simp: size_at_def)
  have "(\<Sum>p\<leftarrow>concat (map (\<lambda>(a, b). [a, b]) ps). size_at head p - size_at base p) = 0"
    if "set ps \<subseteq> set (diff_pairs base head)" for ps
    using that by (induction ps) (use zero in \<open>auto simp: case_prod_unfold\<close>)
  then show ?thesis
    by (simp add: renamed_paths_def)
qed

lemma sum_size_at:
  assumes "gomap_wf m" "finite S" "dom (map_of m) - {root_path} \<subseteq> S" "root_path \<notin> S"
  shows "(\<Sum>p\<in>S. size_at m p) = total_size m"
proof -
  let ?m = "filter (\<lambda>(p, e). p \<noteq> root_path) m"
  have wf: "gomap_wf ?m"
    using assms(1) by (rule gomap_wf_filter)
  have keys: "fst ` set ?m = dom (map_of m) - {root_path}"
    by (force simp: dom_map_of_conv_image_fst)
  have "(\<Sum>p\<in>S. size_at m p) = (\<Sum>p\<in>fst ` set ?m. size_at m p)"
    unfolding keys using assms(2-4)
    by (intro sum.mono_neutral_right) (auto simp: size_at_def domIff)
  also have "\<dots> = sum_list (map (size_at m) (map fst ?m))"
    using sum_list_distinct_conv_sum_set [OF wf, of "size_at m"] by (simp only: set_map)
  also have "\<dots> = total_size m"
    using assms(1) by (auto simp: total_size_def size_at_def comp_def intro!: arg_cong [where f = sum_list] map_cong)
  finally show ?thesis .
qed

lemma sum_list_sort_key:
  fixes g :: "'a \<Rightarrow> int"
  shows "sum_list (map g (sort_key f xs)) = sum_list (map g xs)"
  by (metis mset_map mset_sort sum_mset_sum_list)

lemma diff_delta_total:
  assumes "gomap_wf base" "gomap_wf head"
  shows "sum_list (map d_delta (diffManifests base head)) = total_size head - total_size base"
proof -
  let ?f = "\<lambda>p. size_at head p - size_at base p"
  have rn: "sum_list (map d_delta (map (renamed_entry base head) ps)) = 0" for ps
    by (induction ps) (simp_all add: renamed_entry_def renamedDiffEntry_def)
  have plain: "sum_list (map d_delta (concat (map (diff_path base head) ps))) = sum_list (map ?f ps)" for ps
    by (induction ps) (simp_all add: diff_path_delta)
  have "sum_list (map d_delta (diffManifests base head)) = sum_list (map ?f (plain_paths base head))"
    unfolding diffManifests_parts [OF assms] sum_list_sort_key by (simp only: map_append sum_list_append rn plain add_0)
  also have "\<dots> = sum_list (map ?f (plain_paths base head)) + sum_list (map ?f (renamed_paths base head))"
    by (simp add: renamed_paths_delta [OF assms])
  also have "\<dots> = sum ?f (set (plain_paths base head) \<union> set (renamed_paths base head))"
    using distinct_renamed_paths [OF assms]
    by (subst sum.union_disjoint) (auto simp: plain_paths_def diff_paths_def sum_list_distinct_conv_sum_set)
  also have "set (plain_paths base head) \<union> set (renamed_paths base head) = set (diff_paths base head)"
    using diff_pairs_sound [OF assms] by (fastforce simp: plain_paths_def set_renamed_paths set_diff_paths)
  also have "sum ?f (set (diff_paths base head)) = total_size head - total_size base"
    unfolding sum_subtractf using assms by (intro arg_cong2 [where f = "(-)"] sum_size_at) (auto simp: set_diff_paths finite_dom_map_of)
  finally show ?thesis .
qed

lemma sorted_fst: "sorted xs \<Longrightarrow> sorted (map fst xs)" for xs :: "('a::linorder \<times> 'b::linorder) list"
  by (induction xs) (auto simp: less_eq_prod_def)

section \<open>Properties\<close>

text \<open>
  C10. A workspace diff is complete and exact: replaying the reported entries on the base manifest
  (creations, updates and renames write the reported type, size, hash and mode, deletions and
  renames remove the old path) gives the head manifest on every path but the root, whatever the two
  manifests are.
\<close>

theorem diff_replays_to_head:
  assumes "gomap_wf base" "gomap_wf head" "p \<noteq> root_path"
  shows "fold replay_entry (diffManifests base head) (\<lambda>p. map_option view_of (map_of base p)) p =
    map_option view_of (map_of head p)"
proof -
  have "\<forall>d\<in>set (diffManifests base head). \<forall>m. \<forall>q\<in>set (touched d). replay_entry d m q = view_map head q"
    using renamed_entry_replay [OF assms(1,2)] plain_entry_replay unfolding set_diffManifests [OF assms(1,2)] by blast
  then show ?thesis
    using replay_agree [of "diffManifests base head" "view_map head" "view_map base" p] untouched_view [OF assms] by auto
qed

definition sample_file :: "string \<Rightarrow> ManifestEntry" where
  "sample_file blob = \<lparr>e_type = ''file'', e_mode = 420, e_mtime = 0, e_size = 2, e_blob = blob, e_inline = [], e_target = []\<rparr>"

theorem diff_replays_to_head_witness:
  "fold replay_entry (diffManifests [(''/a'', sample_file ''x''), (''/b'', sample_file ''y'')] [(''/c'', sample_file ''x'')])
     (\<lambda>p. map_option view_of (map_of [(''/a'', sample_file ''x''), (''/b'', sample_file ''y'')] p)) ''/c'' =
   Some (''file'', 2, ''x'', 420)"
  using diff_replays_to_head
    [of "[(''/a'', sample_file ''x''), (''/b'', sample_file ''y'')]" "[(''/c'', sample_file ''x'')]" "''/c''"]
  by (simp add: sample_file_def view_of_def entryHash_def)

text \<open>
  C16. The diff reports every path at most once, counting both paths of a rename, in ascending order
  of paths. A creation is of a path the base lacks, a deletion of one the head lacks, an update or
  metadata change of one whose entries differ, and a metadata change keeps the content; a rename
  joins a path of the base only with a path of the head only, with the same type, hash and size.
\<close>

theorem diff_entries_sound:
  assumes "gomap_wf base" "gomap_wf head"
  shows "distinct (concat (map touched (diffManifests base head))) \<and>
    sorted (map d_path (diffManifests base head)) \<and>
    (\<forall>d\<in>set (diffManifests base head).
       case d_op d of
         DiffOpCreate \<Rightarrow> map_of base (d_path d) = None \<and> map_of head (d_path d) \<noteq> None
       | DiffOpDelete \<Rightarrow> map_of base (d_path d) \<noteq> None \<and> map_of head (d_path d) = None
       | DiffOpRename \<Rightarrow> map_of head (d_prev_path d) = None \<and> map_of base (d_path d) = None \<and>
           (\<exists>prev next. map_of base (d_prev_path d) = Some prev \<and> map_of head (d_path d) = Some next \<and>
              e_type prev = e_type next \<and> entryHash prev = entryHash next \<and> e_size prev = e_size next)
       | _ \<Rightarrow> (\<exists>prev next. map_of base (d_path d) = Some prev \<and> map_of head (d_path d) = Some next \<and>
              \<not> manifestEntryEquivalent prev next \<and>
              (d_op d = DiffOpMetadata \<longleftrightarrow> entryContentEquivalent prev next)))"
    (is "_ \<and> _ \<and> (\<forall>d\<in>_. ?ok d)")
proof (intro conjI ballI)
  show "distinct (concat (map touched (diffManifests base head)))"
    by (rule touched_once [OF assms])
  have "sorted (map fst (map (\<lambda>d. (d_path d, d_prev_path d)) (diffManifests base head)))"
    unfolding diffManifests_parts [OF assms] by (rule sorted_fst) simp
  then show "sorted (map d_path (diffManifests base head))"
    by (simp add: comp_def)
  fix d
  assume "d \<in> set (diffManifests base head)"
  then consider pr where "pr \<in> set (diff_pairs base head)" "d = renamed_entry base head pr"
    | p where "d \<in> set (diff_path base head p)"
    unfolding set_diffManifests [OF assms] by blast
  then show "?ok d"
  proof cases
    case 1
    then show ?thesis
      using diff_pairs_sound [OF assms, of "fst pr" "snd pr"] by (auto simp: renamed_entry_def renamedDiffEntry_def)
  next
    case 2
    then show ?thesis
      by (cases "map_of base p"; cases "map_of head p")
         (auto simp: diff_path_def createdDiffEntry_def deletedDiffEntry_def updatedDiffEntry_def split: if_splits)
  qed
qed

theorem diff_entries_sound_witness:
  "distinct (concat (map touched (diffManifests [(''/a'', sample_file ''x''), (''/b'', sample_file ''y'')] [(''/c'', sample_file ''x'')])))"
  using diff_entries_sound
    [of "[(''/a'', sample_file ''x''), (''/b'', sample_file ''y'')]" "[(''/c'', sample_file ''x'')]"]
  by simp

text \<open>
  C20. The diff does not depend on the order in which Go happens to iterate over the two maps: any two
  representations of the same maps give the same list of entries.
\<close>

theorem diff_deterministic:
  assumes "gomap_wf base" "gomap_wf base'" "map_of base = map_of base'"
    and "gomap_wf head" "gomap_wf head'" "map_of head = map_of head'"
  shows "diffManifests base head = diffManifests base' head'"
  by (rule diffManifests_map_order [OF assms])

theorem diff_deterministic_witness:
  "diffManifests [(''/a'', sample_file ''x''), (''/b'', sample_file ''x'')] [(''/c'', sample_file ''x''), (''/d'', sample_file ''x'')] =
   diffManifests [(''/b'', sample_file ''x''), (''/a'', sample_file ''x'')] [(''/d'', sample_file ''x''), (''/c'', sample_file ''x'')]"
  by (rule diff_deterministic) (auto simp: fun_eq_iff)

text \<open>
  C19. The summary of a diff balances: the entry counts add up to the total, the bytes added and
  removed are not negative, and their difference is the change in the manifests' total size.
\<close>

theorem diff_summary_balances:
  assumes "gomap_wf base" "gomap_wf head"
  shows "let s = summarizeDiffEntries (diffManifests base head)
    in Total s = Created s + Updated s + Deleted s + Renamed s + MetadataChanged s \<and>
       0 \<le> BytesAdded s \<and> 0 \<le> BytesRemoved s \<and>
       BytesAdded s - BytesRemoved s = total_size head - total_size base"
  using diff_delta_total [OF assms]
    summary_fold [where ds = "diffManifests base head" and s = "\<lparr>Total = length (diffManifests base head), Created = 0, Updated = 0,
      Deleted = 0, Renamed = 0, MetadataChanged = 0, BytesAdded = 0, BytesRemoved = 0\<rparr>"]
  by (simp add: Let_def summarizeDiffEntries_def)

theorem diff_summary_balances_witness:
  "let s = summarizeDiffEntries (diffManifests [(''/a'', sample_file ''x'')] [(''/b'', sample_file ''x''), (''/c'', sample_file ''y'')])
   in BytesAdded s - BytesRemoved s = 2"
  using diff_summary_balances [of "[(''/a'', sample_file ''x'')]" "[(''/b'', sample_file ''x''), (''/c'', sample_file ''y'')]"]
  by (simp add: Let_def total_size_def sample_file_def)

end
