(* ===== verification/Text_Diff.thy ===== *)
theory Text_Diff
  imports Manifest
begin

text \<open>
  The text part of the workspace diff (\<open>src/internal/controlplane/server_diff.go\<close>): lines, the common
  prefix and suffix of two line lists, and the single hunk between them with three lines of context.
  The hunk turns the old lines into the new ones.
\<close>

section \<open>Lines and hunks\<close>

datatype line_kind = Context | Delete | Insert

record TextDiffLine =
  l_kind :: line_kind
  l_old :: nat
  l_new :: nat
  l_text :: string

record TextDiffHunk =
  OldStart :: nat
  OldLines :: nat
  NewStart :: nat
  NewLines :: nat
  Lines :: "TextDiffLine list"

definition diffTextContext :: nat where "diffTextContext = 3"

text \<open>\<open>strings.SplitAfter(text, "\n")\<close> without its last, empty element, each line without its end.\<close>

definition splitDiffLines :: "string \<Rightarrow> string list" where
  "splitDiffLines text =
     (if text = [] then []
      else
        let raw = split_on (CHR 0x0A) text;
            raw = (if last raw = [] then butlast raw else raw)
        in map (\<lambda>l. TrimSuffix l [CHR 0x0D]) raw)"

fun common_prefix :: "string list \<Rightarrow> string list \<Rightarrow> nat" where
  "common_prefix (x # xs) (y # ys) = (if x = y then Suc (common_prefix xs ys) else 0)"
| "common_prefix _ _ = 0"

definition buildTextDiffHunks :: "string list \<Rightarrow> string list \<Rightarrow> TextDiffHunk list" where
  "buildTextDiffHunks oldLines newLines =
     (if join_with (CHR 0x0A) oldLines = join_with (CHR 0x0A) newLines then []
      else
        let prefix = common_prefix oldLines newLines;
            suffix = common_prefix (rev (drop prefix oldLines)) (rev (drop prefix newLines));
            contextStart = prefix - diffTextContext;
            oldChangeEnd = length oldLines - suffix;
            newChangeEnd = length newLines - suffix;
            oldContextEnd = min (length oldLines) (oldChangeEnd + diffTextContext);
            newContextEnd = min (length newLines) (newChangeEnd + diffTextContext);
            lines =
              map (\<lambda>i. \<lparr>l_kind = Context, l_old = i + 1, l_new = i + 1, l_text = oldLines ! i\<rparr>) [contextStart..<prefix] @
              map (\<lambda>i. \<lparr>l_kind = Delete, l_old = i + 1, l_new = 0, l_text = oldLines ! i\<rparr>) [prefix..<oldChangeEnd] @
              map (\<lambda>i. \<lparr>l_kind = Insert, l_old = 0, l_new = i + 1, l_text = newLines ! i\<rparr>) [prefix..<newChangeEnd] @
              map (\<lambda>k. \<lparr>l_kind = Context, l_old = oldChangeEnd + k + 1, l_new = newChangeEnd + k + 1,
                         l_text = oldLines ! (oldChangeEnd + k)\<rparr>)
                [0..<min (oldContextEnd - oldChangeEnd) (newContextEnd - newChangeEnd)]
        in if lines = [] then []
           else [\<lparr>OldStart = contextStart + 1, OldLines = oldContextEnd - contextStart,
                  NewStart = contextStart + 1, NewLines = newContextEnd - contextStart, Lines = lines\<rparr>])"

section \<open>The hunk of a text diff\<close>

lemma common_prefix_bound: "common_prefix xs ys \<le> length xs" "common_prefix xs ys \<le> length ys"
  by (induction xs ys rule: common_prefix.induct) auto

lemma take_common_prefix: "take (common_prefix xs ys) xs = take (common_prefix xs ys) ys"
  by (induction xs ys rule: common_prefix.induct) auto

lemma drop_common_suffix:
  defines "s \<equiv> \<lambda>xs ys. common_prefix (rev xs) (rev ys)"
  shows "drop (length xs - s xs ys) xs = drop (length ys - s xs ys) ys"
proof -
  have "rev (take (s xs ys) (rev xs)) = rev (take (s xs ys) (rev ys))"
    unfolding s_def by (rule arg_cong [OF take_common_prefix])
  then show ?thesis
    by (simp add: rev_take)
qed

definition old_side :: "TextDiffHunk \<Rightarrow> string list" where
  "old_side h = map l_text (filter (\<lambda>l. l_kind l \<noteq> Insert) (Lines h))"

definition new_side :: "TextDiffHunk \<Rightarrow> string list" where
  "new_side h = map l_text (filter (\<lambda>l. l_kind l \<noteq> Delete) (Lines h))"

text \<open>The shape of the hunk: the change lies between a common prefix and a common suffix.\<close>

lemma hunk_shape:
  assumes "join_with (CHR 0x0A) old \<noteq> join_with (CHR 0x0A) new"
  obtains p s h where "buildTextDiffHunks old new = [h]"
    "take p old = take p new" "drop (length old - s) old = drop (length new - s) new"
    "p + s \<le> length old" "p + s \<le> length new"
    "OldStart h = Suc (p - 3)" "NewStart h = Suc (p - 3)"
    "OldLines h = min (length old) (length old - s + 3) - (p - 3)"
    "NewLines h = min (length new) (length new - s + 3) - (p - 3)"
    "old_side h = map (nth old) [p - 3..<p] @ map (nth old) [p..<length old - s] @
       map (\<lambda>k. old ! (length old - s + k)) [0..<min s 3]"
    "new_side h = map (nth old) [p - 3..<p] @ map (nth new) [p..<length new - s] @
       map (\<lambda>k. old ! (length old - s + k)) [0..<min s 3]"
proof -
  define p where "p = common_prefix old new"
  define s where "s = common_prefix (rev (drop p old)) (rev (drop p new))"
  have pre: "take p old = take p new"
    by (simp add: p_def take_common_prefix)
  have b: "p + s \<le> length old" "p + s \<le> length new"
    using common_prefix_bound [of old new] common_prefix_bound [of "rev (drop p old)" "rev (drop p new)"]
    by (auto simp: p_def [symmetric] s_def [symmetric])
  have suf: "drop (length old - s) old = drop (length new - s) new"
    using drop_common_suffix [of "drop p old" "drop p new"] b by (simp add: s_def [symmetric] add.commute)
  have change: "p < length old - s \<or> p < length new - s"
  proof (rule ccontr)
    assume "\<not> (p < length old - s \<or> p < length new - s)"
    then have "length old - s = p" "length new - s = p"
      using b by auto
    then have "take p old @ drop p old = take p new @ drop p new"
      using pre suf by (simp only:)
    then have "old = new"
      by (simp only: append_take_drop_id)
    then show False
      using assms by simp
  qed
  have ends: "min (min (length old) (length old - s + 3) - (length old - s))
      (min (length new) (length new - s + 3) - (length new - s)) = min s 3"
    using b by auto
  define c1 where "c1 = map (\<lambda>i. \<lparr>l_kind = Context, l_old = i + 1, l_new = i + 1, l_text = old ! i\<rparr>) [p - 3..<p]"
  define del where "del = map (\<lambda>i. \<lparr>l_kind = Delete, l_old = i + 1, l_new = 0, l_text = old ! i\<rparr>) [p..<length old - s]"
  define ins where "ins = map (\<lambda>i. \<lparr>l_kind = Insert, l_old = 0, l_new = i + 1, l_text = new ! i\<rparr>) [p..<length new - s]"
  define c2 where "c2 = map (\<lambda>k. \<lparr>l_kind = Context, l_old = length old - s + k + 1, l_new = length new - s + k + 1,
      l_text = old ! (length old - s + k)\<rparr>) [0..<min s 3]"
  define h where "h = \<lparr>OldStart = (p - 3) + 1, OldLines = min (length old) (length old - s + 3) - (p - 3),
      NewStart = (p - 3) + 1, NewLines = min (length new) (length new - s + 3) - (p - 3), Lines = c1 @ del @ ins @ c2\<rparr>"
  have "del @ ins \<noteq> []"
    using change by (auto simp: del_def ins_def)
  then have build: "buildTextDiffHunks old new = [h]"
    using assms unfolding buildTextDiffHunks_def Let_def p_def [symmetric] s_def [symmetric] diffTextContext_def ends
      c1_def [symmetric] del_def [symmetric] ins_def [symmetric] c2_def [symmetric] h_def by auto
  have "filter (\<lambda>l. l_kind l \<noteq> Insert) (c1 @ del @ ins @ c2) = c1 @ del @ c2"
    "filter (\<lambda>l. l_kind l \<noteq> Delete) (c1 @ del @ ins @ c2) = c1 @ ins @ c2"
    by (auto simp: c1_def del_def ins_def c2_def filter_empty_conv simp del: upt_Suc intro!: filter_True)
  then have "old_side h = map (nth old) [p - 3..<p] @ map (nth old) [p..<length old - s] @
       map (\<lambda>k. old ! (length old - s + k)) [0..<min s 3]"
    "new_side h = map (nth old) [p - 3..<p] @ map (nth new) [p..<length new - s] @
       map (\<lambda>k. old ! (length old - s + k)) [0..<min s 3]"
    unfolding old_side_def new_side_def h_def
    by (simp_all add: c1_def del_def ins_def c2_def comp_def del: upt_Suc)
  then show ?thesis
    using that [OF build pre suf b] by (simp add: h_def)
qed

lemma window_nth: "lo \<le> hi \<Longrightarrow> hi \<le> length xs \<Longrightarrow> map (nth xs) [lo..<hi] = take (hi - lo) (drop lo xs)"
  by (auto simp: list_eq_iff_nth_eq)

lemma hunk_window:
  assumes "p + s \<le> length xs"
  shows "map (nth xs) [p - 3..<p] @ map (nth xs) [p..<length xs - s] @ map (\<lambda>k. xs ! (length xs - s + k)) [0..<min s 3] =
    take (min (length xs) (length xs - s + 3) - (p - 3)) (drop (p - 3) xs)"
proof -
  let ?c = "length xs - s"
  have c: "min (length xs) (?c + 3) = ?c + min s 3"
    using assms by auto
  have "map (\<lambda>k. xs ! (?c + k)) [0..<min s 3] = map (nth xs) [?c..<?c + min s 3]"
    by (auto simp: list_eq_iff_nth_eq)
  then have "map (nth xs) [p - 3..<p] @ map (nth xs) [p..<?c] @ map (\<lambda>k. xs ! (?c + k)) [0..<min s 3] =
      map (nth xs) ([p - 3..<p] @ [p..<?c] @ [?c..<?c + min s 3])"
    by simp
  also have "[p - 3..<p] @ [p..<?c] @ [?c..<?c + min s 3] = [p - 3..<?c + min s 3]"
    using assms by (metis (no_types, lifting) add_le_imp_le_diff diff_le_self le_add1 le_add_diff_inverse le_trans upt_add_eq_append)
  finally show ?thesis
    unfolding c using assms by (subst window_nth [symmetric]) auto
qed

lemma nth_take_eq: "take p xs = take p ys \<Longrightarrow> i < p \<Longrightarrow> xs ! i = ys ! i"
  by (metis nth_take)

text \<open>
  C17. The text diff of two line lists is a correct patch. There is a hunk exactly when the joined
  texts differ; its deleted and context lines are the stated window of the old text, its inserted
  and context lines the stated window of the new text, and replacing the window in the old text by
  the latter gives the new text.
\<close>

theorem text_diff_patch:
  "(buildTextDiffHunks old new = [] \<longleftrightarrow> join_with (CHR 0x0A) old = join_with (CHR 0x0A) new) \<and>
   (\<forall>h\<in>set (buildTextDiffHunks old new).
      old_side h = take (OldLines h) (drop (OldStart h - 1) old) \<and>
      new_side h = take (NewLines h) (drop (NewStart h - 1) new) \<and>
      take (OldStart h - 1) old @ new_side h @ drop (OldStart h - 1 + OldLines h) old = new)"
proof (cases "join_with (CHR 0x0A) old = join_with (CHR 0x0A) new")
  case False
  then obtain p s h where build: "buildTextDiffHunks old new = [h]"
    and pre: "take p old = take p new" and suf: "drop (length old - s) old = drop (length new - s) new"
    and bo: "p + s \<le> length old" and bn: "p + s \<le> length new"
    and h: "OldStart h = Suc (p - 3)" "NewStart h = Suc (p - 3)"
      "OldLines h = min (length old) (length old - s + 3) - (p - 3)"
      "NewLines h = min (length new) (length new - s + 3) - (p - 3)"
    and os: "old_side h = map (nth old) [p - 3..<p] @ map (nth old) [p..<length old - s] @
       map (\<lambda>k. old ! (length old - s + k)) [0..<min s 3]"
    and ns: "new_side h = map (nth old) [p - 3..<p] @ map (nth new) [p..<length new - s] @
       map (\<lambda>k. old ! (length old - s + k)) [0..<min s 3]"
    by (rule hunk_shape)
  have c1: "map (nth old) [p - 3..<p] = map (nth new) [p - 3..<p]"
    using nth_take_eq [OF pre] by (auto intro!: map_cong)
  have c2: "map (\<lambda>k. old ! (length old - s + k)) [0..<min s 3] = map (\<lambda>k. new ! (length new - s + k)) [0..<min s 3]"
  proof (rule map_cong [OF refl])
    fix k
    show "old ! (length old - s + k) = new ! (length new - s + k)"
      using arg_cong [OF suf, of "\<lambda>xs. xs ! k"] by simp
  qed
  have new: "new_side h = take (NewLines h) (drop (NewStart h - 1) new)"
    unfolding ns c1 c2 using hunk_window [OF bn] h by simp
  let ?e = "min s 3"
  have oe: "p - 3 + OldLines h = length old - s + ?e" and ne: "p - 3 + NewLines h = length new - s + ?e"
    using h(3,4) bo bn by linarith+
  have "drop (length old - s + ?e) old = drop (length new - s + ?e) new"
    using arg_cong [OF suf, of "drop ?e"] by (simp add: add.commute)
  moreover have "take (p - 3) old = take (p - 3) new"
    using arg_cong [OF pre, of "take (p - 3)"] by (simp add: min_def)
  moreover have "take (p - 3) new @ take (NewLines h) (drop (p - 3) new) @ drop (p - 3 + NewLines h) new = new"
    by (metis append_take_drop_id drop_drop add.commute)
  ultimately have patched: "take (OldStart h - 1) old @ new_side h @ drop (OldStart h - 1 + OldLines h) old = new"
    using new h(1,2) oe ne by simp
  have "old_side h = take (OldLines h) (drop (OldStart h - 1) old)"
    unfolding os hunk_window [OF bo] h(1,3) by simp
  then show ?thesis
    unfolding build using False new patched by auto
qed (simp add: buildTextDiffHunks_def)

theorem text_diff_patch_witness:
  "\<exists>h. h \<in> set (buildTextDiffHunks [''a'', ''b''] [''a'', ''c'']) \<and>
     take (OldStart h - 1) [''a'', ''b''] @ new_side h @ drop (OldStart h - 1 + OldLines h) [''a'', ''b''] = [''a'', ''c'']"
proof -
  note patch = text_diff_patch [of "[''a'', ''b'']" "[''a'', ''c'']"]
  then have "buildTextDiffHunks [''a'', ''b''] [''a'', ''c''] \<noteq> []"
    by simp
  then obtain h where "h \<in> set (buildTextDiffHunks [''a'', ''b''] [''a'', ''c''])"
    by (meson list.set_sel(1))
  then show ?thesis
    using patch by blast
qed

text \<open>
  An empty text and a text of one blank line join to the same text, so the diff between them has no
  hunk although the lines differ.
\<close>

lemma text_diff_first_blank_line:
  "splitDiffLines [] \<noteq> splitDiffLines [CHR 0x0A]"
  "buildTextDiffHunks (splitDiffLines []) (splitDiffLines [CHR 0x0A]) = []"
  by code_simp+

end
