(* ===== verification/Sync_State.thy ===== *)
theory Sync_State
  imports AFS_Prelude
begin

text \<open>
  The sync daemon's persisted state (\<open>src/cmd/afs/sync_state.go\<close>): the record kept per path, the
  version counter, and the debounced writer that persists the state. The writer is a step relation:
  its goroutine, the goroutines that change the state, and the save to disk interleave freely. The
  lemmas show that no update stays unsaved: the writer alone always reaches a state in which the disk
  holds what is in memory, and a stopped writer has saved everything it was told of.
  Times are integers, and a saved state is compared without the time of the save.
\<close>

section \<open>Entries and state\<close>

record SyncEntry =
  s_type :: string
  s_mode :: nat
  s_size :: int
  s_lhash :: string
  s_lident :: string
  s_lmtime :: int
  s_rhash :: string
  s_rmtime :: int
  s_target :: string
  s_synced :: int
  s_chunk :: nat
  s_chunks :: "string list"
  s_version :: "64 word"
  s_deleted :: bool

record SyncState =
  st_version :: nat
  st_workspace :: string
  st_local :: string
  st_stream :: string
  st_entries :: "SyncEntry gomap"
  st_updated :: int
  st_next :: "64 word"

definition zero_entry :: SyncEntry where
  "zero_entry =
     \<lparr>s_type = [], s_mode = 0, s_size = 0, s_lhash = [], s_lident = [], s_lmtime = 0, s_rhash = [],
      s_rmtime = 0, s_target = [], s_synced = 0, s_chunk = 0, s_chunks = [], s_version = 0,
      s_deleted = False\<rparr>"

definition syncStateVersion :: nat where "syncStateVersion = 3"

definition newSyncState :: "string \<Rightarrow> string \<Rightarrow> SyncState" where
  "newSyncState workspace localPath =
     \<lparr>st_version = syncStateVersion, st_workspace = workspace, st_local = localPath, st_stream = [],
      st_entries = [], st_updated = 0, st_next = 0\<rparr>"

definition syncStateEntryCounts :: "SyncState option \<Rightarrow> nat \<times> nat" where
  "syncStateEntryCounts st =
     (case st of
        None \<Rightarrow> (0, 0)
      | Some s \<Rightarrow>
          fold (\<lambda>(p, e) (live, deleted). if s_deleted e then (live, deleted + 1) else (live + 1, deleted))
            (st_entries s) (0, 0))"

definition nextVersion :: "SyncState \<Rightarrow> 64 word \<times> SyncState" where
  "nextVersion s = (st_next s, s\<lparr>st_next := st_next s + 1\<rparr>)"

text \<open>\<open>entry.Version = nextVersion(); Entries[path] = entry\<close>.\<close>

definition put_entry :: "string \<Rightarrow> SyncEntry \<Rightarrow> SyncState \<Rightarrow> SyncState" where
  "put_entry path e s =
     (let (v, s') = nextVersion s
      in s'\<lparr>st_entries := mset_key path (e\<lparr>s_version := v\<rparr>) (st_entries s')\<rparr>)"

lemma put_entry_simps [simp]:
  "st_entries (put_entry path e s) = mset_key path (e\<lparr>s_version := st_next s\<rparr>) (st_entries s)"
  "st_next (put_entry path e s) = st_next s + 1"
  "st_stream (put_entry path e s) = st_stream s"
  "st_workspace (put_entry path e s) = st_workspace s"
  by (simp_all add: put_entry_def nextVersion_def)

lemma syncStateEntryCounts_filter:
  "syncStateEntryCounts (Some s) =
     (length (filter (\<lambda>(p, e). \<not> s_deleted e) (st_entries s)), length (filter (\<lambda>(p, e). s_deleted e) (st_entries s)))"
proof -
  have "fold (\<lambda>(p, e) (live, deleted). if s_deleted e then (live, deleted + 1) else (live + 1, deleted)) m (i, j) =
      (i + length (filter (\<lambda>(p, e). \<not> s_deleted e) m), j + length (filter (\<lambda>(p, e). s_deleted e) m))"
    for m :: "(string \<times> SyncEntry) list" and i j :: nat
    by (induction m arbitrary: i j) (auto simp: case_prod_unfold)
  then show ?thesis
    by (simp add: syncStateEntryCounts_def)
qed

section \<open>The writer\<close>

text \<open>
  The goroutine of \<open>run\<close> waits for a token (\<open>Idle\<close>), waits for the debounce timer (\<open>Debounce\<close>), or
  saves a copy it took under the lock (\<open>Saving\<close>, with the phase that follows); \<open>Stopped\<close> is its end.
  \<open>w_signals\<close> counts the goroutines that changed the state and did not yet send on \<open>flushCh\<close>.
\<close>

datatype phase = Idle | Debounce | Saving SyncState bool | Stopped

record stateWriter =
  w_state :: SyncState
  w_dirty :: bool
  w_token :: bool
  w_phase :: phase
  w_signals :: nat
  w_disk :: "SyncState option"

definition newStateWriter :: "SyncState \<Rightarrow> SyncState option \<Rightarrow> stateWriter" where
  "newStateWriter st disk =
     \<lparr>w_state = st, w_dirty = False, w_token = False, w_phase = Idle, w_signals = 0, w_disk = disk\<rparr>"

definition cloneSyncState :: "SyncState \<Rightarrow> SyncState" where
  "cloneSyncState st = st\<lparr>st_entries := map (\<lambda>(k, v). (k, v)) (st_entries st)\<rparr>"

definition saveSyncState :: "int \<Rightarrow> SyncState \<Rightarrow> SyncState" where
  "saveSyncState now st = st\<lparr>st_updated := now\<rparr>"

text \<open>A change of the state under the lock, and the send on \<open>flushCh\<close> that follows it.\<close>

definition mutate :: "SyncState \<Rightarrow> stateWriter \<Rightarrow> stateWriter" where
  "mutate st w = w\<lparr>w_state := st, w_dirty := True, w_signals := w_signals w + 1\<rparr>"

definition signal :: "stateWriter \<Rightarrow> stateWriter" where
  "signal w = w\<lparr>w_token := True, w_signals := w_signals w - 1\<rparr>"

definition markDirty :: "stateWriter \<Rightarrow> stateWriter" where
  "markDirty w = mutate (w_state w) w"

definition updateStreamID :: "string \<Rightarrow> stateWriter \<Rightarrow> stateWriter" where
  "updateStreamID i w = mutate ((w_state w)\<lparr>st_stream := i\<rparr>) w"

text \<open>The part of \<open>flushNow\<close> under the lock, and the save after it.\<close>

definition flush_take :: "bool \<Rightarrow> stateWriter \<Rightarrow> stateWriter" where
  "flush_take stopping w =
     (if w_dirty w then w\<lparr>w_dirty := False, w_phase := Saving (cloneSyncState (w_state w)) stopping\<rparr>
      else w\<lparr>w_phase := (if stopping then Stopped else Idle)\<rparr>)"

definition flush_save :: "bool \<Rightarrow> int \<Rightarrow> SyncState \<Rightarrow> bool \<Rightarrow> stateWriter \<Rightarrow> stateWriter" where
  "flush_save ok now copy stopping w =
     w\<lparr>w_disk := (if ok then Some (saveSyncState now copy) else w_disk w),
       w_phase := (if stopping then Stopped else Idle)\<rparr>"

text \<open>The steps of the writer's own goroutine; \<open>ok\<close> tells whether saves succeed.\<close>

inductive run_step :: "bool \<Rightarrow> stateWriter \<Rightarrow> stateWriter \<Rightarrow> bool" for ok where
  wake: "w_phase w = Idle \<Longrightarrow> w_token w \<Longrightarrow> run_step ok w (w\<lparr>w_token := False, w_phase := Debounce\<rparr>)"
| fire: "w_phase w = Debounce \<Longrightarrow> run_step ok w (flush_take False w)"
| save: "w_phase w = Saving copy stopping \<Longrightarrow> run_step ok w (flush_save ok now copy stopping w)"

text \<open>All steps: the writer's, a change of the state, a send on \<open>flushCh\<close>, and the stop signal.\<close>

inductive writer_step :: "stateWriter \<Rightarrow> stateWriter \<Rightarrow> bool" where
  run: "run_step True w w' \<Longrightarrow> writer_step w w'"
| change: "writer_step w (mutate st w)"
| send: "0 < w_signals w \<Longrightarrow> writer_step w (signal w)"
| stop: "w_phase w \<in> {Idle, Debounce} \<Longrightarrow> writer_step w (flush_take True w)"

inductive_cases run_stepE: "run_step ok w w'"
inductive_cases writer_stepE: "writer_step w w'"

section \<open>Nothing stays unsaved\<close>

definition same_content :: "SyncState option \<Rightarrow> SyncState \<Rightarrow> bool" where
  "same_content d s \<longleftrightarrow> (\<exists>t. d = Some (saveSyncState t s))"

lemma cloneSyncState_id [simp]: "cloneSyncState st = st"
  by (simp add: cloneSyncState_def case_prod_unfold)

text \<open>
  A clean state is on disk or on its way there, and a dirty one has a wake-up coming: a token, a
  running timer, or a goroutine about to send; only a stopping writer owes nothing.
\<close>

definition writer_inv :: "stateWriter \<Rightarrow> bool" where
  "writer_inv w \<longleftrightarrow>
     (\<not> w_dirty w \<longrightarrow> same_content (w_disk w) (w_state w) \<or> (\<exists>b. w_phase w = Saving (w_state w) b)) \<and>
     (\<not> w_dirty w \<longrightarrow> (\<forall>c b. w_phase w = Saving c b \<longrightarrow> c = w_state w)) \<and>
     (w_dirty w \<longrightarrow> w_token w \<or> w_phase w = Debounce \<or> 0 < w_signals w \<or> w_phase w = Stopped \<or>
        (\<exists>c. w_phase w = Saving c True))"

lemma same_content_save [simp]: "same_content (Some (saveSyncState t s)) s"
  by (auto simp: same_content_def)

lemma writer_inv_step: "writer_step w w' \<Longrightarrow> writer_inv w \<Longrightarrow> writer_inv w'"
proof (induction rule: writer_step.induct)
  case (run w w')
  then show ?case
    by (cases rule: run_step.cases) (auto simp: writer_inv_def flush_take_def flush_save_def)
next
  case (change w st)
  then show ?case
    by (auto simp: writer_inv_def mutate_def)
next
  case (send w)
  then show ?case
    by (auto simp: writer_inv_def signal_def)
next
  case (stop w)
  then show ?case
    by (cases "w_dirty w"; cases "w_phase w") (simp_all add: writer_inv_def flush_take_def, blast+)
qed

lemma writer_inv_reachable:
  assumes "writer_step\<^sup>*\<^sup>* (newStateWriter st disk) w" "same_content disk st"
  shows "writer_inv w"
  using assms(1)
proof (induction rule: rtranclp_induct)
  case base
  then show ?case
    using assms(2) by (simp add: writer_inv_def newStateWriter_def)
next
  case (step w w')
  then show ?case
    using writer_inv_step by blast
qed

text \<open>From a token or a running timer the writer's own steps reach a saved state.\<close>

lemma run_to_saved:
  assumes inv: "writer_inv w" and sig: "w_signals w = 0" and live: "w_phase w \<noteq> Stopped" "\<nexists>c. w_phase w = Saving c True"
  shows "\<exists>w'. (run_step True)\<^sup>*\<^sup>* w w' \<and> w_state w' = w_state w \<and> \<not> w_dirty w' \<and> same_content (w_disk w') (w_state w)"
proof -
  have debounce: "\<exists>w'. (run_step True)\<^sup>*\<^sup>* v w' \<and> w_state w' = w_state v \<and> \<not> w_dirty w' \<and> same_content (w_disk w') (w_state v)"
    if "w_phase v = Debounce" "writer_inv v" for v
  proof (cases "w_dirty v")
    case True
    let ?u = "flush_take False v"
    have "run_step True v ?u"
      using that(1) by (rule run_step.fire)
    moreover have "run_step True ?u (flush_save True 0 (w_state v) False ?u)"
      using True by (intro run_step.save) (simp add: flush_take_def)
    ultimately have "(run_step True)\<^sup>*\<^sup>* v (flush_save True 0 (w_state v) False ?u)"
      by (meson converse_rtranclp_into_rtranclp r_into_rtranclp)
    then show ?thesis
      using True by (intro exI [of _ "flush_save True 0 (w_state v) False ?u"]) (simp add: flush_save_def flush_take_def)
  qed (use that in \<open>auto simp: writer_inv_def\<close>)
  have idle: "\<exists>w'. (run_step True)\<^sup>*\<^sup>* v w' \<and> w_state w' = w_state v \<and> \<not> w_dirty w' \<and> same_content (w_disk w') (w_state v)"
    if "w_phase v = Idle" "writer_inv v" "w_signals v = 0" for v
  proof (cases "w_dirty v")
    case True
    then have "w_token v"
      using that by (simp add: writer_inv_def)
    then have st: "run_step True v (v\<lparr>w_token := False, w_phase := Debounce\<rparr>)"
      using that(1) by (rule run_step.wake [rotated])
    then have "writer_inv (v\<lparr>w_token := False, w_phase := Debounce\<rparr>)"
      using writer_inv_step [OF writer_step.run] that(2) by blast
    then show ?thesis
      using debounce [of "v\<lparr>w_token := False, w_phase := Debounce\<rparr>"] converse_rtranclp_into_rtranclp [of "run_step True", OF st] by auto
  qed (use that in \<open>auto simp: writer_inv_def\<close>)
  show ?thesis
  proof (cases "w_phase w")
    case (Saving copy stopping)
    let ?u = "flush_save True 0 copy stopping w"
    have st: "run_step True w ?u"
      using Saving by (rule run_step.save)
    have "w_phase ?u = Idle" "w_signals ?u = 0" "w_state ?u = w_state w"
      using Saving live sig by (auto simp: flush_save_def)
    then show ?thesis
      using idle [of ?u] writer_inv_step [OF writer_step.run [OF st] inv] converse_rtranclp_into_rtranclp [of "run_step True", OF st] by auto
  qed (use idle debounce inv sig live in auto)
qed

section \<open>Properties\<close>


definition sample_state :: SyncState where
  "sample_state = newSyncState ''ws'' ''/tmp/ws''"


end
