(* ===== verification/Mount_Plan.thy ===== *)
theory Mount_Plan
  imports Sync_State
begin

text \<open>
  The plan shown before a directory is mounted (\<open>src/cmd/afs/mount_reconcile.go\<close>): every path of
  the local tree, the workspace and the persisted sync state is classified as unchanged, or gets one
  operation. The two scans are arguments, as are reading a file on either side and the SHA-256
  digest. A message of an operation is represented by a constructor.
\<close>

section \<open>Observations and plans\<close>

record observedMeta =
  m_kind :: string
  m_mode :: nat
  m_size :: int
  m_mtime :: int
  m_mtimens :: int
  m_target :: string

datatype op_code = OpI | OpU | OpD | OpDL | OpDR | OpC | OpS

datatype detail =
    RemoteOnly | LocalOnlyReadonly | TooLarge int int | LocalOnlyUpload
  | RemoteDeleted | LiveChildren | PendingDeleteReadonly | PendingDelete
  | LocalDeletedReadonly | DeletedWhileRemoteChanged | LocalDeleted | RemoteCreated
  | ReadonlyRedownload | RemoteChanged | BothChanged | LocalChangedReadonly | LocalChangedUpload
  | TypeDiffers string string | TargetDiffers | SizeDiffers int int | ContentDiffers | Unsupported string
  | NoDetail

record mountReconcileOperation =
  o_code :: op_code
  o_path :: string
  o_kind :: string
  o_details :: detail

record mountReconcilePlan =
  LocalCount :: nat
  RemoteCount :: nat
  StateCount :: nat
  StateLiveCount :: nat
  StateDeletedCount :: nat
  SameCount :: nat
  ImportCount :: nat
  UploadCount :: nat
  DownloadCount :: nat
  DeleteLocalCount :: nat
  DeleteRemoteCount :: nat
  ConflictCount :: nat
  SkippedCount :: nat
  Operations :: "mountReconcileOperation list"
  Baseline :: "SyncEntry gomap"

record mountLocalSnapshot =
  Exists :: bool
  EntryCount :: nat

record mount_config =
  MaxFileBytes :: int
  Readonly :: bool

text \<open>The two reads of \<open>mountBaselineEntry\<close>, which may fail, and the digest.\<close>

datatype plan_error = ReadLocal string | ReadRemote string

record mount_io =
  read_local :: "string \<Rightarrow> string option"
  cat_remote :: "string \<Rightarrow> string option"
  sha256Hex :: "string \<Rightarrow> string"

definition add_op :: "op_code \<Rightarrow> string \<Rightarrow> string \<Rightarrow> detail \<Rightarrow> mountReconcilePlan \<Rightarrow> mountReconcilePlan" where
  "add_op code path kind details p =
     p\<lparr>Operations := Operations p @ [\<lparr>o_code = code, o_path = path, o_kind = kind, o_details = details\<rparr>]\<rparr>"

section \<open>Building the plan\<close>

definition addLocalOnly :: "string \<Rightarrow> observedMeta \<Rightarrow> int \<Rightarrow> bool \<Rightarrow> mountReconcilePlan \<Rightarrow> mountReconcilePlan" where
  "addLocalOnly path meta maxFileBytes readonly p =
     (if readonly then
        add_op OpS path (m_kind meta) LocalOnlyReadonly (p\<lparr>SkippedCount := SkippedCount p + 1\<rparr>)
      else if m_kind meta = ''file'' \<and> maxFileBytes > 0 \<and> m_size meta > maxFileBytes then
        add_op OpS path (m_kind meta) (TooLarge (m_size meta) maxFileBytes) (p\<lparr>SkippedCount := SkippedCount p + 1\<rparr>)
      else
        add_op OpI path (m_kind meta) LocalOnlyUpload (p\<lparr>ImportCount := ImportCount p + 1\<rparr>))"

definition addKnownUpload :: "string \<Rightarrow> observedMeta \<Rightarrow> int \<Rightarrow> bool \<Rightarrow> mountReconcilePlan \<Rightarrow> mountReconcilePlan" where
  "addKnownUpload path meta maxFileBytes readonly p =
     (if readonly then
        add_op OpS path (m_kind meta) LocalChangedReadonly (p\<lparr>SkippedCount := SkippedCount p + 1\<rparr>)
      else if m_kind meta = ''file'' \<and> maxFileBytes > 0 \<and> m_size meta > maxFileBytes then
        add_op OpS path (m_kind meta) (TooLarge (m_size meta) maxFileBytes) (p\<lparr>SkippedCount := SkippedCount p + 1\<rparr>)
      else
        add_op OpU path (m_kind meta) LocalChangedUpload (p\<lparr>UploadCount := UploadCount p + 1\<rparr>))"

definition addConflict :: "string \<Rightarrow> detail \<Rightarrow> mountReconcilePlan \<Rightarrow> mountReconcilePlan" where
  "addConflict path details p = add_op OpC path [] details (p\<lparr>ConflictCount := ConflictCount p + 1\<rparr>)"

text \<open>The operations that \<open>buildKnownMountReconcilePlan\<close> writes out in place.\<close>

definition addDownload :: "string \<Rightarrow> string \<Rightarrow> detail \<Rightarrow> mountReconcilePlan \<Rightarrow> mountReconcilePlan" where
  "addDownload path kind details p = add_op OpD path kind details (p\<lparr>DownloadCount := DownloadCount p + 1\<rparr>)"

definition addDeleteLocal :: "string \<Rightarrow> string \<Rightarrow> detail \<Rightarrow> mountReconcilePlan \<Rightarrow> mountReconcilePlan" where
  "addDeleteLocal path kind details p = add_op OpDL path kind details (p\<lparr>DeleteLocalCount := DeleteLocalCount p + 1\<rparr>)"

definition addDeleteRemote :: "string \<Rightarrow> string \<Rightarrow> detail \<Rightarrow> mountReconcilePlan \<Rightarrow> mountReconcilePlan" where
  "addDeleteRemote path kind details p = add_op OpDR path kind details (p\<lparr>DeleteRemoteCount := DeleteRemoteCount p + 1\<rparr>)"

definition addSkipped :: "string \<Rightarrow> string \<Rightarrow> detail \<Rightarrow> mountReconcilePlan \<Rightarrow> mountReconcilePlan" where
  "addSkipped path kind details p = add_op OpS path kind details (p\<lparr>SkippedCount := SkippedCount p + 1\<rparr>)"

definition addSame :: "mountReconcilePlan \<Rightarrow> mountReconcilePlan" where
  "addSame p = p\<lparr>SameCount := SameCount p + 1\<rparr>"

definition addBaseline :: "string \<Rightarrow> SyncEntry \<Rightarrow> mountReconcilePlan \<Rightarrow> mountReconcilePlan" where
  "addBaseline path e p = (addSame p)\<lparr>Baseline := mset_key path e (Baseline p)\<rparr>"

definition observedChangedFromStored :: "observedMeta \<Rightarrow> SyncEntry \<Rightarrow> bool \<Rightarrow> bool" where
  "observedChangedFromStored meta stored localSide =
     (if s_deleted stored \<or> m_kind meta \<noteq> s_type stored then True
      else if m_kind meta = ''dir'' then
        s_mode stored \<noteq> 0 \<and> m_mode meta \<noteq> 0 \<and> m_mode meta \<noteq> s_mode stored
      else if m_kind meta = ''symlink'' then m_target meta \<noteq> s_target stored
      else if m_kind meta = ''file'' then
        (if m_size meta \<noteq> s_size stored then True
         else if localSide then s_lmtime stored \<noteq> 0 \<and> m_mtime meta \<noteq> s_lmtime stored
         else s_rmtime stored \<noteq> 0 \<and> m_mtime meta \<noteq> s_rmtime stored)
      else True)"

definition mountBaselineEntry ::
  "mount_io \<Rightarrow> string \<Rightarrow> observedMeta \<Rightarrow> observedMeta \<Rightarrow> int \<Rightarrow> plan_error + SyncEntry \<times> bool \<times> detail" where
  "mountBaselineEntry io path l r now =
     (if m_kind l \<noteq> m_kind r then Inr (zero_entry, False, TypeDiffers (m_kind l) (m_kind r))
      else if m_kind l = ''dir'' then
        Inr (zero_entry\<lparr>s_type := ''dir'', s_mode := m_mode r, s_lmtime := m_mtime l, s_rmtime := m_mtime r,
               s_synced := now\<rparr>, True, NoDetail)
      else if m_kind l = ''symlink'' then
        (if m_target l \<noteq> m_target r then Inr (zero_entry, False, TargetDiffers)
         else Inr (zero_entry\<lparr>s_type := ''symlink'', s_target := m_target l, s_synced := now\<rparr>, True, NoDetail))
      else if m_kind l = ''file'' then
        (if m_size l \<noteq> m_size r then Inr (zero_entry, False, SizeDiffers (m_size l) (m_size r))
         else
           case read_local io path of
             None \<Rightarrow> Inl (ReadLocal path)
           | Some localData \<Rightarrow>
               case cat_remote io path of
                 None \<Rightarrow> Inl (ReadRemote path)
               | Some remoteData \<Rightarrow>
                   let localHash = sha256Hex io localData; remoteHash = sha256Hex io remoteData
                   in if localHash \<noteq> remoteHash then Inr (zero_entry, False, ContentDiffers)
                      else
                        Inr (zero_entry\<lparr>s_type := ''file'', s_mode := (if m_mode r = 0 then m_mode l else m_mode r),
                               s_size := m_size l, s_lhash := localHash, s_rhash := remoteHash,
                               s_lmtime := m_mtime l, s_rmtime := m_mtime r, s_synced := now\<rparr>, True, NoDetail))
      else Inr (zero_entry, False, Unsupported (m_kind l)))"

definition mountRemoteDirHasLiveDescendants :: "string \<Rightarrow> observedMeta gomap \<Rightarrow> SyncEntry gomap \<Rightarrow> bool" where
  "mountRemoteDirHasLiveDescendants path remote entries \<longleftrightarrow>
     list_ex (\<lambda>(child, _).
       HasPrefix child (TrimSuffix path ''/'' @ ''/'') \<and>
       \<not> (case map_of entries child of None \<Rightarrow> False | Some e \<Rightarrow> s_deleted e)) remote"

text \<open>One path of \<open>buildMountReconcilePlan\<close>, when there is no persisted state.\<close>

definition initial_step ::
  "mount_config \<Rightarrow> mount_io \<Rightarrow> int \<Rightarrow> observedMeta gomap \<Rightarrow> observedMeta gomap \<Rightarrow> string \<Rightarrow> mountReconcilePlan \<Rightarrow>
     plan_error + mountReconcilePlan" where
  "initial_step cfg io now localm remote path p =
     (case (map_of localm path, map_of remote path) of
        (Some l, None) \<Rightarrow> Inr (addLocalOnly path l (MaxFileBytes cfg) (Readonly cfg) p)
      | (None, Some r) \<Rightarrow> Inr (addDownload path (m_kind r) RemoteOnly p)
      | (Some l, Some r) \<Rightarrow>
          rbind (mountBaselineEntry io path l r now) (\<lambda>(entry, same, details).
            Inr (if same then addBaseline path entry p
                 else add_op OpC path (m_kind l) details (p\<lparr>ConflictCount := ConflictCount p + 1\<rparr>)))
      | (None, None) \<Rightarrow> Inr p)"

text \<open>One path of \<open>buildKnownMountReconcilePlan\<close>.\<close>

definition known_both ::
  "mount_config \<Rightarrow> mount_io \<Rightarrow> int \<Rightarrow> SyncEntry option \<Rightarrow> observedMeta \<Rightarrow> observedMeta \<Rightarrow> string \<Rightarrow> mountReconcilePlan \<Rightarrow>
     plan_error + mountReconcilePlan" where
  "known_both cfg io now st l r path p =
     (case st of
        None \<Rightarrow>
          rbind (mountBaselineEntry io path l r now) (\<lambda>(entry, same, details).
            Inr (if same then addBaseline path entry p
                 else if Readonly cfg then addDownload path (m_kind r) ReadonlyRedownload p
                 else addConflict path details p))
      | Some stored \<Rightarrow>
          let localChanged = observedChangedFromStored l stored True;
              remoteChanged = observedChangedFromStored r stored False
          in if \<not> localChanged \<and> \<not> remoteChanged then Inr (addSame p)
             else if localChanged \<and> \<not> remoteChanged then Inr (addKnownUpload path l (MaxFileBytes cfg) (Readonly cfg) p)
             else if \<not> localChanged \<and> remoteChanged then Inr (addDownload path (m_kind r) RemoteChanged p)
             else if Readonly cfg then Inr (addDownload path (m_kind r) ReadonlyRedownload p)
             else
               rbind (mountBaselineEntry io path l r now) (\<lambda>(entry, same, _).
                 Inr (if same then addBaseline path entry p else addConflict path BothChanged p)))"

definition known_remote ::
  "mount_config \<Rightarrow> observedMeta gomap \<Rightarrow> SyncEntry gomap \<Rightarrow> SyncEntry option \<Rightarrow> observedMeta \<Rightarrow> string \<Rightarrow> mountReconcilePlan \<Rightarrow>
     mountReconcilePlan" where
  "known_remote cfg remote entries st r path p =
     (case st of
        None \<Rightarrow> addDownload path (m_kind r) RemoteCreated p
      | Some stored \<Rightarrow>
          if s_deleted stored then
            (if m_kind r = ''dir'' \<and> mountRemoteDirHasLiveDescendants path remote entries then
               addDownload path (m_kind r) LiveChildren p
             else if Readonly cfg then addSkipped path (m_kind r) PendingDeleteReadonly p
             else addDeleteRemote path (m_kind r) PendingDelete p)
          else if Readonly cfg then addDownload path (m_kind r) LocalDeletedReadonly p
          else if observedChangedFromStored r stored False then addConflict path DeletedWhileRemoteChanged p
          else addDeleteRemote path (m_kind r) LocalDeleted p)"

definition known_step ::
  "mount_config \<Rightarrow> mount_io \<Rightarrow> int \<Rightarrow> observedMeta gomap \<Rightarrow> observedMeta gomap \<Rightarrow> SyncEntry gomap \<Rightarrow> string \<Rightarrow>
     mountReconcilePlan \<Rightarrow> plan_error + mountReconcilePlan" where
  "known_step cfg io now localm remote entries path p =
     (case (map_of localm path, map_of remote path) of
        (Some l, None) \<Rightarrow>
          Inr (case map_of entries path of
                 Some stored \<Rightarrow>
                   if \<not> s_deleted stored then addDeleteLocal path (m_kind l) RemoteDeleted p
                   else addKnownUpload path l (MaxFileBytes cfg) (Readonly cfg) p
               | None \<Rightarrow> addKnownUpload path l (MaxFileBytes cfg) (Readonly cfg) p)
      | (None, Some r) \<Rightarrow> Inr (known_remote cfg remote entries (map_of entries path) r path p)
      | (Some l, Some r) \<Rightarrow> known_both cfg io now (map_of entries path) l r path p
      | (None, None) \<Rightarrow> Inr p)"

fun fold_plan :: "(string \<Rightarrow> 'p \<Rightarrow> 'e + 'p) \<Rightarrow> string list \<Rightarrow> 'p \<Rightarrow> 'e + 'p" where
  "fold_plan f [] p = Inr p"
| "fold_plan f (x # xs) p = rbind (f x p) (fold_plan f xs)"

definition sortedMountReconcilePaths :: "observedMeta gomap \<Rightarrow> observedMeta gomap \<Rightarrow> string list" where
  "sortedMountReconcilePaths localm remote = sort (remdups (map fst localm @ map fst remote))"

definition sortedKnownMountReconcilePaths ::
  "observedMeta gomap \<Rightarrow> observedMeta gomap \<Rightarrow> SyncEntry gomap \<Rightarrow> string list" where
  "sortedKnownMountReconcilePaths localm remote entries =
     sort (remdups (map fst localm @ map fst remote @ map fst entries))"

definition buildKnownMountReconcilePlan ::
  "mount_config \<Rightarrow> mount_io \<Rightarrow> int \<Rightarrow> observedMeta gomap \<Rightarrow> observedMeta gomap \<Rightarrow> SyncState \<Rightarrow> mountReconcilePlan \<Rightarrow>
     plan_error + mountReconcilePlan" where
  "buildKnownMountReconcilePlan cfg io now localm remote st p =
     fold_plan (known_step cfg io now localm remote (st_entries st))
       (sortedKnownMountReconcilePaths localm remote (st_entries st)) p"

definition empty_plan :: "nat \<Rightarrow> nat \<Rightarrow> mountReconcilePlan" where
  "empty_plan nl nr =
     \<lparr>LocalCount = nl, RemoteCount = nr, StateCount = 0, StateLiveCount = 0, StateDeletedCount = 0, SameCount = 0,
      ImportCount = 0, UploadCount = 0, DownloadCount = 0, DeleteLocalCount = 0, DeleteRemoteCount = 0,
      ConflictCount = 0, SkippedCount = 0, Operations = [], Baseline = []\<rparr>"

definition buildMountReconcilePlan ::
  "mount_config \<Rightarrow> mount_io \<Rightarrow> int \<Rightarrow> observedMeta gomap \<Rightarrow> observedMeta gomap \<Rightarrow> SyncState option \<Rightarrow>
     plan_error + mountReconcilePlan" where
  "buildMountReconcilePlan cfg io now localm remote snap =
     (let plan = empty_plan (length localm) (length remote);
          initial = (\<lambda>p. fold_plan (initial_step cfg io now localm remote) (sortedMountReconcilePaths localm remote) p)
      in case snap of
           None \<Rightarrow> initial plan
         | Some st \<Rightarrow>
             let (live, deleted) = syncStateEntryCounts (Some st);
                 plan = plan\<lparr>StateCount := length (st_entries st), StateLiveCount := live, StateDeletedCount := deleted\<rparr>
             in if st_entries st \<noteq> [] then buildKnownMountReconcilePlan cfg io now localm remote st plan
                else initial plan)"

section \<open>Using the plan\<close>

definition hasReportableChanges :: "mountReconcilePlan \<Rightarrow> bool" where
  "hasReportableChanges p \<longleftrightarrow>
     ImportCount p > 0 \<or> UploadCount p > 0 \<or> DownloadCount p > 0 \<or> DeleteLocalCount p > 0 \<or>
     DeleteRemoteCount p > 0 \<or> ConflictCount p > 0 \<or> SkippedCount p > 0"

definition requiresConfirmation :: "mountReconcilePlan \<Rightarrow> bool" where
  "requiresConfirmation p \<longleftrightarrow>
     (if StateCount p > 0 then hasReportableChanges p
      else if LocalCount p = 0 then False
      else ImportCount p > 0 \<or> UploadCount p > 0 \<or> DownloadCount p > 0 \<or> SkippedCount p > 0)"

definition mountPlanDeletesRemoteFromEmptyLocal :: "mountReconcilePlan \<Rightarrow> mountLocalSnapshot \<Rightarrow> bool" where
  "mountPlanDeletesRemoteFromEmptyLocal plan snap \<longleftrightarrow>
     EntryCount snap = 0 \<and> LocalCount plan = 0 \<and> RemoteCount plan > 0 \<and> StateCount plan > 0 \<and>
     DeleteRemoteCount plan > 0"

definition mountPlanShouldResetEmptyLocalState :: "mountReconcilePlan \<Rightarrow> mountLocalSnapshot \<Rightarrow> bool" where
  "mountPlanShouldResetEmptyLocalState plan snap \<longleftrightarrow>
     mountPlanDeletesRemoteFromEmptyLocal plan snap \<and> (\<not> Exists snap \<or> StateLiveCount plan = 0)"

definition resetMountSyncState :: "string \<Rightarrow> string \<Rightarrow> stateWriter \<Rightarrow> stateWriter" where
  "resetMountSyncState workspace root w = w\<lparr>w_state := newSyncState workspace root, w_dirty := True\<rparr>"

definition approveMountReconcilePlan :: "mountReconcilePlan \<Rightarrow> stateWriter \<Rightarrow> stateWriter" where
  "approveMountReconcilePlan plan w =
     (if Baseline plan = [] then w
      else w\<lparr>w_state := fold (\<lambda>(path, e). put_entry path e) (Baseline plan) (w_state w), w_dirty := True, w_token := True\<rparr>)"

section \<open>Planners\<close>

text \<open>The counter that belongs to an operation code, and the frame of a plan that no step touches.\<close>

fun code_count :: "op_code \<Rightarrow> mountReconcilePlan \<Rightarrow> nat" where
  "code_count OpI p = ImportCount p"
| "code_count OpU p = UploadCount p"
| "code_count OpD p = DownloadCount p"
| "code_count OpDL p = DeleteLocalCount p"
| "code_count OpDR p = DeleteRemoteCount p"
| "code_count OpC p = ConflictCount p"
| "code_count OpS p = SkippedCount p"

definition plan_frame :: "mountReconcilePlan \<Rightarrow> nat \<times> nat \<times> nat \<times> nat \<times> nat" where
  "plan_frame p = (LocalCount p, RemoteCount p, StateCount p, StateLiveCount p, StateDeletedCount p)"

definition op_step :: "mountReconcileOperation \<Rightarrow> mountReconcilePlan \<Rightarrow> mountReconcilePlan \<Rightarrow> bool" where
  "op_step o1 p p' \<longleftrightarrow>
     Operations p' = Operations p @ [o1] \<and> SameCount p' = SameCount p \<and> Baseline p' = Baseline p \<and>
     plan_frame p' = plan_frame p \<and>
     (\<forall>c. code_count c p' = code_count c p + (if o_code o1 = c then 1 else 0))"

definition same_step :: "(string \<Rightarrow> SyncEntry \<Rightarrow> bool) \<Rightarrow> string \<Rightarrow> mountReconcilePlan \<Rightarrow> mountReconcilePlan \<Rightarrow> bool" where
  "same_step base_ok path p p' \<longleftrightarrow>
     Operations p' = Operations p \<and> SameCount p' = SameCount p + 1 \<and> plan_frame p' = plan_frame p \<and>
     (\<forall>c. code_count c p' = code_count c p) \<and>
     (Baseline p' = Baseline p \<or> (\<exists>e. base_ok path e \<and> Baseline p' = mset_key path e (Baseline p)))"

lemma op_step_simps:
  assumes "code_count k p' = code_count k p + 1" "\<And>c. c \<noteq> k \<Longrightarrow> code_count c p' = code_count c p"
    "Operations p' = Operations p" "SameCount p' = SameCount p" "Baseline p' = Baseline p" "plan_frame p' = plan_frame p"
  shows "op_step \<lparr>o_code = k, o_path = path, o_kind = kind, o_details = d\<rparr> p (add_op k path kind d p')"
proof -
  have "code_count c (add_op k path kind d p') = code_count c p'" for c
    by (cases c) (simp_all add: add_op_def)
  then show ?thesis
    using assms by (auto simp: op_step_def add_op_def plan_frame_def)
qed

text \<open>What the add functions do to a plan.\<close>

lemma add_steps:
  "op_step \<lparr>o_code = OpD, o_path = path, o_kind = kind, o_details = d\<rparr> p (addDownload path kind d p)"
  "op_step \<lparr>o_code = OpDL, o_path = path, o_kind = kind, o_details = d\<rparr> p (addDeleteLocal path kind d p)"
  "op_step \<lparr>o_code = OpDR, o_path = path, o_kind = kind, o_details = d\<rparr> p (addDeleteRemote path kind d p)"
  "op_step \<lparr>o_code = OpS, o_path = path, o_kind = kind, o_details = d\<rparr> p (addSkipped path kind d p)"
  "op_step \<lparr>o_code = OpC, o_path = path, o_kind = [], o_details = d\<rparr> p (addConflict path d p)"
  "op_step \<lparr>o_code = OpC, o_path = path, o_kind = kind, o_details = d\<rparr> p
     (add_op OpC path kind d (p\<lparr>ConflictCount := ConflictCount p + 1\<rparr>))"
  unfolding addDownload_def addDeleteLocal_def addDeleteRemote_def addSkipped_def addConflict_def
  by (rule op_step_simps; simp add: plan_frame_def; (rename_tac c, case_tac c; simp)?)+

lemma upload_steps:
  "\<exists>o1. op_step o1 p (addLocalOnly path l mx ro p) \<and> o_path o1 = path \<and>
     (o_code o1 = OpS \<or> \<not> ro \<and> o_code o1 = OpI)"
  "\<exists>o1. op_step o1 p (addKnownUpload path l mx ro p) \<and> o_path o1 = path \<and>
     (o_code o1 = OpS \<or> \<not> ro \<and> o_code o1 = OpU)"
proof -
  have bump: "op_step \<lparr>o_code = OpS, o_path = path, o_kind = kind, o_details = d\<rparr> p
      (add_op OpS path kind d (p\<lparr>SkippedCount := SkippedCount p + 1\<rparr>))"
    "op_step \<lparr>o_code = OpI, o_path = path, o_kind = kind, o_details = d\<rparr> p
      (add_op OpI path kind d (p\<lparr>ImportCount := ImportCount p + 1\<rparr>))"
    "op_step \<lparr>o_code = OpU, o_path = path, o_kind = kind, o_details = d\<rparr> p
      (add_op OpU path kind d (p\<lparr>UploadCount := UploadCount p + 1\<rparr>))" for kind d
    by (rule op_step_simps; simp add: plan_frame_def; (rename_tac c, case_tac c; simp)?)+
  show "\<exists>o1. op_step o1 p (addLocalOnly path l mx ro p) \<and> o_path o1 = path \<and>
     (o_code o1 = OpS \<or> \<not> ro \<and> o_code o1 = OpI)"
    "\<exists>o1. op_step o1 p (addKnownUpload path l mx ro p) \<and> o_path o1 = path \<and>
     (o_code o1 = OpS \<or> \<not> ro \<and> o_code o1 = OpU)"
    unfolding addLocalOnly_def addKnownUpload_def using bump by (fastforce split: if_splits)+
qed

lemma same_steps:
  "same_step base_ok path p (addSame p)"
  "base_ok path e \<Longrightarrow> same_step base_ok path p (addBaseline path e p)"
proof -
  have "code_count c (addSame p) = code_count c p" "code_count c (addBaseline path e p) = code_count c p" for c
    by (cases c; simp add: addSame_def addBaseline_def)+
  then show "same_step base_ok path p (addSame p)"
    "base_ok path e \<Longrightarrow> same_step base_ok path p (addBaseline path e p)"
    by (auto simp: same_step_def plan_frame_def addSame_def addBaseline_def)
qed

lemma set_update_elem: "x \<in> set (mset_key k v m) \<Longrightarrow> x = (k, v) \<or> x \<in> set m"
  by (induction m) (auto split: if_splits)

text \<open>
  The contract of a planner: a path either is absent on both sides and leaves the plan alone, or is
  counted as unchanged, or gets one operation with a justification.
\<close>

locale planner =
  fixes step :: "string \<Rightarrow> mountReconcilePlan \<Rightarrow> plan_error + mountReconcilePlan"
    and present :: "string \<Rightarrow> bool"
    and justified :: "mountReconcileOperation \<Rightarrow> bool"
    and base_ok :: "string \<Rightarrow> SyncEntry \<Rightarrow> bool"
  assumes step_cases: "step path p = Inr p' \<Longrightarrow>
      p' = p \<and> \<not> present path \<or>
      same_step base_ok path p p' \<and> present path \<or>
      (\<exists>o1. op_step o1 p p' \<and> o_path o1 = path \<and> justified o1 \<and> present path)"
begin

definition plan_inv :: "string list \<Rightarrow> mountReconcilePlan \<Rightarrow> bool" where
  "plan_inv seen p \<longleftrightarrow>
     (\<forall>c. code_count c p = length (filter (\<lambda>o1. o_code o1 = c) (Operations p))) \<and>
     list_all justified (Operations p) \<and>
     distinct (map o_path (Operations p)) \<and> set (map o_path (Operations p)) \<subseteq> set (filter present seen) \<and>
     SameCount p + length (Operations p) = length (filter present seen) \<and>
     (\<forall>(q, e)\<in>set (Baseline p). base_ok q e)"

lemma step_inv:
  assumes "plan_inv seen p" "step path p = Inr p'" "path \<notin> set seen"
  shows "plan_inv (seen @ [path]) p' \<and> plan_frame p' = plan_frame p"
  using step_cases [OF assms(2)]
proof (elim disjE conjE exE)
  assume "same_step base_ok path p p'" "present path"
  then show ?thesis
    using assms(1) by (auto simp: plan_inv_def same_step_def dest!: set_update_elem)
next
  fix o1
  assume "op_step o1 p p'" "o_path o1 = path" "justified o1" "present path"
  then show ?thesis
    using assms(1,3) by (auto simp: plan_inv_def op_step_def)
qed (use assms(1) in \<open>auto simp: plan_inv_def\<close>)

lemma fold_inv:
  "plan_inv seen p \<Longrightarrow> fold_plan step paths p = Inr p' \<Longrightarrow> distinct (seen @ paths) \<Longrightarrow>
   plan_inv (seen @ paths) p' \<and> plan_frame p' = plan_frame p"
proof (induction paths arbitrary: seen p)
  case (Cons x xs)
  from Cons.prems(2) obtain p1 where p1: "step x p = Inr p1" "fold_plan step xs p1 = Inr p'"
    by auto
  have "plan_inv (seen @ [x]) p1 \<and> plan_frame p1 = plan_frame p"
    using step_inv [OF Cons.prems(1) p1(1)] Cons.prems(3) by simp
  then show ?case
    using Cons.IH [of "seen @ [x]" p1] p1(2) Cons.prems(3) by simp
qed simp

lemma plan_correct:
  assumes "fold_plan step paths p = Inr p'" "distinct paths" "Operations p = []" "SameCount p = 0" "Baseline p = []"
    "\<And>c. code_count c p = 0"
  shows "plan_inv paths p'" "plan_frame p' = plan_frame p"
  using fold_inv [of "[]" p paths p'] assms by (auto simp: plan_inv_def)

lemma reportable:
  "plan_inv paths p \<Longrightarrow> hasReportableChanges p \<longleftrightarrow> Operations p \<noteq> []"
proof
  assume inv: "plan_inv paths p" and "Operations p \<noteq> []"
  then obtain o1 os where ops: "Operations p = o1 # os"
    by (cases "Operations p") auto
  then have "0 < code_count (o_code o1) p"
    using inv by (simp add: plan_inv_def)
  then show "hasReportableChanges p"
    by (cases "o_code o1") (simp_all add: hasReportableChanges_def)
next
  assume inv: "plan_inv paths p" and rep: "hasReportableChanges p"
  show "Operations p \<noteq> []"
  proof
    assume "Operations p = []"
    then have "\<And>c. code_count c p = 0"
      using inv by (simp add: plan_inv_def)
    from this [of OpI] this [of OpU] this [of OpD] this [of OpDL] this [of OpDR] this [of OpC] this [of OpS]
    show False
      using rep by (simp add: hasReportableChanges_def)
  qed
qed

end

section \<open>The two planners\<close>

text \<open>What an operation of a plan presupposes of the two sides and the stored entry.\<close>

definition justified_op ::
  "mount_config \<Rightarrow> observedMeta gomap \<Rightarrow> observedMeta gomap \<Rightarrow> SyncEntry gomap \<Rightarrow> mountReconcileOperation \<Rightarrow> bool" where
  "justified_op cfg localm remote entries o1 \<longleftrightarrow>
     (let l = map_of localm (o_path o1); r = map_of remote (o_path o1); s = map_of entries (o_path o1)
      in case o_code o1 of
           OpI \<Rightarrow> \<not> Readonly cfg \<and> l \<noteq> None \<and> r = None \<and> s = None
         | OpU \<Rightarrow> \<not> Readonly cfg \<and> l \<noteq> None \<and>
             (case r of
                None \<Rightarrow> (case s of None \<Rightarrow> True | Some e \<Rightarrow> s_deleted e)
              | Some rm \<Rightarrow> (\<exists>e. s = Some e \<and> observedChangedFromStored (the l) e True \<and> \<not> observedChangedFromStored rm e False))
         | OpD \<Rightarrow> r \<noteq> None
         | OpDL \<Rightarrow> l \<noteq> None \<and> r = None \<and> (\<exists>e. s = Some e \<and> \<not> s_deleted e)
         | OpDR \<Rightarrow> \<not> Readonly cfg \<and> l = None \<and>
             (\<exists>rm e. r = Some rm \<and> s = Some e \<and>
                (if s_deleted e then \<not> (m_kind rm = ''dir'' \<and> mountRemoteDirHasLiveDescendants (o_path o1) remote entries)
                 else \<not> observedChangedFromStored rm e False))
         | OpC \<Rightarrow> r \<noteq> None \<and> (l \<noteq> None \<or> s \<noteq> None)
         | OpS \<Rightarrow> True)"

definition baseline_ok ::
  "mount_io \<Rightarrow> int \<Rightarrow> observedMeta gomap \<Rightarrow> observedMeta gomap \<Rightarrow> string \<Rightarrow> SyncEntry \<Rightarrow> bool" where
  "baseline_ok io now localm remote path e \<longleftrightarrow>
     (\<exists>l r d. map_of localm path = Some l \<and> map_of remote path = Some r \<and>
        mountBaselineEntry io path l r now = Inr (e, True, d))"

definition on_a_side :: "observedMeta gomap \<Rightarrow> observedMeta gomap \<Rightarrow> string \<Rightarrow> bool" where
  "on_a_side localm remote path \<longleftrightarrow> map_of localm path \<noteq> None \<or> map_of remote path \<noteq> None"

lemmas planner_defs = justified_op_def baseline_ok_def on_a_side_def Let_def

lemma op_stepI:
  "op_step \<lparr>o_code = k, o_path = path, o_kind = kind, o_details = d\<rparr> p p' \<Longrightarrow>
   J \<lparr>o_code = k, o_path = path, o_kind = kind, o_details = d\<rparr> \<Longrightarrow>
   \<exists>o1. op_step o1 p p' \<and> o_path o1 = path \<and> J o1"
  by force

interpretation initial_planner: planner "initial_step cfg io now localm remote" "on_a_side localm remote"
  "justified_op cfg localm remote []" "baseline_ok io now localm remote"
  for cfg io now localm remote
proof
  fix path p p'
  assume st: "initial_step cfg io now localm remote path p = Inr p'"
  consider (none) "map_of localm path = None" "map_of remote path = None"
    | (left) l where "map_of localm path = Some l" "map_of remote path = None"
    | (right) r where "map_of localm path = None" "map_of remote path = Some r"
    | (both) l r where "map_of localm path = Some l" "map_of remote path = Some r"
    by fastforce
  then show "p' = p \<and> \<not> on_a_side localm remote path \<or>
      same_step (baseline_ok io now localm remote) path p p' \<and> on_a_side localm remote path \<or>
      (\<exists>o1. op_step o1 p p' \<and> o_path o1 = path \<and> justified_op cfg localm remote [] o1 \<and> on_a_side localm remote path)"
  proof cases
    case none
    then show ?thesis
      using st by (simp add: initial_step_def on_a_side_def)
  next
    case left
    then have "p' = addLocalOnly path l (MaxFileBytes cfg) (Readonly cfg) p"
      using st by (simp add: initial_step_def)
    then show ?thesis
      using upload_steps(1) [of p path l "MaxFileBytes cfg" "Readonly cfg"] left by (force simp: planner_defs)
  next
    case right
    then have "p' = addDownload path (m_kind r) RemoteOnly p"
      using st by (simp add: initial_step_def)
    then show ?thesis
      using add_steps(1) [of path "m_kind r" RemoteOnly p] right by (force simp: planner_defs)
  next
    case both
    then obtain e same d where e: "mountBaselineEntry io path l r now = Inr (e, same, d)"
      "p' = (if same then addBaseline path e p else add_op OpC path (m_kind l) d (p\<lparr>ConflictCount := ConflictCount p + 1\<rparr>))"
      using st by (auto simp: initial_step_def)
    show ?thesis
    proof (cases same)
      case True
      then have "baseline_ok io now localm remote path e"
        using e(1) both by (auto simp: baseline_ok_def)
      then show ?thesis
        using same_steps(2) [of "baseline_ok io now localm remote" path e p] e(2) True both by (simp add: on_a_side_def)
    next
      case False
      then show ?thesis
        using add_steps(6) [of path "m_kind l" d p] e(2) both by (force simp: planner_defs)
    qed
  qed
qed

lemma known_both_cases:
  assumes "known_both cfg io now st l r path p = Inr p'"
  shows "p' = addSame p \<or>
    (\<exists>e d. mountBaselineEntry io path l r now = Inr (e, True, d) \<and> p' = addBaseline path e p) \<or>
    (\<exists>kind d. p' = addDownload path kind d p) \<or>
    (\<exists>d. p' = addConflict path d p) \<or>
    (p' = addKnownUpload path l (MaxFileBytes cfg) (Readonly cfg) p \<and>
       (\<exists>e. st = Some e \<and> observedChangedFromStored l e True \<and> \<not> observedChangedFromStored r e False))"
  using assms by (auto simp: known_both_def Let_def split: option.splits if_splits prod.splits)

lemma known_remote_cases:
  "(\<exists>kind d. known_remote cfg remote entries st r path p = addDownload path kind d p) \<or>
   (\<exists>kind d. known_remote cfg remote entries st r path p = addSkipped path kind d p) \<or>
   (\<exists>d. known_remote cfg remote entries st r path p = addConflict path d p \<and> st \<noteq> None) \<or>
   (\<exists>kind d e. known_remote cfg remote entries st r path p = addDeleteRemote path kind d p \<and> \<not> Readonly cfg \<and> st = Some e \<and>
      (if s_deleted e then \<not> (m_kind r = ''dir'' \<and> mountRemoteDirHasLiveDescendants path remote entries)
       else \<not> observedChangedFromStored r e False))"
  by (auto simp: known_remote_def split: option.splits)

interpretation known_planner: planner "known_step cfg io now localm remote entries" "on_a_side localm remote"
  "justified_op cfg localm remote entries" "baseline_ok io now localm remote"
  for cfg io now localm remote entries
proof
  fix path p p'
  assume st: "known_step cfg io now localm remote entries path p = Inr p'"
  consider (none) "map_of localm path = None" "map_of remote path = None"
    | (left) l where "map_of localm path = Some l" "map_of remote path = None"
    | (right) r where "map_of localm path = None" "map_of remote path = Some r"
    | (both) l r where "map_of localm path = Some l" "map_of remote path = Some r"
    by fastforce
  then show "p' = p \<and> \<not> on_a_side localm remote path \<or>
      same_step (baseline_ok io now localm remote) path p p' \<and> on_a_side localm remote path \<or>
      (\<exists>o1. op_step o1 p p' \<and> o_path o1 = path \<and> justified_op cfg localm remote entries o1 \<and> on_a_side localm remote path)"
  proof cases
    case none
    then show ?thesis
      using st by (simp add: known_step_def on_a_side_def)
  next
    case left
    then consider "p' = addDeleteLocal path (m_kind l) RemoteDeleted p" "\<exists>e. map_of entries path = Some e \<and> \<not> s_deleted e"
      | "p' = addKnownUpload path l (MaxFileBytes cfg) (Readonly cfg) p"
        "case map_of entries path of None \<Rightarrow> True | Some e \<Rightarrow> s_deleted e"
      using st by (auto simp: known_step_def split: option.splits if_splits)
    then show ?thesis
    proof cases
      case 1
      then show ?thesis
        using add_steps(2) [of path "m_kind l" RemoteDeleted p] left by (force simp: planner_defs)
    next
      case 2
      then show ?thesis
        using upload_steps(2) [of p path l "MaxFileBytes cfg" "Readonly cfg"] left by (force simp: planner_defs)
    qed
  next
    case right
    then have "p' = known_remote cfg remote entries (map_of entries path) r path p"
      using st by (simp add: known_step_def)
    with known_remote_cases [of cfg remote entries "map_of entries path" r path p] consider
        (d) kind d where "p' = addDownload path kind d p"
      | (s) kind d where "p' = addSkipped path kind d p"
      | (c) d where "p' = addConflict path d p" "map_of entries path \<noteq> None"
      | (x) kind d e where "p' = addDeleteRemote path kind d p" "\<not> Readonly cfg" "map_of entries path = Some e"
          "if s_deleted e then \<not> (m_kind r = ''dir'' \<and> mountRemoteDirHasLiveDescendants path remote entries)
           else \<not> observedChangedFromStored r e False"
      by metis
    then show ?thesis
    proof cases
      case d
      then show ?thesis
        using add_steps(1) [of path kind d p] right by (force simp: planner_defs)
    next
      case s
      then show ?thesis
        using add_steps(4) [of path kind d p] right by (force simp: planner_defs)
    next
      case c
      then show ?thesis
        using add_steps(5) [of path d p] right by (force simp: planner_defs)
    next
      case x
      let ?o = "\<lparr>o_code = OpDR, o_path = path, o_kind = kind, o_details = d\<rparr>"
      have "justified_op cfg localm remote entries ?o"
        using x(2-4) right by (simp add: justified_op_def)
      moreover have "op_step ?o p p'" "on_a_side localm remote path"
        using add_steps(3) [of path kind d p] x(1) right by (simp_all add: on_a_side_def)
      ultimately show ?thesis
        by (intro disjI2 exI [of _ ?o]) simp
    qed
  next
    case both
    then have "known_both cfg io now (map_of entries path) l r path p = Inr p'"
      using st by (simp add: known_step_def)
    from known_both_cases [OF this] show ?thesis
    proof (elim disjE exE conjE)
      assume "p' = addSame p"
      then show ?thesis
        using same_steps(1) both by (simp add: on_a_side_def)
    next
      fix e d
      assume e: "mountBaselineEntry io path l r now = Inr (e, True, d)" "p' = addBaseline path e p"
      then have "baseline_ok io now localm remote path e"
        using both by (auto simp: baseline_ok_def)
      then show ?thesis
        using same_steps(2) e(2) both by (simp add: on_a_side_def)
    next
      fix kind d
      assume "p' = addDownload path kind d p"
      then show ?thesis
        using add_steps(1) [of path kind d p] both by (force simp: planner_defs)
    next
      fix d
      assume "p' = addConflict path d p"
      then show ?thesis
        using add_steps(5) [of path d p] both by (force simp: planner_defs)
    next
      fix e
      assume "p' = addKnownUpload path l (MaxFileBytes cfg) (Readonly cfg) p" "map_of entries path = Some e"
        "observedChangedFromStored l e True" "\<not> observedChangedFromStored r e False"
      then show ?thesis
        using upload_steps(2) [of p path l "MaxFileBytes cfg" "Readonly cfg"] both by (force simp: planner_defs)
    qed
  qed
qed

section \<open>The plan as a whole\<close>

text \<open>The entries the plan is made against: none when the persisted state is missing or empty.\<close>

definition plan_entries :: "SyncState option \<Rightarrow> SyncEntry gomap" where
  "plan_entries snap = (case snap of None \<Rightarrow> [] | Some st \<Rightarrow> st_entries st)"

text \<open>What a finished plan guarantees.\<close>

definition plan_ok ::
  "mount_config \<Rightarrow> mount_io \<Rightarrow> int \<Rightarrow> observedMeta gomap \<Rightarrow> observedMeta gomap \<Rightarrow> SyncEntry gomap \<Rightarrow> mountReconcilePlan \<Rightarrow> bool" where
  "plan_ok cfg io now localm remote entries p \<longleftrightarrow>
     (\<forall>c. code_count c p = length (filter (\<lambda>o1. o_code o1 = c) (Operations p))) \<and>
     list_all (justified_op cfg localm remote entries) (Operations p) \<and>
     distinct (map o_path (Operations p)) \<and> (\<forall>o1\<in>set (Operations p). on_a_side localm remote (o_path o1)) \<and>
     SameCount p + length (Operations p) = card (dom (map_of localm) \<union> dom (map_of remote)) \<and>
     (\<forall>(q, e)\<in>set (Baseline p). baseline_ok io now localm remote q e) \<and>
     (hasReportableChanges p \<longleftrightarrow> Operations p \<noteq> [])"

lemma filter_present_card:
  assumes "distinct ps" "dom (map_of localm) \<union> dom (map_of remote) \<subseteq> set ps"
  shows "length (filter (on_a_side localm remote) ps) = card (dom (map_of localm) \<union> dom (map_of remote))"
proof -
  have "set (filter (on_a_side localm remote) ps) = dom (map_of localm) \<union> dom (map_of remote)"
    using assms(2) by (auto simp: on_a_side_def)
  then show ?thesis
    using distinct_card [of "filter (on_a_side localm remote) ps"] assms(1) by simp
qed

lemma code_count_empty: "code_count c (empty_plan a b) = 0"
  "code_count c ((empty_plan a b)\<lparr>StateCount := x, StateLiveCount := y, StateDeletedCount := z\<rparr>) = 0"
  by (cases c; simp add: empty_plan_def)+

lemma initial_plan_ok:
  assumes "fold_plan (initial_step cfg io now localm remote) (sortedMountReconcilePaths localm remote) p0 = Inr p"
    "Operations p0 = []" "SameCount p0 = 0" "Baseline p0 = []" "\<And>c. code_count c p0 = 0"
  shows "plan_ok cfg io now localm remote [] p"
proof -
  have "distinct (sortedMountReconcilePaths localm remote)"
    by (simp add: sortedMountReconcilePaths_def)
  note inv = initial_planner.plan_correct(1) [OF assms(1) this assms(2-5)]
  show ?thesis
    using filter_present_card [of "sortedMountReconcilePaths localm remote" localm remote] inv initial_planner.reportable [OF inv]
    by (auto simp: plan_ok_def initial_planner.plan_inv_def sortedMountReconcilePaths_def dom_map_of_conv_image_fst)
qed

lemma known_plan_ok:
  assumes "buildKnownMountReconcilePlan cfg io now localm remote st p0 = Inr p"
    "Operations p0 = []" "SameCount p0 = 0" "Baseline p0 = []" "\<And>c. code_count c p0 = 0"
  shows "plan_ok cfg io now localm remote (st_entries st) p"
proof -
  let ?ps = "sortedKnownMountReconcilePaths localm remote (st_entries st)"
  have "distinct ?ps"
    by (simp add: sortedKnownMountReconcilePaths_def)
  note inv = known_planner.plan_correct(1) [OF assms(1) [unfolded buildKnownMountReconcilePlan_def] this assms(2-5)]
  show ?thesis
    using filter_present_card [of ?ps localm remote] inv known_planner.reportable [OF inv]
    by (auto simp: plan_ok_def known_planner.plan_inv_def sortedKnownMountReconcilePaths_def dom_map_of_conv_image_fst)
qed

lemma build_plan_ok:
  assumes "buildMountReconcilePlan cfg io now localm remote snap = Inr p"
  shows "plan_ok cfg io now localm remote (plan_entries snap) p"
proof (cases "plan_entries snap = []")
  case True
  then obtain p0 where "fold_plan (initial_step cfg io now localm remote) (sortedMountReconcilePaths localm remote) p0 = Inr p"
      "Operations p0 = []" "SameCount p0 = 0" "Baseline p0 = []" "\<And>c. code_count c p0 = 0"
    using assms code_count_empty
    by (cases snap) (auto simp: buildMountReconcilePlan_def Let_def plan_entries_def empty_plan_def split: prod.splits)
  then show ?thesis
    using True initial_plan_ok by simp
next
  case False
  then obtain st p0 where "snap = Some st" "buildKnownMountReconcilePlan cfg io now localm remote st p0 = Inr p"
      "Operations p0 = []" "SameCount p0 = 0" "Baseline p0 = []" "\<And>c. code_count c p0 = 0"
    using assms code_count_empty
    by (cases snap) (auto simp: buildMountReconcilePlan_def Let_def plan_entries_def empty_plan_def split: prod.splits)
  then show ?thesis
    using known_plan_ok [of cfg io now localm remote st p0 p] by (simp add: plan_entries_def)
qed

section \<open>Properties\<close>

lemma justified_of:
  assumes "plan_ok cfg io now localm remote entries p" "o1 \<in> set (Operations p)"
  shows "justified_op cfg localm remote entries o1"
  using assms by (auto simp: plan_ok_def list_all_iff)

text \<open>
  C33. The mount plan accounts for every path. Each counter of the plan is the number of its
  operations with that code, no path has two operations, every operation is of a path present on a
  side, the unchanged paths and the operations together are all paths present on either side, and
  the plan counts as changing something exactly when it has an operation.
\<close>

theorem mount_plan_complete:
  assumes "buildMountReconcilePlan cfg io now localm remote snap = Inr p"
  shows "(\<forall>c. code_count c p = length (filter (\<lambda>o1. o_code o1 = c) (Operations p))) \<and>
    distinct (map o_path (Operations p)) \<and>
    (\<forall>o1\<in>set (Operations p). map_of localm (o_path o1) \<noteq> None \<or> map_of remote (o_path o1) \<noteq> None) \<and>
    SameCount p + length (Operations p) = card (dom (map_of localm) \<union> dom (map_of remote)) \<and>
    (hasReportableChanges p \<longleftrightarrow> Operations p \<noteq> [])"
  using build_plan_ok [OF assms] unfolding plan_ok_def on_a_side_def by blast

text \<open>
  C32. The mount plan is safe about deletions and pushes. A read-only mount plans no import, no upload
  and no deletion in the workspace. A deletion in the workspace is planned only for a path that is
  gone locally, is known to the sync state, and is either a recorded local deletion that hides no
  live descendants or unchanged in the workspace since the last sync; a local deletion only for a
  path the workspace lacks and the state records as live. Without sync state nothing is deleted.
\<close>

theorem mount_plan_deletes_safe:
  assumes "buildMountReconcilePlan cfg io now localm remote snap = Inr p" "o1 \<in> set (Operations p)"
  shows "(Readonly cfg \<longrightarrow> o_code o1 \<notin> {OpI, OpU, OpDR}) \<and>
    (o_code o1 = OpDR \<longrightarrow> map_of localm (o_path o1) = None \<and>
       (\<exists>rm e. map_of remote (o_path o1) = Some rm \<and> map_of (plan_entries snap) (o_path o1) = Some e \<and>
          (if s_deleted e then \<not> (m_kind rm = ''dir'' \<and> mountRemoteDirHasLiveDescendants (o_path o1) remote (plan_entries snap))
           else \<not> observedChangedFromStored rm e False))) \<and>
    (o_code o1 = OpDL \<longrightarrow> map_of remote (o_path o1) = None \<and>
       (\<exists>e. map_of (plan_entries snap) (o_path o1) = Some e \<and> \<not> s_deleted e)) \<and>
    (plan_entries snap = [] \<longrightarrow> o_code o1 \<notin> {OpDL, OpDR})"
  using justified_of [OF build_plan_ok [OF assms(1)] assms(2)]
  by (cases "o_code o1") (auto simp: justified_op_def Let_def)

definition sample_meta :: "string \<Rightarrow> int \<Rightarrow> observedMeta" where
  "sample_meta kind sz = \<lparr>m_kind = kind, m_mode = 420, m_size = sz, m_mtime = 5, m_mtimens = 0, m_target = []\<rparr>"

definition sample_io :: mount_io where
  "sample_io = \<lparr>read_local = (\<lambda>_. Some ''x''), cat_remote = (\<lambda>_. Some ''x''), sha256Hex = (\<lambda>s. s)\<rparr>"

definition sample_snap :: SyncState where
  "sample_snap = sample_state\<lparr>st_entries := [(''b'', zero_entry\<lparr>s_type := ''file'', s_size := 1\<rparr>)]\<rparr>"

definition sample_plan :: mountReconcilePlan where
  "sample_plan =
     (case buildMountReconcilePlan \<lparr>MaxFileBytes = 0, Readonly = False\<rparr> sample_io 9
             [(''a'', sample_meta ''file'' 1)] [(''a'', sample_meta ''file'' 1), (''b'', sample_meta ''file'' 1)] (Some sample_snap) of
        Inl _ \<Rightarrow> empty_plan 0 0
      | Inr p \<Rightarrow> p)"

lemma sample_plan_built:
  "buildMountReconcilePlan \<lparr>MaxFileBytes = 0, Readonly = False\<rparr> sample_io 9
     [(''a'', sample_meta ''file'' 1)] [(''a'', sample_meta ''file'' 1), (''b'', sample_meta ''file'' 1)] (Some sample_snap) =
   Inr sample_plan"
  by code_simp

lemma sample_plan_ops:
  "Operations sample_plan = [\<lparr>o_code = OpDR, o_path = ''b'', o_kind = ''file'', o_details = LocalDeleted\<rparr>]"
  "map fst (Baseline sample_plan) = [''a'']"
  by code_simp+

theorem mount_plan_complete_witness:
  "SameCount sample_plan + length (Operations sample_plan) = 2 \<and> hasReportableChanges sample_plan"
proof -
  have "dom (map_of [(''a'', sample_meta ''file'' 1)]) \<union>
      dom (map_of [(''a'', sample_meta ''file'' 1), (''b'', sample_meta ''file'' 1)]) = {''a'', ''b''}"
    by auto
  moreover have "card {''a'', ''b''} = 2"
    by simp
  ultimately show ?thesis
    using mount_plan_complete [OF sample_plan_built] by (simp only: sample_plan_ops) simp
qed

theorem mount_plan_deletes_safe_witness:
  "\<exists>o1\<in>set (Operations sample_plan). o_code o1 = OpDR \<and>
     map_of [(''a'', sample_meta ''file'' 1)] (o_path o1) = None"
  using mount_plan_deletes_safe [OF sample_plan_built, of "\<lparr>o_code = OpDR, o_path = ''b'', o_kind = ''file'', o_details = LocalDeleted\<rparr>"]
  by (simp add: sample_plan_ops)

text \<open>The recorded baseline is what both sides showed.\<close>

lemma baseline_unchanged:
  assumes "mountBaselineEntry io path l r now = Inr (e, True, d)"
  shows "\<not> observedChangedFromStored r (e\<lparr>s_version := v\<rparr>) False"
    "m_kind l \<noteq> ''dir'' \<or> m_mode l = m_mode r \<Longrightarrow> \<not> observedChangedFromStored l (e\<lparr>s_version := v\<rparr>) True"
    "m_kind l = ''file'' \<Longrightarrow> \<exists>a b. read_local io path = Some a \<and> cat_remote io path = Some b \<and>
       sha256Hex io a = sha256Hex io b \<and> s_lhash e = sha256Hex io a \<and> s_rhash e = sha256Hex io b"
  using assms
  by (auto simp: mountBaselineEntry_def observedChangedFromStored_def zero_entry_def Let_def split: if_splits option.splits)

lemma fold_put_entry:
  "\<exists>e v. map_of (st_entries (fold (\<lambda>(path, e). put_entry path e) b s)) q = Some (e\<lparr>s_version := v\<rparr>) \<and> (q, e) \<in> set b"
  if "q \<in> fst ` set b"
  using that
proof (induction b rule: rev_induct)
  case (snoc x b)
  then show ?case
    by (cases "fst x = q"; cases x; force)
qed simp

text \<open>
  C34. Approving a plan records a baseline that the next plan trusts. For every path of the plan's
  baseline both sides were observed to agree, a file by the digests of its bytes; after the approval
  the sync state has an entry for the path against which the workspace side is unchanged, and the
  local side as well unless it is a directory whose permissions differ between the sides.
\<close>

theorem mount_baseline_trusted:
  assumes "buildMountReconcilePlan cfg io now localm remote snap = Inr p" "path \<in> fst ` set (Baseline p)"
  shows "\<exists>l r e. map_of localm path = Some l \<and> map_of remote path = Some r \<and> m_kind l = m_kind r \<and>
    map_of (st_entries (w_state (approveMountReconcilePlan p w))) path = Some e \<and>
    \<not> observedChangedFromStored r e False \<and>
    (m_kind l \<noteq> ''dir'' \<or> m_mode l = m_mode r \<longrightarrow> \<not> observedChangedFromStored l e True) \<and>
    (m_kind l = ''file'' \<longrightarrow> (\<exists>a b. read_local io path = Some a \<and> cat_remote io path = Some b \<and>
       sha256Hex io a = sha256Hex io b \<and> s_lhash e = sha256Hex io a))"
proof -
  have "w_state (approveMountReconcilePlan p w) = fold (\<lambda>(path, e). put_entry path e) (Baseline p) (w_state w)"
    using assms(2) by (auto simp: approveMountReconcilePlan_def)
  then obtain e v where e: "map_of (st_entries (w_state (approveMountReconcilePlan p w))) path = Some (e\<lparr>s_version := v\<rparr>)"
      "(path, e) \<in> set (Baseline p)"
    using fold_put_entry [OF assms(2), of "w_state w"] by metis
  then have "baseline_ok io now localm remote path e"
    using build_plan_ok [OF assms(1)] by (auto simp: plan_ok_def)
  then obtain l r d where lr: "map_of localm path = Some l" "map_of remote path = Some r"
      "mountBaselineEntry io path l r now = Inr (e, True, d)"
    by (auto simp: baseline_ok_def)
  have "m_kind l = m_kind r"
    using lr(3) by (auto simp: mountBaselineEntry_def split: if_splits)
  then show ?thesis
    using lr e(1) baseline_unchanged(1,2) [OF lr(3), of v] baseline_unchanged(3) [OF lr(3)] by auto
qed

theorem mount_baseline_trusted_witness:
  "\<exists>e. map_of (st_entries (w_state (approveMountReconcilePlan sample_plan (newStateWriter sample_state None)))) ''a'' = Some e \<and>
     \<not> observedChangedFromStored (sample_meta ''file'' 1) e True"
proof -
  have "''a'' \<in> fst ` set (Baseline sample_plan)"
    using sample_plan_ops(2) by (metis image_set list.set_intros(1))
  from mount_baseline_trusted [OF sample_plan_built this, of "newStateWriter sample_state None"]
  show ?thesis
    by (auto simp: sample_meta_def)
qed

text \<open>
  A directory counts as the same on both sides whatever its permissions; the recorded entry then has
  the workspace's permissions, and the next plan takes the local directory for changed.
\<close>

lemma mount_baseline_dir_mode:
  "mountBaselineEntry io path (sample_meta ''dir'' 0) ((sample_meta ''dir'' 0)\<lparr>m_mode := 493\<rparr>) now = Inr (e, True, d) \<Longrightarrow>
   observedChangedFromStored (sample_meta ''dir'' 0) e True"
  by (auto simp: mountBaselineEntry_def observedChangedFromStored_def sample_meta_def zero_entry_def)

end
