(* ===== verification/Full_Plan.thy ===== *)
theory Full_Plan
  imports Mount_Plan
begin

text \<open>
  The recovery scan of the sync daemon (\<open>src/cmd/afs/sync_full_reconciler.go\<close>,
  \<open>sync_recovery_plan.go\<close>): stamping of offline deletions, the three-way plan over the local tree,
  the workspace and the sync state, the order of its execution, the guards that reject a plan whose
  observations are obsolete, and the tracking of uploads in flight. The scans themselves, the remote
  Stat and the local Lstat are arguments. The plan names a path; its absolute local path is the
  mount root joined with it. The lemmas show which actions a plan can contain, that it never
  overwrites a side that changed without a conflict copy, that read-only mounts do not write to the
  workspace, and that no deferred scan is forgotten.
\<close>

unbundle bit_operations_syntax

section \<open>The reconciler\<close>

record pendingSyncUpload =
  p_count :: int
  p_rescan :: bool

record recon =
  rc_writer :: stateWriter
  rc_pending :: "pendingSyncUpload gomap"
  rc_sweep :: bool

datatype action_kind =
    Download | Upload | MkdirLocal | MkdirRemote | DeleteLocal | DeleteRemote | SymlinkDownload | SymlinkUpload

record syncAction =
  a_kind :: action_kind
  a_path :: string
  a_mode :: nat
  a_target :: string
  a_conflict :: bool
  a_local :: "observedMeta option"
  a_remote :: "observedMeta option"
  a_check :: bool
  a_stored :: "SyncEntry option"

datatype stat_answer = StatFound | StatMissing | StatError

record scan_env =
  env_readonly :: bool
  env_stat :: "string \<Rightarrow> stat_answer"
  env_now :: int

abbreviation rc_entries :: "recon \<Rightarrow> SyncEntry gomap" where
  "rc_entries rc \<equiv> st_entries (w_state (rc_writer rc))"

definition requestFullSweep :: "recon \<Rightarrow> recon" where
  "requestFullSweep rc = rc\<lparr>rc_sweep := True\<rparr>"

definition update_state :: "(SyncState \<Rightarrow> SyncState) \<Rightarrow> recon \<Rightarrow> recon" where
  "update_state f rc = rc\<lparr>rc_writer := (rc_writer rc)\<lparr>w_state := f (w_state (rc_writer rc)), w_dirty := True\<rparr>\<rparr>"

definition updateState :: "string \<Rightarrow> SyncEntry \<Rightarrow> recon \<Rightarrow> recon" where
  "updateState path entry rc = update_state (put_entry path entry) rc"

section \<open>Uploads in flight\<close>

definition bump_pending :: "string \<Rightarrow> recon \<Rightarrow> recon" where
  "bump_pending path rc =
     (let p = (case map_of (rc_pending rc) path of None \<Rightarrow> \<lparr>p_count = 0, p_rescan = False\<rparr> | Some p \<Rightarrow> p)
      in rc\<lparr>rc_pending := mset_key path (p\<lparr>p_count := p_count p + 1\<rparr>) (rc_pending rc)\<rparr>)"

definition deferScanForPendingUpload :: "string \<Rightarrow> recon \<Rightarrow> bool \<times> recon" where
  "deferScanForPendingUpload path rc =
     (case map_of (rc_pending rc) path of
        None \<Rightarrow> (False, rc)
      | Some p \<Rightarrow> (True, rc\<lparr>rc_pending := mset_key path (p\<lparr>p_rescan := True\<rparr>) (rc_pending rc)\<rparr>))"

definition finishPendingUpload :: "string \<Rightarrow> recon \<Rightarrow> recon" where
  "finishPendingUpload path rc =
     (case map_of (rc_pending rc) path of
        None \<Rightarrow> rc
      | Some p \<Rightarrow>
          let p' = p\<lparr>p_count := p_count p - 1\<rparr>;
              rc' = (if p_count p' = 0 then rc\<lparr>rc_pending := mdelete path (rc_pending rc)\<rparr>
                     else rc\<lparr>rc_pending := mset_key path p' (rc_pending rc)\<rparr>)
          in if p_count p' = 0 \<and> p_rescan p' then requestFullSweep rc' else rc')"

text \<open>
  An upload operation, as far as the tracking reads it; \<open>queued\<close> tells whether the bounded upload
  queue took it.
\<close>

record uploadOp =
  u_path :: string
  u_rename :: bool
  u_prev :: string
  u_version :: "64 word"

definition discardPendingRename :: "uploadOp \<Rightarrow> recon \<Rightarrow> recon" where
  "discardPendingRename op rc =
     (if \<not> u_rename op then rc
      else
        let rc' = (case map_of (rc_entries rc) (u_path op) of
                     None \<Rightarrow> rc
                   | Some e \<Rightarrow>
                       if \<not> s_deleted e \<and> u_version op \<noteq> 0 \<and> s_version e = u_version op
                       then update_state (\<lambda>s. s\<lparr>st_entries := mdelete (u_path op) (st_entries s)\<rparr>) rc
                       else rc)
        in rc'\<lparr>rc_writer := markDirty (rc_writer rc')\<rparr>)"

definition enqueueTrackedUpload :: "bool \<Rightarrow> uploadOp \<Rightarrow> recon \<Rightarrow> recon" where
  "enqueueTrackedUpload queued op rc =
     (let rc = bump_pending (u_path op) rc;
          rc = (if u_rename op \<and> u_prev op \<noteq> [] then bump_pending (u_prev op) rc else rc)
      in if queued then rc
         else
           let rc = discardPendingRename op rc;
               rc = finishPendingUpload (u_path op) rc;
               rc = (if u_rename op \<and> u_prev op \<noteq> [] then finishPendingUpload (u_prev op) rc else rc)
           in requestFullSweep rc)"

section \<open>Tombstones\<close>

text \<open>One entry of \<open>detectOfflineDeletes\<close>; \<open>gone\<close> is \<open>os.IsNotExist\<close> of a fresh Lstat.\<close>

definition offline_entry ::
  "bool \<Rightarrow> int \<Rightarrow> (string \<Rightarrow> bool) \<Rightarrow> observedMeta gomap \<Rightarrow> string \<times> SyncEntry \<Rightarrow> recon \<Rightarrow> recon" where
  "offline_entry readonly now gone localm pe rc =
     (let (path, entry) = pe
      in if readonly then
           (if s_deleted entry then updateState path (entry\<lparr>s_deleted := False\<rparr>) rc else rc)
         else if s_deleted entry then rc
         else if map_of localm path \<noteq> None then rc
         else if \<not> gone path then rc
         else updateState path (entry\<lparr>s_deleted := True, s_synced := now\<rparr>) rc)"

definition detectOfflineDeletes ::
  "bool \<Rightarrow> int \<Rightarrow> (string \<Rightarrow> bool) \<Rightarrow> observedMeta gomap \<Rightarrow> recon \<Rightarrow> recon" where
  "detectOfflineDeletes readonly now gone localm rc =
     fold (offline_entry readonly now gone localm) (rc_entries rc) rc"

text \<open>Five minutes, with times in seconds.\<close>

definition tombstone_max_age :: int where "tombstone_max_age = 300"

definition cleanupTombstones :: "int \<Rightarrow> recon \<Rightarrow> recon" where
  "cleanupTombstones now rc =
     (let old = (\<lambda>(path, e). s_deleted e \<and> now - s_synced e > tombstone_max_age)
      in if list_ex old (rc_entries rc)
         then update_state (\<lambda>s. s\<lparr>st_entries := filter (\<lambda>pe. \<not> old pe) (st_entries s)\<rparr>) rc
         else rc)"

section \<open>Planning\<close>

definition metaMatch :: "observedMeta \<Rightarrow> observedMeta \<Rightarrow> SyncEntry option \<Rightarrow> bool" where
  "metaMatch l r st =
     (if m_kind l \<noteq> m_kind r then False
      else if m_kind l = ''dir'' then m_mode l = m_mode r
      else if m_kind l = ''symlink'' then m_target l = m_target r
      else if m_kind l = ''file'' then
        (if m_size l \<noteq> m_size r \<or> m_mode l \<noteq> m_mode r then False
         else
           case st of
             None \<Rightarrow> False
           | Some stored \<Rightarrow>
               s_size stored = m_size l \<and> m_mtime l = s_lmtime stored \<and> m_mtime r = s_rmtime stored)
      else False)"

definition targetFromMeta :: "observedMeta \<Rightarrow> observedMeta \<Rightarrow> string" where
  "targetFromMeta l r =
     (if m_kind l = ''symlink'' then m_target l else if m_kind r = ''symlink'' then m_target r else [])"

definition refreshStateMeta ::
  "int \<Rightarrow> string \<Rightarrow> observedMeta \<Rightarrow> observedMeta \<Rightarrow> SyncEntry option \<Rightarrow> recon \<Rightarrow> recon" where
  "refreshStateMeta now rel l r stored rc =
     (let cur = map_of (rc_entries rc) rel
      in if (cur \<noteq> None) \<noteq> (stored \<noteq> None) \<or> (cur \<noteq> None \<and> s_version (the cur) \<noteq> s_version (the stored))
         then requestFullSweep rc
         else
           let entry = (case cur of None \<Rightarrow> zero_entry | Some e \<Rightarrow> e)
           in updateState rel
                (entry\<lparr>s_deleted := False, s_type := m_kind l, s_mode := m_mode l, s_size := m_size l,
                   s_lmtime := m_mtime l, s_rmtime := m_mtime r, s_target := targetFromMeta l r, s_synced := now\<rparr>) rc)"

definition new_action :: "action_kind \<Rightarrow> string \<Rightarrow> syncAction" where
  "new_action kind path =
     \<lparr>a_kind = kind, a_path = path, a_mode = 0, a_target = [], a_conflict = False, a_local = None, a_remote = None,
      a_check = False, a_stored = None\<rparr>"

definition planUpload :: "bool \<Rightarrow> string \<Rightarrow> observedMeta \<Rightarrow> syncAction list" where
  "planUpload readonly path l =
     (if readonly then []
      else if m_kind l = ''dir'' then [(new_action MkdirRemote path)\<lparr>a_mode := m_mode l\<rparr>]
      else if m_kind l = ''symlink'' then [(new_action SymlinkUpload path)\<lparr>a_target := m_target l\<rparr>]
      else if m_kind l = ''file'' then [(new_action Upload path)\<lparr>a_mode := m_mode l, a_local := Some l\<rparr>]
      else [])"

definition planDownload :: "string \<Rightarrow> observedMeta \<Rightarrow> bool \<Rightarrow> syncAction" where
  "planDownload path r conflict =
     (if m_kind r = ''dir'' then (new_action MkdirLocal path)\<lparr>a_mode := m_mode r, a_remote := Some r\<rparr>
      else if m_kind r = ''symlink'' then
        (new_action SymlinkDownload path)\<lparr>a_target := m_target r, a_conflict := conflict, a_remote := Some r\<rparr>
      else (new_action Download path)\<lparr>a_mode := m_mode r, a_conflict := conflict, a_remote := Some r\<rparr>)"

text \<open>The permissions without the write bits, \<open>mode &^ 0o222\<close>; 0o222 is 146.\<close>

definition clear_write :: "nat \<Rightarrow> nat" where
  "clear_write mode = mode - (mode AND 146)"

definition comparison_remote :: "bool \<Rightarrow> observedMeta \<Rightarrow> observedMeta" where
  "comparison_remote readonly r =
     (if readonly \<and> m_kind r = ''file'' then r\<lparr>m_mode := clear_write (m_mode r)\<rparr> else r)"

definition plan_both ::
  "scan_env \<Rightarrow> SyncEntry option \<Rightarrow> observedMeta \<Rightarrow> observedMeta \<Rightarrow> string \<Rightarrow> recon \<Rightarrow> recon \<times> syncAction list" where
  "plan_both env stored l r path rc =
     (let cr = comparison_remote (env_readonly env) r
      in if metaMatch l cr stored then (refreshStateMeta (env_now env) path l r stored rc, [])
         else
           case stored of
             Some e \<Rightarrow>
               if \<not> s_deleted e then
                 (let localChanged = observedChangedFromStored l e True \<or> m_mode l \<noteq> s_mode e;
                      remoteChanged = observedChangedFromStored cr e False \<or> m_mode cr \<noteq> s_mode e
                  in if localChanged \<and> \<not> remoteChanged then
                       (if env_readonly env then (rc, [planDownload path r True])
                        else (rc, planUpload (env_readonly env) path l))
                     else if \<not> localChanged \<and> remoteChanged then (rc, [planDownload path r False])
                     else if localChanged \<and> remoteChanged then (rc, [planDownload path r True])
                     else (refreshStateMeta (env_now env) path l r stored rc, []))
               else (rc, [planDownload path r True])
           | None \<Rightarrow> (rc, [planDownload path r True]))"

definition plan_local_only ::
  "scan_env \<Rightarrow> SyncEntry option \<Rightarrow> observedMeta \<Rightarrow> string \<Rightarrow> recon \<Rightarrow> recon \<times> syncAction list" where
  "plan_local_only env stored l path rc =
     (case stored of
        Some e \<Rightarrow>
          if s_deleted e then (rc, planUpload (env_readonly env) path l)
          else
            (case env_stat env path of
               StatFound \<Rightarrow> (rc, [])
             | StatError \<Rightarrow> (requestFullSweep rc, [])
             | StatMissing \<Rightarrow> (rc, [new_action DeleteLocal path]))
      | None \<Rightarrow> (rc, planUpload (env_readonly env) path l))"

definition plan_remote_only ::
  "observedMeta gomap \<Rightarrow> SyncEntry option \<Rightarrow> observedMeta \<Rightarrow> string \<Rightarrow> recon \<Rightarrow> syncAction list" where
  "plan_remote_only remote stored r path rc =
     (case stored of
        Some e \<Rightarrow>
          if s_deleted e then
            (if m_kind r = ''dir'' \<and> mountRemoteDirHasLiveDescendants path remote (rc_entries rc)
             then [planDownload path r False]
             else [new_action DeleteRemote path])
          else [planDownload path r False]
      | None \<Rightarrow> [planDownload path r False])"

definition plan_path ::
  "scan_env \<Rightarrow> SyncEntry gomap \<Rightarrow> observedMeta gomap \<Rightarrow> observedMeta gomap \<Rightarrow> string \<Rightarrow> recon \<Rightarrow> recon \<times> syncAction list" where
  "plan_path env baseline localm remote path rc =
     (let (deferred, rc) = deferScanForPendingUpload path rc
      in if deferred then (rc, [])
         else
           case (map_of localm path, map_of remote path) of
             (Some l, None) \<Rightarrow> plan_local_only env (map_of baseline path) l path rc
           | (None, Some r) \<Rightarrow> (rc, plan_remote_only remote (map_of baseline path) r path rc)
           | (Some l, Some r) \<Rightarrow> plan_both env (map_of baseline path) l r path rc
           | (None, None) \<Rightarrow> (rc, []))"

fun plan_paths ::
  "scan_env \<Rightarrow> SyncEntry gomap \<Rightarrow> observedMeta gomap \<Rightarrow> observedMeta gomap \<Rightarrow> string list \<Rightarrow> recon \<Rightarrow>
     recon \<times> syncAction list" where
  "plan_paths env baseline localm remote [] rc = (rc, [])"
| "plan_paths env baseline localm remote (p # ps) rc =
     (let (rc1, as) = plan_path env baseline localm remote p rc;
          (rc2, bs) = plan_paths env baseline localm remote ps rc1
      in (rc2, as @ bs))"

text \<open>The last loop of \<open>buildPlan\<close>: every action carries the observations it was made from.\<close>

definition bind_action ::
  "SyncEntry gomap \<Rightarrow> observedMeta gomap \<Rightarrow> observedMeta gomap \<Rightarrow> syncAction \<Rightarrow> syncAction" where
  "bind_action baseline localm remote a =
     a\<lparr>a_check := True, a_stored := map_of baseline (a_path a),
       a_local := (case map_of localm (a_path a) of None \<Rightarrow> a_local a | Some l \<Rightarrow> Some l),
       a_remote := (case map_of remote (a_path a) of None \<Rightarrow> a_remote a | Some r \<Rightarrow> Some r)\<rparr>"

definition buildPlan ::
  "scan_env \<Rightarrow> observedMeta gomap \<Rightarrow> observedMeta gomap \<Rightarrow> recon \<Rightarrow> recon \<times> syncAction list" where
  "buildPlan env localm remote rc =
     (let baseline = rc_entries rc;
          (rc', plan) = plan_paths env baseline localm remote (remdups (map fst localm @ map fst remote)) rc
      in (rc', map (bind_action baseline localm remote) plan))"

text \<open>\<open>warmStart\<close> up to the execution of the plan, with both scans done.\<close>

definition warm_plan ::
  "scan_env \<Rightarrow> (string \<Rightarrow> bool) \<Rightarrow> observedMeta gomap \<Rightarrow> observedMeta gomap \<Rightarrow> recon \<Rightarrow> recon \<times> syncAction list" where
  "warm_plan env gone localm remote rc =
     buildPlan env localm remote (detectOfflineDeletes (env_readonly env) (env_now env) gone localm rc)"

section \<open>Execution\<close>

definition is_dir_action :: "syncAction \<Rightarrow> bool" where
  "is_dir_action a \<longleftrightarrow> a_kind a = MkdirLocal \<or> a_kind a = MkdirRemote"

definition is_delete_action :: "syncAction \<Rightarrow> bool" where
  "is_delete_action a \<longleftrightarrow> a_kind a = DeleteLocal \<or> a_kind a = DeleteRemote"

definition depth_key :: "syncAction \<Rightarrow> nat \<times> string" where
  "depth_key a = (slash_count (a_path a), a_path a)"

definition dirActions :: "syncAction list \<Rightarrow> syncAction list" where
  "dirActions plan = sort_key depth_key (filter is_dir_action plan)"

text \<open>A stable sort by the reversed order.\<close>

definition deleteActions :: "syncAction list \<Rightarrow> syncAction list" where
  "deleteActions plan = rev (sort_key depth_key (rev (filter is_delete_action plan)))"

definition fileActions :: "syncAction list \<Rightarrow> syncAction list" where
  "fileActions plan = filter (\<lambda>a. \<not> is_dir_action a \<and> \<not> is_delete_action a) plan"

text \<open>What the execution of an action re-reads of the local path.\<close>

record local_info =
  li_kind :: string
  li_mode :: nat
  li_size :: int
  li_mtime :: int
  li_mtimens :: int
  li_target :: string

definition local_current :: "observedMeta option \<Rightarrow> local_info option \<Rightarrow> bool" where
  "local_current lm info =
     (case lm of
        None \<Rightarrow> info = None
      | Some l \<Rightarrow>
          case info of
            None \<Rightarrow> False
          | Some i \<Rightarrow>
              if m_kind l = ''file'' then
                li_kind i = ''file'' \<and> li_size i = m_size l \<and> li_mode i = m_mode l \<and> li_mtime i = m_mtime l \<and>
                (m_mtimens l \<noteq> 0 \<longrightarrow> li_mtimens i = m_mtimens l)
              else if m_kind l = ''dir'' then li_kind i = ''dir'' \<and> li_mode i = m_mode l
              else if m_kind l = ''symlink'' then li_kind i = ''symlink'' \<and> li_target i = m_target l
              else True)"

definition version_current :: "syncAction \<Rightarrow> recon \<Rightarrow> bool" where
  "version_current a rc =
     (let cur = map_of (rc_entries rc) (a_path a)
      in (cur \<noteq> None) = (a_stored a \<noteq> None) \<and> (cur = None \<or> s_version (the cur) = s_version (the (a_stored a))))"

definition actionStillCurrent :: "(string \<Rightarrow> local_info option) \<Rightarrow> syncAction \<Rightarrow> recon \<Rightarrow> bool \<times> recon" where
  "actionStillCurrent lstat a rc =
     (if \<not> a_check a then (True, rc)
      else
        let (deferred, rc) = deferScanForPendingUpload (a_path a) rc
        in if deferred then (False, rc)
           else
             let current = version_current a rc \<and> local_current (a_local a) (lstat (a_path a))
             in (current, if current then rc else requestFullSweep rc))"

definition updateActionState :: "syncAction \<Rightarrow> SyncEntry \<Rightarrow> recon \<Rightarrow> recon" where
  "updateActionState a entry rc =
     (if a_check a \<and> \<not> version_current a rc then requestFullSweep rc
      else updateState (a_path a) entry rc)"

section \<open>The actions a plan can contain\<close>

definition local_changed :: "observedMeta \<Rightarrow> SyncEntry \<Rightarrow> bool" where
  "local_changed l e \<longleftrightarrow> observedChangedFromStored l e True \<or> m_mode l \<noteq> s_mode e"

definition remote_changed :: "bool \<Rightarrow> observedMeta \<Rightarrow> SyncEntry \<Rightarrow> bool" where
  "remote_changed readonly r e \<longleftrightarrow>
     observedChangedFromStored (comparison_remote readonly r) e False \<or> m_mode (comparison_remote readonly r) \<noteq> s_mode e"

text \<open>What an action presupposes: \<open>l\<close>, \<open>r\<close> and \<open>s\<close> are the path's local, remote and stored records.\<close>

definition justified_action ::
  "scan_env \<Rightarrow> observedMeta option \<Rightarrow> observedMeta option \<Rightarrow> SyncEntry option \<Rightarrow> syncAction \<Rightarrow> bool" where
  "justified_action env l r s a \<longleftrightarrow>
     (if a_kind a \<in> {Upload, MkdirRemote, SymlinkUpload} then
        \<not> env_readonly env \<and> l \<noteq> None \<and>
        (case r of
           None \<Rightarrow> (case s of None \<Rightarrow> True | Some e \<Rightarrow> s_deleted e)
         | Some rm \<Rightarrow> (\<exists>e. s = Some e \<and> \<not> s_deleted e \<and> \<not> remote_changed (env_readonly env) rm e))
      else if a_kind a = DeleteLocal then
        l \<noteq> None \<and> r = None \<and> (\<exists>e. s = Some e \<and> \<not> s_deleted e) \<and> env_stat env (a_path a) = StatMissing
      else if a_kind a = DeleteRemote then l = None \<and> r \<noteq> None \<and> (\<exists>e. s = Some e \<and> s_deleted e)
      else
        r \<noteq> None \<and>
        (case l of
           None \<Rightarrow> True
         | Some lm \<Rightarrow> a_conflict a \<or> a_kind a = MkdirLocal \<or>
             (\<exists>e. s = Some e \<and> \<not> s_deleted e \<and> \<not> local_changed lm e)))"

lemma planUpload_elem:
  "a \<in> set (planUpload ro path l) \<Longrightarrow> \<not> ro \<and> a_path a = path \<and> a_kind a \<in> {Upload, MkdirRemote, SymlinkUpload}"
  by (auto simp: planUpload_def new_action_def split: if_splits)

lemma planDownload_elem:
  "a_path (planDownload path r c) = path"
  "a_kind (planDownload path r c) \<in> {Download, MkdirLocal, SymlinkDownload}"
  "a_kind (planDownload path r c) = MkdirLocal \<or> a_conflict (planDownload path r c) = c"
  by (auto simp: planDownload_def new_action_def)

lemma plan_local_only_justified:
  assumes "a \<in> set (snd (plan_local_only env s l path rc))"
  shows "a_path a = path \<and> justified_action env (Some l) None s a"
  using assms planUpload_elem [of a "env_readonly env" path l]
  by (auto simp: plan_local_only_def justified_action_def new_action_def split: option.splits stat_answer.splits if_splits)

lemma plan_remote_only_justified:
  assumes "a \<in> set (plan_remote_only remote s r path rc)"
  shows "a_path a = path \<and> justified_action env None (Some r) s a"
  using assms planDownload_elem [of path r False]
  by (auto simp: plan_remote_only_def justified_action_def new_action_def split: option.splits if_splits)

lemma plan_both_cases:
  assumes "a \<in> set (snd (plan_both env s l r path rc))"
  shows "a = planDownload path r True \<or>
    (a = planDownload path r False \<and> (\<exists>e. s = Some e \<and> \<not> s_deleted e \<and> \<not> local_changed l e)) \<or>
    (a \<in> set (planUpload (env_readonly env) path l) \<and>
       (\<exists>e. s = Some e \<and> \<not> s_deleted e \<and> \<not> remote_changed (env_readonly env) r e))"
  using assms
  by (auto simp: plan_both_def local_changed_def remote_changed_def Let_def split: option.splits if_splits)

lemma plan_both_justified:
  assumes "a \<in> set (snd (plan_both env s l r path rc))"
  shows "a_path a = path \<and> justified_action env (Some l) (Some r) s a"
  using plan_both_cases [OF assms]
proof (elim disjE conjE)
  assume "a = planDownload path r True"
  then show ?thesis
    using planDownload_elem [of path r True] by (auto simp: justified_action_def)
next
  assume "a = planDownload path r False" "\<exists>e. s = Some e \<and> \<not> s_deleted e \<and> \<not> local_changed l e"
  then show ?thesis
    using planDownload_elem [of path r False] by (auto simp: justified_action_def)
next
  assume "a \<in> set (planUpload (env_readonly env) path l)"
    "\<exists>e. s = Some e \<and> \<not> s_deleted e \<and> \<not> remote_changed (env_readonly env) r e"
  then show ?thesis
    using planUpload_elem [of a "env_readonly env" path l] by (auto simp: justified_action_def)
qed

lemma plan_path_justified:
  assumes "a \<in> set (snd (plan_path env baseline localm remote path rc))"
  shows "a_path a = path \<and> justified_action env (map_of localm path) (map_of remote path) (map_of baseline path) a"
proof -
  obtain d rc1 where d: "deferScanForPendingUpload path rc = (d, rc1)"
    by fastforce
  show ?thesis
    using assms d plan_local_only_justified [of a env "map_of baseline path" _ path rc1]
      plan_remote_only_justified [of a remote "map_of baseline path" _ path rc1 env]
      plan_both_justified [of a env "map_of baseline path" _ _ path rc1]
    by (cases "map_of localm path"; cases "map_of remote path") (auto simp: plan_path_def split: if_splits)
qed

lemma plan_path_single: "length (snd (plan_path env baseline localm remote path rc)) \<le> 1"
  by (auto simp: plan_path_def plan_local_only_def plan_remote_only_def plan_both_def planUpload_def Let_def
      split: prod.splits option.splits stat_answer.splits)

lemma plan_paths_justified:
  assumes "a \<in> set (snd (plan_paths env baseline localm remote ps rc))"
  shows "a_path a \<in> set ps \<and>
    justified_action env (map_of localm (a_path a)) (map_of remote (a_path a)) (map_of baseline (a_path a)) a"
  using assms
proof (induction ps arbitrary: rc)
  case (Cons p ps)
  obtain rc1 as where 1: "plan_path env baseline localm remote p rc = (rc1, as)"
    by fastforce
  obtain rc2 bs where 2: "plan_paths env baseline localm remote ps rc1 = (rc2, bs)"
    by fastforce
  have "a \<in> set as \<or> a \<in> set bs"
    using Cons.prems 1 2 by simp
  then show ?case
    using plan_path_justified [of a env baseline localm remote p rc] Cons.IH [of rc1] 1 2 by auto
qed simp

lemma plan_paths_distinct:
  "distinct ps \<Longrightarrow> distinct (map a_path (snd (plan_paths env baseline localm remote ps rc)))"
proof (induction ps arbitrary: rc)
  case (Cons p ps)
  obtain rc1 as where 1: "plan_path env baseline localm remote p rc = (rc1, as)"
    by fastforce
  obtain rc2 bs where 2: "plan_paths env baseline localm remote ps rc1 = (rc2, bs)"
    by fastforce
  have as: "distinct (map a_path as)" "\<forall>a\<in>set as. a_path a = p"
    using plan_path_single [of env baseline localm remote p rc] plan_path_justified [of _ env baseline localm remote p rc] 1
    by (cases as; simp)+
  have bs: "distinct (map a_path bs)" "\<forall>b\<in>set bs. a_path b \<in> set ps"
    using Cons.IH [of rc1] Cons.prems 2 plan_paths_justified [of _ env baseline localm remote ps rc1] by simp_all
  show ?case
    using as bs 1 2 Cons.prems by auto
qed simp

lemma bind_action_simps [simp]:
  "a_path (bind_action b l r a) = a_path a" "a_kind (bind_action b l r a) = a_kind a"
  "a_conflict (bind_action b l r a) = a_conflict a"
  by (simp_all add: bind_action_def)

lemma justified_bind [simp]: "justified_action env l r s (bind_action b x y a) = justified_action env l r s a"
  by (cases l) (simp_all add: justified_action_def)

lemma buildPlan_snd:
  "snd (buildPlan env localm remote rc) =
     map (bind_action (rc_entries rc) localm remote)
       (snd (plan_paths env (rc_entries rc) localm remote (remdups (map fst localm @ map fst remote)) rc))"
  by (simp add: buildPlan_def Let_def split: prod.splits)

lemma buildPlan_justified:
  assumes "a \<in> set (snd (buildPlan env localm remote rc))"
  shows "justified_action env (map_of localm (a_path a)) (map_of remote (a_path a)) (map_of (rc_entries rc) (a_path a)) a"
    "a_check a" "a_stored a = map_of (rc_entries rc) (a_path a)"
  using assms plan_paths_justified [of _ env "rc_entries rc" localm remote "remdups (map fst localm @ map fst remote)" rc]
  by (auto simp: buildPlan_snd) (simp_all add: bind_action_def)

lemma buildPlan_distinct: "distinct (map a_path (snd (buildPlan env localm remote rc)))"
  by (simp add: buildPlan_snd comp_def plan_paths_distinct)

section \<open>Tombstones before the plan\<close>

lemma update_state_simps [simp]:
  "rc_entries (updateState path e rc) = mset_key path (e\<lparr>s_version := st_next (w_state (rc_writer rc))\<rparr>) (rc_entries rc)"
  "rc_pending (updateState path e rc) = rc_pending rc" "rc_sweep (updateState path e rc) = rc_sweep rc"
  "rc_entries (requestFullSweep rc) = rc_entries rc"
  by (simp_all add: updateState_def update_state_def requestFullSweep_def)

text \<open>What one pass leaves of an entry.\<close>

definition offline_ok ::
  "bool \<Rightarrow> (string \<Rightarrow> bool) \<Rightarrow> observedMeta gomap \<Rightarrow> string \<Rightarrow> SyncEntry \<Rightarrow> SyncEntry \<Rightarrow> bool" where
  "offline_ok ro gone localm p e e' \<longleftrightarrow>
     s_deleted e' = (if ro then False else s_deleted e \<or> (map_of localm p = None \<and> gone p)) \<and>
     (s_deleted e' = s_deleted e \<longrightarrow> e' = e)"

lemma offline_entry_map:
  "q \<noteq> p \<Longrightarrow> map_of (rc_entries (offline_entry ro now gone localm (p, e) rc)) q = map_of (rc_entries rc) q"
  "map_of (rc_entries rc) p = Some e \<Longrightarrow>
     \<exists>e'. map_of (rc_entries (offline_entry ro now gone localm (p, e) rc)) p = Some e' \<and> offline_ok ro gone localm p e e'"
  by (auto simp: offline_entry_def offline_ok_def)

lemma offline_fold:
  assumes "gomap_wf pes" "\<forall>(p, e)\<in>set pes. map_of (rc_entries rc) p = Some e"
  shows "(\<forall>(p, e)\<in>set pes. \<exists>e'. map_of (rc_entries (fold (offline_entry ro now gone localm) pes rc)) p = Some e' \<and>
        offline_ok ro gone localm p e e') \<and>
    (\<forall>p. p \<notin> fst ` set pes \<longrightarrow>
        map_of (rc_entries (fold (offline_entry ro now gone localm) pes rc)) p = map_of (rc_entries rc) p)"
  using assms
proof (induction pes arbitrary: rc)
  case (Cons x pes)
  obtain q d where x: "x = (q, d)"
    by fastforce
  let ?rc = "offline_entry ro now gone localm (q, d) rc"
  have wf: "gomap_wf pes" "q \<notin> fst ` set pes"
    using Cons.prems(1) x by auto
  have keep: "map_of (rc_entries ?rc) p = map_of (rc_entries rc) p" if "p \<noteq> q" for p
    using that by (rule offline_entry_map(1))
  have "map_of (rc_entries ?rc) p = Some e" if "(p, e) \<in> set pes" for p e
  proof -
    have "p \<noteq> q"
      using that wf(2) by (metis fst_conv image_eqI)
    then show ?thesis
      using keep Cons.prems(2) that by auto
  qed
  then have "\<forall>(p, e)\<in>set pes. map_of (rc_entries ?rc) p = Some e"
    by blast
  note ih = Cons.IH [OF wf(1) this]
  have q: "\<exists>e'. map_of (rc_entries ?rc) q = Some e' \<and> offline_ok ro gone localm q d e'"
    using offline_entry_map(2) [of rc q d] Cons.prems(2) x by auto
  show ?case
    using ih q wf(2) x keep by auto
qed simp

lemma detectOfflineDeletes_entry:
  assumes "gomap_wf (rc_entries rc)"
    "map_of (rc_entries (detectOfflineDeletes ro now gone localm rc)) p = Some e'"
  shows "\<exists>e. map_of (rc_entries rc) p = Some e \<and> offline_ok ro gone localm p e e'"
proof -
  have "\<forall>(p, e)\<in>set (rc_entries rc). map_of (rc_entries rc) p = Some e"
    using assms(1) by auto
  note fold = offline_fold [OF assms(1) this, of ro now gone localm]
  show ?thesis
  proof (cases "map_of (rc_entries rc) p")
    case None
    then have "p \<notin> fst ` set (rc_entries rc)"
      by (simp add: map_of_eq_None_iff)
    then have "map_of (rc_entries rc) p = Some e'"
      using fold assms(2) unfolding detectOfflineDeletes_def by simp
    then show ?thesis
      using None by simp
  next
    case (Some e)
    then have "(p, e) \<in> set (rc_entries rc)"
      by (rule map_of_SomeD)
    then show ?thesis
      using fold assms(2) Some unfolding detectOfflineDeletes_def by fastforce
  qed
qed

section \<open>Properties of the plan\<close>

text \<open>
  C31. A recovery scan of a read-only mount never writes to the workspace: whatever tombstones the
  sync state holds, its plan has no upload, no remote directory, no symlink upload and no remote
  deletion.
\<close>

theorem readonly_scan_never_pushes:
  assumes "env_readonly env" "gomap_wf (rc_entries rc)" "a \<in> set (snd (warm_plan env gone localm remote rc))"
  shows "a_kind a \<in> {Download, SymlinkDownload, MkdirLocal, DeleteLocal}"
proof -
  let ?rc = "detectOfflineDeletes (env_readonly env) (env_now env) gone localm rc"
  have j: "justified_action env (map_of localm (a_path a)) (map_of remote (a_path a)) (map_of (rc_entries ?rc) (a_path a)) a"
    using assms(3) by (intro buildPlan_justified) (simp add: warm_plan_def)
  have "\<not> s_deleted e" if "map_of (rc_entries ?rc) (a_path a) = Some e" for e
    using detectOfflineDeletes_entry [OF assms(2) that] assms(1) by (auto simp: offline_ok_def)
  then show ?thesis
    using j assms(1) by (cases "a_kind a") (auto simp: justified_action_def)
qed

text \<open>
  C30. A recovery scan never discards a change it has not seen. Its plan has at most one action per
  path. A download replaces an existing local file or link without a conflict copy only if the local
  side agrees with the baseline the plan was made from, and an upload replaces an existing remote
  entry only if that side does. A local deletion is planned only for a known path, absent from the
  remote scan and confirmed missing by a second look; a remote deletion only for a recorded deletion
  or a path that both the local scan and a second look found missing.
\<close>

theorem scan_plan_safe:
  assumes "gomap_wf (rc_entries rc)" "a \<in> set (snd (warm_plan env gone localm remote rc))"
    and base: "base = rc_entries (detectOfflineDeletes (env_readonly env) (env_now env) gone localm rc)"
  shows "distinct (map a_path (snd (warm_plan env gone localm remote rc))) \<and>
    (a_kind a \<in> {Download, SymlinkDownload} \<and> \<not> a_conflict a \<longrightarrow>
       (\<forall>l. map_of localm (a_path a) = Some l \<longrightarrow>
          (\<exists>e. map_of base (a_path a) = Some e \<and> \<not> local_changed l e))) \<and>
    (a_kind a \<in> {Upload, MkdirRemote, SymlinkUpload} \<longrightarrow>
       (\<forall>r. map_of remote (a_path a) = Some r \<longrightarrow>
          (\<exists>e. map_of base (a_path a) = Some e \<and> \<not> remote_changed (env_readonly env) r e))) \<and>
    (a_kind a = DeleteLocal \<longrightarrow> map_of remote (a_path a) = None \<and> env_stat env (a_path a) = StatMissing \<and>
       map_of (rc_entries rc) (a_path a) \<noteq> None) \<and>
    (a_kind a = DeleteRemote \<longrightarrow> map_of localm (a_path a) = None \<and>
       (\<exists>e. map_of (rc_entries rc) (a_path a) = Some e \<and> (s_deleted e \<or> gone (a_path a))))"
proof -
  have j: "justified_action env (map_of localm (a_path a)) (map_of remote (a_path a)) (map_of base (a_path a)) a"
    unfolding base using assms(2) by (intro buildPlan_justified) (simp add: warm_plan_def)
  have orig: "\<exists>e. map_of (rc_entries rc) (a_path a) = Some e \<and> offline_ok (env_readonly env) gone localm (a_path a) e e'"
    if "map_of base (a_path a) = Some e'" for e'
    using detectOfflineDeletes_entry [OF assms(1)] that base by blast
  have "distinct (map a_path (snd (warm_plan env gone localm remote rc)))"
    by (simp add: warm_plan_def buildPlan_distinct)
  then show ?thesis
    using j orig by (cases "a_kind a") (auto simp: justified_action_def offline_ok_def split: if_splits)
qed

section \<open>Witnesses\<close>

definition sample_recon :: recon where
  "sample_recon =
     \<lparr>rc_writer = newStateWriter (sample_state\<lparr>st_entries := [(''b'', zero_entry\<lparr>s_type := ''file'', s_deleted := True\<rparr>)]\<rparr>) None,
      rc_pending = [], rc_sweep = False\<rparr>"

definition sample_env :: "bool \<Rightarrow> scan_env" where
  "sample_env ro = \<lparr>env_readonly = ro, env_stat = (\<lambda>_. StatMissing), env_now = 9\<rparr>"

definition sample_scan :: "bool \<Rightarrow> syncAction list" where
  "sample_scan ro = snd (warm_plan (sample_env ro) (\<lambda>_. True) [] [(''b'', sample_meta ''file'' 1)] sample_recon)"

lemmas sample_scan_defs = sample_scan_def sample_recon_def sample_env_def sample_meta_def newStateWriter_def warm_plan_def
  buildPlan_def detectOfflineDeletes_def offline_entry_def updateState_def update_state_def
  deferScanForPendingUpload_def plan_path_def plan_remote_only_def planDownload_def new_action_def bind_action_def

lemma sample_scan_kinds: "map a_kind (sample_scan True) = [Download]" "map a_kind (sample_scan False) = [DeleteRemote]"
  by (simp_all add: sample_scan_defs Let_def)

lemma sample_recon_wf: "gomap_wf (rc_entries sample_recon)"
  by (simp add: sample_recon_def newStateWriter_def)

theorem readonly_scan_never_pushes_witness:
  "\<exists>a. sample_scan True = [a] \<and> a_kind a \<in> {Download, SymlinkDownload, MkdirLocal, DeleteLocal}"
proof -
  obtain a where a: "sample_scan True = [a]"
    using sample_scan_kinds(1) by (cases "sample_scan True") auto
  have "env_readonly (sample_env True)"
    by (simp add: sample_env_def)
  from readonly_scan_never_pushes [OF this sample_recon_wf] show ?thesis
    using a unfolding sample_scan_def by (metis list.set_intros(1))
qed

theorem scan_plan_safe_witness:
  "\<exists>a. sample_scan False = [a] \<and> a_kind a = DeleteRemote \<and> map_of (rc_entries sample_recon) (a_path a) \<noteq> None"
proof -
  obtain a where a: "sample_scan False = [a]" "a_kind a = DeleteRemote"
    using sample_scan_kinds(2) by (cases "sample_scan False") auto
  then have "a \<in> set (snd (warm_plan (sample_env False) (\<lambda>_. True) [] [(''b'', sample_meta ''file'' 1)] sample_recon))"
    by (simp add: sample_scan_def)
  from scan_plan_safe [OF sample_recon_wf this refl] show ?thesis
    using a by auto
qed

end
