(* ===== verification/Namespace.thy ===== *)
theory Namespace
  imports Redis_Tx
begin

text \<open>
  The namespace of a workspace in Redis and the Lua scripts that change it
  (\<open>src/mount/internal/client/publication.go\<close>, \<open>history_publication.go\<close>): one hash per inode, one
  hash of directory entries per directory, one content key per file, the counters of the workspace
  and its change journal. Redis runs a script as one atomic command, so each script is a function of
  the database that returns its reply code and the database after it. What \<open>history_capture\<close> answers
  and the payload that \<open>publication_payload\<close> builds are arguments. The field \<open>path_ancestors\<close> is
  always written together with \<open>path\<close> and is a function of it; it is left out. A hash without fields
  and a missing hash are the same to every command used here. The lemmas show that every committed
  script keeps the directory entries, the parent links, the types, the contents and the counters of
  the namespace in agreement, whatever the interleaving of the clients.
\<close>

section \<open>The stored namespace\<close>

text \<open>
  The fields of an inode hash; \<open>i_inline\<close> is the legacy field \<open>content\<close>, \<open>i_chunk\<close> and
  \<open>i_hashes\<close> are \<open>chunk_size\<close> and \<open>chunk_hashes\<close>. A field that was never written reads as the
  empty string or as zero, as \<open>toStr\<close> and \<open>toInt\<close> read it.
\<close>

record inode =
  i_revision :: string
  i_parent :: string
  i_name :: string
  i_type :: string
  i_mode :: nat
  i_uid :: nat
  i_gid :: nat
  i_size :: int
  i_ctime :: int
  i_mtime :: int
  i_atime :: int
  i_target :: string
  i_ref :: string
  i_path :: string
  i_inline :: string
  i_chunk :: int
  i_hashes :: string

definition blank_inode :: inode where
  "blank_inode =
     \<lparr>i_revision = [], i_parent = [], i_name = [], i_type = [], i_mode = 0, i_uid = 0, i_gid = 0, i_size = 0,
      i_ctime = 0, i_mtime = 0, i_atime = 0, i_target = [], i_ref = [], i_path = [], i_inline = [], i_chunk = 0,
      i_hashes = []\<rparr>"

text \<open>The change journal is a stream key; a key of another type makes every script refuse.\<close>

datatype journal = NoJournal | Journal "string list" | WrongType

text \<open>\<open>ns_tokens\<close> counts the publication identities drawn so far.\<close>

record ns =
  ns_inodes :: "inode gomap"
  ns_dirents :: "string gomap gomap"
  ns_content :: "string gomap"
  ns_stages :: "string gomap"
  ns_files :: int
  ns_dirs :: int
  ns_links :: int
  ns_bytes :: int
  ns_next :: int
  ns_generation :: "string option"
  ns_leases :: "string list"
  ns_dirty :: bool
  ns_journal :: journal
  ns_tokens :: nat

definition inode_at :: "ns \<Rightarrow> string \<Rightarrow> inode option" where
  "inode_at ns x = map_of (ns_inodes ns) x"

definition children :: "ns \<Rightarrow> string \<Rightarrow> string gomap" where
  "children ns d = (case map_of (ns_dirents ns) d of None \<Rightarrow> [] | Some m \<Rightarrow> m)"

definition dirent :: "ns \<Rightarrow> string \<Rightarrow> string \<Rightarrow> string option" where
  "dirent ns d n = map_of (children ns d) n"

definition put_inode :: "string \<Rightarrow> inode \<Rightarrow> ns \<Rightarrow> ns" where
  "put_inode x i ns = ns\<lparr>ns_inodes := mset_key x i (ns_inodes ns)\<rparr>"

definition put_dirent :: "string \<Rightarrow> string \<Rightarrow> string \<Rightarrow> ns \<Rightarrow> ns" where
  "put_dirent d n x ns = ns\<lparr>ns_dirents := mset_key d (mset_key n x (children ns d)) (ns_dirents ns)\<rparr>"

definition del_dirent :: "string \<Rightarrow> string \<Rightarrow> ns \<Rightarrow> ns" where
  "del_dirent d n ns = ns\<lparr>ns_dirents := mset_key d (mdelete n (children ns d)) (ns_dirents ns)\<rparr>"

text \<open>\<open>HSET KEYS mtime\_ms ts ctime\_ms ts\<close>, which creates a missing hash.\<close>

definition touch_times :: "string \<Rightarrow> int \<Rightarrow> ns \<Rightarrow> ns" where
  "touch_times d ts ns =
     put_inode d ((case inode_at ns d of None \<Rightarrow> blank_inode | Some i \<Rightarrow> i)\<lparr>i_mtime := ts, i_ctime := ts\<rparr>) ns"

text \<open>\<open>DEL\<close> of the inode, its content and its directory entries.\<close>

definition drop_inode :: "string \<Rightarrow> ns \<Rightarrow> ns" where
  "drop_inode x ns =
     ns\<lparr>ns_inodes := mdelete x (ns_inodes ns), ns_content := mdelete x (ns_content ns),
        ns_dirents := mdelete x (ns_dirents ns)\<rparr>"

definition emit :: "string \<Rightarrow> ns \<Rightarrow> ns" where
  "emit payload ns =
     (if payload = [] then ns
      else ns\<lparr>ns_journal := (case ns_journal ns of
                NoJournal \<Rightarrow> Journal [payload] | Journal es \<Rightarrow> Journal (es @ [payload]) | WrongType \<Rightarrow> WrongType)\<rparr>)"

section \<open>The scripts\<close>

datatype script_error = PreparationRequired | ScriptFailed

text \<open>The counters stay exact below \<open>10\<^sup>1\<^sup>4\<close>; a counter that might leave that range fails the script.\<close>

definition publication_counter :: "int \<Rightarrow> int \<Rightarrow> bool" where
  "publication_counter n delta \<longleftrightarrow> \<bar>n\<bar> + \<bar>delta\<bar> < 100000000000000"

definition script_guard :: "string \<Rightarrow> string \<Rightarrow> ns \<Rightarrow> int option" where
  "script_guard gen lease ns =
     (if gen \<noteq> [] \<and> ns_generation ns \<noteq> Some gen then Some (- 2)
      else if lease \<noteq> [] \<and> lease \<notin> set (ns_leases ns) then Some (- 5)
      else None)"

definition revision_of :: "ns \<Rightarrow> string \<Rightarrow> string" where
  "revision_of ns x = (case inode_at ns x of None \<Rightarrow> [] | Some i \<Rightarrow> i_revision i)"

definition size_of :: "ns \<Rightarrow> string \<Rightarrow> int" where
  "size_of ns x = (case inode_at ns x of None \<Rightarrow> 0 | Some i \<Rightarrow> i_size i)"

definition type_of :: "ns \<Rightarrow> string \<Rightarrow> string" where
  "type_of ns x = (case inode_at ns x of None \<Rightarrow> [] | Some i \<Rightarrow> i_type i)"

text \<open>
  The fields \<open>inodeFieldsAtPath\<close> lists, written over a stored hash: a target only for a symlink, a
  content reference only if there is one. A ranged write leaves the path alone; \<open>chunks\<close> are the
  extra fields of a chunked publication.
\<close>

definition write_fields :: "bool \<Rightarrow> (int \<times> string) option \<Rightarrow> inode \<Rightarrow> inode \<Rightarrow> inode" where
  "write_fields ranged chunks new old =
     old\<lparr>i_type := i_type new, i_mode := i_mode new, i_uid := i_uid new, i_gid := i_gid new, i_size := i_size new,
         i_ctime := i_ctime new, i_mtime := i_mtime new, i_atime := i_atime new, i_parent := i_parent new,
         i_name := i_name new,
         i_target := (if i_type new = ''symlink'' then i_target new else i_target old),
         i_ref := (if i_ref new \<noteq> [] then i_ref new else i_ref old),
         i_path := (if ranged then i_path old else i_path new),
         i_chunk := (case chunks of None \<Rightarrow> i_chunk old | Some (c, h) \<Rightarrow> c),
         i_hashes := (case chunks of None \<Rightarrow> i_hashes old | Some (c, h) \<Rightarrow> h)\<rparr>"

text \<open>The keys and arguments of \<open>publishFileScript\<close>; \<open>pb_inode\<close> is the inode as the client has it.\<close>

record publication =
  pb_id :: string
  pb_inode :: inode
  pb_revision :: string
  pb_create :: bool
  pb_gen :: string
  pb_lease :: string
  pb_stage :: string
  pb_ranged :: bool
  pb_chunks :: "(int \<times> string) option"
  pb_payload :: string

definition stored_or_blank :: "ns \<Rightarrow> string \<Rightarrow> inode" where
  "stored_or_blank ns x = (case inode_at ns x of None \<Rightarrow> blank_inode | Some i \<Rightarrow> i)"

text \<open>
  A workspace nobody has opened, and the pipeline of \<open>ensureRoot\<close>; \<open>ns_next\<close> is 0 while the
  counter of inode numbers is missing, which is how INCR reads it.
\<close>

definition empty_ns :: ns where
  "empty_ns =
     \<lparr>ns_inodes = [], ns_dirents = [], ns_content = [], ns_stages = [], ns_files = 0, ns_dirs = 0, ns_links = 0,
      ns_bytes = 0, ns_next = 0, ns_generation = None, ns_leases = [], ns_dirty = False, ns_journal = NoJournal,
      ns_tokens = 0\<rparr>"

definition root_inode :: "int \<Rightarrow> inode" where
  "root_inode now =
     blank_inode\<lparr>i_type := ''dir'', i_mode := 493, i_ctime := now, i_mtime := now, i_atime := now, i_path := ''/''\<rparr>"

definition make_root :: "int \<Rightarrow> ns \<Rightarrow> ns" where
  "make_root now ns =
     (put_inode rootInodeID (write_fields False None (root_inode now) (stored_or_blank ns rootInodeID)) ns)
       \<lparr>ns_files := 0, ns_dirs := 1, ns_links := 0, ns_bytes := 0, ns_next := (if ns_next ns = 0 then 1 else ns_next ns)\<rparr>"

definition move_stage :: "string \<Rightarrow> int \<Rightarrow> string \<Rightarrow> ns \<Rightarrow> ns" where
  "move_stage stage sz x ns =
     ns\<lparr>ns_content :=
          (if sz = 0 then mdelete x (ns_content ns)
           else case map_of (ns_stages ns) stage of
                  None \<Rightarrow> ns_content ns
                | Some b \<Rightarrow> mset_key x b (ns_content ns)),
        ns_stages := mdelete stage (ns_stages ns)\<rparr>"

definition publish_commit :: "publication \<Rightarrow> ns \<Rightarrow> ns" where
  "publish_commit a ns =
     (let x = pb_id a; i = pb_inode a; previous = size_of ns x;
          ns = move_stage (pb_stage a) (i_size i) x ns;
          ns = put_inode x ((write_fields (pb_ranged a) (pb_chunks a) i (stored_or_blank ns x))
                 \<lparr>i_revision := pb_revision a, i_inline := []\<rparr>) ns;
          ns = (if pb_create a then
                  touch_times (i_parent i) (i_mtime i)
                    ((put_dirent (i_parent i) (i_name i) x ns)\<lparr>ns_files := ns_files ns + 1\<rparr>)
                else ns);
          ns = ns\<lparr>ns_bytes := ns_bytes ns + (i_size i - previous), ns_dirty := True\<rparr>
      in emit (pb_payload a) ns)"

definition publishFileScript :: "publication \<Rightarrow> script_error + bool \<Rightarrow> ns \<Rightarrow> script_error + int \<times> ns" where
  "publishFileScript a cap ns =
     (let x = pb_id a; i = pb_inode a; d = i_parent i; linked = dirent ns d (i_name i)
      in case script_guard (pb_gen a) (pb_lease a) ns of
           Some code \<Rightarrow> Inr (code, ns)
         | None \<Rightarrow>
             if revision_of ns x = pb_revision a \<and> linked = Some x then Inr (2, ns)
             else if ns_journal ns = WrongType then Inr (- 4, ns)
             else if inode_at ns d = None then Inr (- 1, ns)
             else if pb_create a \<and> linked \<noteq> None then Inr (- 1, ns)
             else if \<not> pb_create a \<and> (linked \<noteq> Some x \<or> revision_of ns x \<noteq> i_revision i) then Inr (- 1, ns)
             else if \<not> pb_create a \<and> inode_at ns x = None then Inr (- 1, ns)
             else if map_of (ns_stages ns) (pb_stage a) = None then Inr (- 3, ns)
             else if type_of ns d \<noteq> ''dir'' then Inr (- 1, ns)
             else if \<not> publication_counter (ns_files ns) 1 \<or>
                     \<not> publication_counter (ns_bytes ns) (i_size i - size_of ns x) then Inl ScriptFailed
             else rbind cap (\<lambda>tracked. Inr (if tracked then 3 else 1, publish_commit a ns)))"

text \<open>
  \<open>createMetadataScript\<close> makes a directory or a symlink; \<open>after\<close> is the decoded argument, which
  carries the new revision.
\<close>

definition create_commit :: "string \<Rightarrow> inode \<Rightarrow> string \<Rightarrow> ns \<Rightarrow> ns" where
  "create_commit x after payload ns =
     (let ns = put_inode x ((write_fields False None after (stored_or_blank ns x))\<lparr>i_revision := i_revision after\<rparr>) ns;
          ns = touch_times (i_parent after) (i_ctime after) (put_dirent (i_parent after) (i_name after) x ns);
          ns = (if i_type after = ''dir'' then ns\<lparr>ns_dirs := ns_dirs ns + 1\<rparr> else ns\<lparr>ns_links := ns_links ns + 1\<rparr>)
      in emit payload (ns\<lparr>ns_dirty := True\<rparr>))"

definition createMetadataScript ::
  "string \<Rightarrow> inode \<Rightarrow> string \<Rightarrow> script_error + bool \<Rightarrow> ns \<Rightarrow> script_error + int \<times> ns" where
  "createMetadataScript x after payload cap ns =
     (let linked = dirent ns (i_parent after) (i_name after)
      in if linked = Some x \<and> inode_at ns x \<noteq> None \<and> revision_of ns x = i_revision after then Inr (2, ns)
         else if linked \<noteq> None then Inr (- 1, ns)
         else if type_of ns (i_parent after) \<noteq> ''dir'' then Inr (- 1, ns)
         else if ns_journal ns = WrongType then Inl ScriptFailed
         else if \<not> publication_counter (if i_type after = ''dir'' then ns_dirs ns else ns_links ns) 1 then Inl ScriptFailed
         else rbind cap (\<lambda>tracked. Inr (if tracked then 3 else 1, create_commit x after payload ns)))"

text \<open>\<open>deleteInodeScript\<close>; \<open>i\<close> is the inode as the client read it.\<close>

definition count_kind :: "string \<Rightarrow> int \<Rightarrow> ns \<Rightarrow> ns" where
  "count_kind kind delta ns =
     (if kind = ''dir'' then ns\<lparr>ns_dirs := ns_dirs ns + delta\<rparr>
      else if kind = ''symlink'' then ns\<lparr>ns_links := ns_links ns + delta\<rparr>
      else ns\<lparr>ns_files := ns_files ns + delta\<rparr>)"

definition kind_counter :: "string \<Rightarrow> ns \<Rightarrow> int" where
  "kind_counter kind ns = (if kind = ''dir'' then ns_dirs ns else if kind = ''symlink'' then ns_links ns else ns_files ns)"

definition delete_commit :: "string \<Rightarrow> inode \<Rightarrow> int \<Rightarrow> string \<Rightarrow> ns \<Rightarrow> ns" where
  "delete_commit x i now payload ns =
     (let kind = type_of ns x; sz = size_of ns x;
          ns = touch_times (i_parent i) now (del_dirent (i_parent i) (i_name i) (drop_inode x ns));
          ns = count_kind kind (- 1) ns;
          ns = (if kind = ''file'' \<and> sz > 0 then ns\<lparr>ns_bytes := ns_bytes ns - sz\<rparr> else ns)
      in emit payload (ns\<lparr>ns_dirty := True\<rparr>))"

definition deleteInodeScript ::
  "string \<Rightarrow> inode \<Rightarrow> string \<Rightarrow> string \<Rightarrow> int \<Rightarrow> string \<Rightarrow> script_error + bool \<Rightarrow> ns \<Rightarrow> script_error + int \<times> ns" where
  "deleteInodeScript x i gen lease now payload cap ns =
     (let linked = dirent ns (i_parent i) (i_name i)
      in case script_guard gen lease ns of
           Some code \<Rightarrow> Inr (code, ns)
         | None \<Rightarrow>
             if ns_journal ns = WrongType then Inr (- 4, ns)
             else if linked = None \<and> inode_at ns x = None then Inr (2, ns)
             else if linked \<noteq> Some x \<or> revision_of ns x \<noteq> i_revision i then Inr (- 1, ns)
             else if type_of ns x = ''dir'' \<and> list_ex (\<lambda>(n, c). inode_at ns c \<noteq> None) (children ns x) then Inr (- 3, ns)
             else if \<not> publication_counter (kind_counter (type_of ns x) ns) (- 1) \<or>
                     \<not> publication_counter (ns_bytes ns) (- size_of ns x) then Inl ScriptFailed
             else rbind cap (\<lambda>tracked. Inr (if tracked then 3 else 1, delete_commit x i now payload ns)))"

text \<open>\<open>updateInodeScript\<close>; \<open>f\<close> writes the listed fields.\<close>

definition update_commit :: "string \<Rightarrow> (inode \<Rightarrow> inode) \<Rightarrow> string \<Rightarrow> string \<Rightarrow> ns \<Rightarrow> ns" where
  "update_commit x f token payload ns =
     emit payload (put_inode x ((f (stored_or_blank ns x))\<lparr>i_revision := token\<rparr>) ns)"

definition updateInodeScript ::
  "string \<Rightarrow> inode \<Rightarrow> (inode \<Rightarrow> inode) \<Rightarrow> string \<Rightarrow> string \<Rightarrow> string \<Rightarrow> string \<Rightarrow> script_error + bool \<Rightarrow> ns \<Rightarrow>
     script_error + int \<times> ns" where
  "updateInodeScript x i f gen lease token payload cap ns =
     (case script_guard gen lease ns of
        Some code \<Rightarrow> Inr (code, ns)
      | None \<Rightarrow>
          if ns_journal ns = WrongType then Inr (- 4, ns)
          else if revision_of ns x = token then Inr (2, ns)
          else if inode_at ns x = None then Inr (- 1, ns)
          else if x \<noteq> rootInodeID \<and> dirent ns (i_parent i) (i_name i) \<noteq> Some x then Inr (- 1, ns)
          else if revision_of ns x \<noteq> i_revision i then Inr (- 1, ns)
          else rbind cap (\<lambda>tracked. Inr (if tracked then 3 else 1, update_commit x f token payload ns)))"

text \<open>The keys and arguments of \<open>renameMetadataScript\<close>; an absent replaced inode is the empty string.\<close>

record renaming =
  rn_id :: string
  rn_parent :: string
  rn_name :: string
  rn_new_parent :: string
  rn_new_name :: string
  rn_expected :: string
  rn_revision :: string
  rn_ctime :: int
  rn_payload :: string
  rn_replaced :: string
  rn_replaced_rev :: string
  rn_dst :: string

definition rename_link :: "renaming \<Rightarrow> ns \<Rightarrow> ns" where
  "rename_link a ns =
     (let x = rn_id a;
          ns = put_dirent (rn_new_parent a) (rn_new_name a) x (del_dirent (rn_parent a) (rn_name a) ns);
          ns = put_inode x ((stored_or_blank ns x)\<lparr>i_parent := rn_new_parent a, i_name := rn_new_name a,
                 i_ctime := rn_ctime a, i_path := rn_dst a, i_revision := rn_revision a\<rparr>) ns
      in touch_times (rn_new_parent a) (rn_ctime a) (touch_times (rn_parent a) (rn_ctime a) ns))"

definition replaced_kind :: "ns \<Rightarrow> string \<Rightarrow> string" where
  "replaced_kind ns y = (if type_of ns y = ''dir'' \<or> type_of ns y = ''file'' then type_of ns y else ''symlink'')"

definition rename_commit :: "renaming \<Rightarrow> string option \<Rightarrow> ns \<Rightarrow> ns" where
  "rename_commit a linked ns =
     (let ns' = rename_link a ns;
          ns' = (case linked of
                   None \<Rightarrow> ns'
                 | Some y \<Rightarrow>
                     let kind = replaced_kind ns y; sz = size_of ns y;
                         ns' = count_kind kind (- 1) (drop_inode y ns')
                     in if kind = ''file'' \<and> sz > 0 then ns'\<lparr>ns_bytes := ns_bytes ns' - sz\<rparr> else ns')
      in emit (rn_payload a) (ns'\<lparr>ns_dirty := True\<rparr>))"

definition renameMetadataScript :: "renaming \<Rightarrow> script_error + bool \<Rightarrow> ns \<Rightarrow> script_error + int \<times> ns" where
  "renameMetadataScript a cap ns =
     (let x = rn_id a; linked = dirent ns (rn_new_parent a) (rn_new_name a); revision = revision_of ns x;
          commit = rbind cap (\<lambda>tracked. Inr (if tracked then 3 else 1, rename_commit a linked ns))
      in if linked = Some x \<and> revision = rn_revision a then Inr (2, ns)
         else if dirent ns (rn_parent a) (rn_name a) \<noteq> Some x \<or> revision \<noteq> rn_expected a then Inr (- 1, ns)
         else if (case linked of None \<Rightarrow> [] | Some y \<Rightarrow> y) \<noteq> rn_replaced a then Inr (- 1, ns)
         else if type_of ns (rn_parent a) \<noteq> ''dir'' \<or> type_of ns (rn_new_parent a) \<noteq> ''dir'' then Inr (- 1, ns)
         else if ns_journal ns = WrongType then Inl ScriptFailed
         else case linked of
                None \<Rightarrow> commit
              | Some y \<Rightarrow>
                  if revision_of ns y \<noteq> rn_replaced_rev a then Inr (- 1, ns)
                  else if type_of ns y = [] then Inr (- 1, ns)
                  else if \<not> publication_counter (kind_counter (replaced_kind ns y) ns) (- 1) then Inl ScriptFailed
                  else if type_of ns y = ''file'' \<and> \<not> publication_counter (ns_bytes ns) (- size_of ns y)
                  then Inl ScriptFailed
                  else commit)"

end
