(* ===== verification/Native_FS.thy ===== *)
theory Native_FS
  imports Namespace Redis_Content
begin

text \<open>
  The filesystem client on the namespace (\<open>src/mount/internal/client\<close>: \<open>native_helpers.go\<close>,
  \<open>native_core.go\<close>, \<open>publication.go\<close>, \<open>history_publication.go\<close>, \<open>native_parent.go\<close>,
  \<open>versioning_observer.go\<close>), as \<open>New\<close> makes it: without a cache and without an observer. An operation
  is a program of round trips to Redis: a \<open>Step\<close> is one command, pipeline, script or transaction that
  Redis runs atomically, and what the operation does next depends on the reply. \<open>run\<close> executes a
  program alone; other theories let the steps of several programs alternate. The clock, the
  random identities, the payloads of the journal, the answers of the version history and the lost
  races of a transaction are arguments (\<open>fs_env\<close>). The bytes behind a content key are a string
  whatever the backend; \<open>Redis_Content\<close> shows that for the array backend.
\<close>

section \<open>Programs\<close>

datatype 'a prog = Done "client_error + 'a" | Step "ns \<Rightarrow> 'a prog \<times> ns"

primrec pcase :: "'a prog \<Rightarrow> (client_error + 'a \<Rightarrow> 'b prog) \<Rightarrow> 'b prog" where
  "pcase (Done r) k = k r"
| "pcase (Step g) k = Step (\<lambda>ns. map_prod (\<lambda>p. pcase p k) id (g ns))"

abbreviation return :: "'a \<Rightarrow> 'a prog" where
  "return a \<equiv> Done (Inr a)"

abbreviation fail :: "client_error \<Rightarrow> 'a prog" where
  "fail e \<equiv> Done (Inl e)"

definition pbind :: "'a prog \<Rightarrow> ('a \<Rightarrow> 'b prog) \<Rightarrow> 'b prog" where
  "pbind p f = pcase p (\<lambda>r. case r of Inl e \<Rightarrow> fail e | Inr a \<Rightarrow> f a)"

text \<open>\<open>defer\<close>: \<open>q\<close> runs whatever \<open>p\<close> returned, and its own result is dropped.\<close>

definition pfinally :: "'a prog \<Rightarrow> unit prog \<Rightarrow> 'a prog" where
  "pfinally p q = pcase p (\<lambda>r. pcase q (\<lambda>_. Done r))"

text \<open>A read, and an update that answers.\<close>

definition query :: "(ns \<Rightarrow> client_error + 'a) \<Rightarrow> 'a prog" where
  "query f = Step (\<lambda>ns. (Done (f ns), ns))"

definition command :: "(ns \<Rightarrow> 'a \<times> ns) \<Rightarrow> 'a prog" where
  "command f = Step (\<lambda>ns. case f ns of (a, ns') \<Rightarrow> (return a, ns'))"

primrec run :: "'a prog \<Rightarrow> ns \<Rightarrow> (client_error + 'a) \<times> ns" where
  "run (Done r) ns = (r, ns)"
| "run (Step g) ns = (case map_prod run id (g ns) of (h, ns') \<Rightarrow> h ns')"

named_theorems run_simps \<open>how a program runs alone\<close>

lemma run_Step [run_simps]: "run (Step g) ns = (case g ns of (p, ns') \<Rightarrow> run p ns')"
  by (cases "g ns") simp

declare run.simps(2) [simp del]

lemma prog_induct [case_names Done Step, induct type: prog]:
  assumes "\<And>r. P (Done r)" and step: "\<And>g. (\<And>ns. P (fst (g ns))) \<Longrightarrow> P (Step g)"
  shows "P p"
proof (induction p rule: prog.induct)
  case (Step g)
  have "P (fst (g ns))" for ns
    using Step [of "g ns" "fst (g ns)"] by (cases "g ns") (simp, metis rangeI)
  then show ?case
    by (rule step)
qed (rule assms(1))

lemma run_pcase [run_simps]: "run (pcase p k) ns = (case run p ns of (r, ns') \<Rightarrow> run (k r) ns')"
proof (induction p arbitrary: ns)
  case (Step g)
  show ?case
    using Step.IH [of ns] by (cases "g ns") (simp add: run_Step)
qed simp

lemma run_pbind [run_simps]:
  "run (pbind p f) ns = (case run p ns of (Inl e, ns') \<Rightarrow> (Inl e, ns') | (Inr a, ns') \<Rightarrow> run (f a) ns')"
  by (auto simp: pbind_def run_pcase split: prod.splits sum.splits)

lemma run_pfinally [run_simps]: "run (pfinally p q) ns = (case run p ns of (r, ns') \<Rightarrow> (r, snd (run q ns')))"
  by (auto simp: pfinally_def run_pcase split: prod.splits)

lemma run_query [run_simps]: "run (query f) ns = (f ns, ns)"
  by (simp add: query_def run_Step)

lemma run_command [run_simps]: "run (command f) ns = (case f ns of (a, ns') \<Rightarrow> (Inr a, ns'))"
  by (simp add: command_def run_Step split: prod.splits)

section \<open>What an operation gets from outside\<close>

text \<open>\<open>redis.Nil\<close>, the answer of a read that finds nothing.\<close>

definition RedisNil :: client_error where
  "RedisNil = ErrOther ''redis: nil''"

record StatResult =
  st_revision :: string
  st_inode :: nat
  st_type :: string
  st_mode :: nat
  st_uid :: nat
  st_gid :: nat
  st_size :: int
  st_ctime :: int
  st_mtime :: int
  st_atime :: int

text \<open>
  The values of a request context. \<open>fc_expected\<close> is the observation a mutation is bound to, with
  \<open>Some None\<close> for an absent path; \<open>fc_ranged\<close> marks the writes of an open handle.
\<close>

record fs_ctx =
  fc_op :: op_ctx
  fc_expected :: "StatResult option option"
  fc_ranged :: bool

text \<open>
  \<open>e_clock\<close> is what the clock shows; \<open>e_token\<close> the identities \<open>newOriginID\<close> draws; \<open>e_arrays\<close> whether the
  server has array commands (\<open>rediscontent.SupportsArrays\<close>); \<open>e_capture\<close> the answer of \<open>history_capture\<close> inside a script;
  \<open>e_prepare\<close> the outcome of \<open>filehistory.Prepare\<close>; \<open>e_payload\<close> and \<open>e_event\<close> the journal payloads of
  \<open>mutationPayload\<close> and \<open>PublishInvalidation\<close>; \<open>e_raced\<close> that another client changed a watched key
  before EXEC; \<open>e_throttled\<close> that the dirty mark was sent less than 100 ms ago.
\<close>

record fs_env =
  e_keys :: keyBuilder
  e_clock :: "ns \<Rightarrow> int"
  e_token :: "nat \<Rightarrow> string"
  e_arrays :: "client_error + bool"
  e_capture :: "ns \<Rightarrow> script_error + bool"
  e_prepare :: "ns \<Rightarrow> client_error + unit"
  e_payload :: "string \<Rightarrow> string list \<Rightarrow> string"
  e_event :: "string \<Rightarrow> string \<Rightarrow> string"
  e_disabled :: bool
  e_raced :: "ns \<Rightarrow> bool"
  e_throttled :: "ns \<Rightarrow> bool"

text \<open>An inode in the client's hands: its number, its metadata and, for a write, the new content.\<close>

record inodeData =
  d_id :: string
  d_inode :: inode
  d_content :: string

definition managed_generation :: "fs_ctx \<Rightarrow> string" where
  "managed_generation ctx = (case ctx_generation (fc_op ctx) of None \<Rightarrow> [] | Some g \<Rightarrow> g)"

definition lease_of :: "fs_ctx \<Rightarrow> string" where
  "lease_of ctx = ctx_lease (fc_op ctx)"

definition inodeUint64 :: "string \<Rightarrow> nat" where
  "inodeUint64 i =
     (if i \<noteq> [] \<and> list_all (\<lambda>c. CHR ''0'' \<le> c \<and> c \<le> CHR ''9'') i then min (decimal_value i) (2 ^ 64 - 1) else 0)"

definition toStat :: "inodeData \<Rightarrow> StatResult" where
  "toStat d =
     (let i = d_inode d
      in \<lparr>st_revision = i_revision i, st_inode = inodeUint64 (d_id d), st_type = i_type i, st_mode = i_mode i,
          st_uid = i_uid i, st_gid = i_gid i, st_size = i_size i, st_ctime = i_ctime i, st_mtime = i_mtime i,
          st_atime = i_atime i\<rparr>)"

text \<open>The conditions a request carries (\<open>publication.go\<close>, \<open>native_parent.go\<close>).\<close>

definition checkWriteCondition :: "fs_ctx \<Rightarrow> inodeData \<Rightarrow> bool \<Rightarrow> client_error + unit" where
  "checkWriteCondition ctx d creating =
     (case fc_expected ctx of
        None \<Rightarrow> Inr ()
      | Some None \<Rightarrow> if \<not> creating then Inl ErrWriteConflict else Inr ()
      | Some (Some st) \<Rightarrow>
          if creating \<or> st_inode st \<noteq> inodeUint64 (d_id d) \<or> st_revision st \<noteq> i_revision (d_inode d)
          then Inl ErrWriteConflict else Inr ())"

definition checkExpectedParent :: "fs_ctx \<Rightarrow> string \<Rightarrow> string \<Rightarrow> client_error + unit" where
  "checkExpectedParent ctx childPath parentID =
     (let parents = ctx_parents (fc_op ctx)
      in if parents = [] then Inr ()
         else case map_of parents (parentOf (normalizePath childPath)) of
                None \<Rightarrow> Inl ErrWriteConflict
              | Some expected \<Rightarrow>
                  if expected = 0 \<or> FormatUint expected \<noteq> parentID then Inl ErrWriteConflict else Inr ())"

text \<open>The reads that the guards of \<open>Redis_Tx\<close> make, on the namespace.\<close>

definition ns_reader :: "keyBuilder \<Rightarrow> ns redis_read" where
  "ns_reader kb =
     \<lparr>r_get = (\<lambda>ns k. if k = kb_generation kb then ns_generation ns
                      else if k \<in> set (ns_leases ns) then Some [] else None),
      r_hget = (\<lambda>ns k f. if HasPrefix k (kb_dirents kb []) then dirent ns (TrimPrefix k (kb_dirents kb [])) f
                          else None)\<rparr>"

section \<open>Reads and single commands\<close>

definition nowMs :: "fs_env \<Rightarrow> int prog" where
  "nowMs env = query (\<lambda>ns. Inr (e_clock env ns))"

definition newOriginID :: "fs_env \<Rightarrow> string prog" where
  "newOriginID env = command (\<lambda>ns. (e_token env (ns_tokens ns), ns\<lparr>ns_tokens := ns_tokens ns + 1\<rparr>))"

text \<open>The fields of \<open>inodeMetaFields\<close>; an inode whose type was never written reads as nil.\<close>

definition metadata :: "inode \<Rightarrow> inode" where
  "metadata i = i\<lparr>i_path := [], i_inline := [], i_chunk := 0, i_hashes := []\<rparr>"

definition inodeFromValues :: "string \<Rightarrow> inode option \<Rightarrow> inodeData option" where
  "inodeFromValues x v =
     (case v of
        None \<Rightarrow> None
      | Some i \<Rightarrow> if i_type i = [] then None else Some \<lparr>d_id = x, d_inode = metadata i, d_content = []\<rparr>)"

definition loadInodeByID :: "string \<Rightarrow> inodeData option prog" where
  "loadInodeByID x = query (\<lambda>ns. Inr (inodeFromValues x (inode_at ns x)))"

definition loadRootInode :: "inodeData option prog" where
  "loadRootInode = loadInodeByID rootInodeID"

definition lookupChildID :: "string \<Rightarrow> string \<Rightarrow> string prog" where
  "lookupChildID d n = query (\<lambda>ns. case dirent ns d n of None \<Rightarrow> Inl RedisNil | Some x \<Rightarrow> Inr x)"

definition check_generation :: "fs_env \<Rightarrow> fs_ctx \<Rightarrow> unit prog" where
  "check_generation env ctx = query (checkGeneration (ns_reader (e_keys env)) (e_keys env) (fc_op ctx))"

definition ensureRoot :: "fs_env \<Rightarrow> fs_ctx \<Rightarrow> unit prog" where
  "ensureRoot env ctx =
     pbind (check_generation env ctx) (\<lambda>_.
     pbind loadRootInode (\<lambda>root.
       if root \<noteq> None then return ()
       else if ctx_generation (fc_op ctx) \<noteq> None then fail ErrWorkspaceChanged
       else pbind (nowMs env) (\<lambda>now. command (\<lambda>ns. ((), make_root now ns)))))"

definition allocInodeID :: "fs_env \<Rightarrow> fs_ctx \<Rightarrow> string prog" where
  "allocInodeID env ctx =
     pbind (ensureRoot env ctx) (\<lambda>_.
       command (\<lambda>ns. (FormatInt (ns_next ns + 1), ns\<lparr>ns_next := ns_next ns + 1\<rparr>)))"

definition publishInvalidate :: "fs_env \<Rightarrow> string \<Rightarrow> string \<Rightarrow> unit prog" where
  "publishInvalidate env kind p =
     (if e_disabled env \<or> p = [] then return () else command (\<lambda>ns. ((), emit (e_event env kind p) ns)))"

definition markRootDirty :: "fs_env \<Rightarrow> fs_ctx \<Rightarrow> unit prog" where
  "markRootDirty env ctx =
     Step (\<lambda>ns.
       if e_throttled env ns then (return (), ns)
       else case ctx_generation (fc_op ctx) of
              None \<Rightarrow> (return (), ns\<lparr>ns_dirty := True\<rparr>)
            | Some g \<Rightarrow>
                if ns_generation ns \<noteq> Some g then (fail ErrWorkspaceChanged, ns)
                else if lease_of ctx \<noteq> [] \<and> lease_of ctx \<notin> set (ns_leases ns) then (fail ErrNativeSessionLost, ns)
                else (return (), ns\<lparr>ns_dirty := True\<rparr>))"

section \<open>Content\<close>

definition isExternalContentRef :: "string \<Rightarrow> bool" where
  "isExternalContentRef ref \<longleftrightarrow> TrimSpace ref = RefExternal \<or> TrimSpace ref = RefArray"

text \<open>
  The bytes behind a content key as \<open>rediscontent.Load\<close> returns them: a string as it is, an array
  cut or filled with zero bytes to the size of the inode.
\<close>

definition content_bytes :: "string \<Rightarrow> int \<Rightarrow> string option \<Rightarrow> string" where
  "content_bytes ref sz v =
     (let b = (case v of None \<Rightarrow> [] | Some b \<Rightarrow> b)
      in if TrimSpace ref = RefArray then take (nat sz) (b @ replicate (nat sz - length b) zero_byte) else b)"

definition loadContentExternal :: "fs_env \<Rightarrow> string \<Rightarrow> string \<Rightarrow> string prog" where
  "loadContentExternal env x ref =
     (if ref = RefExternal then
        query (\<lambda>ns. Inr (case map_of (ns_content ns) x of None \<Rightarrow> [] | Some b \<Rightarrow> b))
      else if isExternalContentRef ref then
        pbind (query (\<lambda>ns. Inr (size_of ns x))) (\<lambda>sz.
        pbind (if TrimSpace ref = RefArray then Done (e_arrays env) else return True) (\<lambda>supported.
          if supported then query (\<lambda>ns. Inr (content_bytes ref sz (map_of (ns_content ns) x)))
          else fail (ErrOther ''redis array content requested but the server does not support array commands'')))
      else query (\<lambda>ns. Inr (i_inline (stored_or_blank ns x))))"

definition preferredContentRef :: "fs_env \<Rightarrow> string prog" where
  "preferredContentRef env =
     pbind (Done (e_arrays env)) (\<lambda>supported. return (if supported then RefArray else RefExternal))"

definition selectContentRef :: "fs_env \<Rightarrow> inodeData \<Rightarrow> inodeData prog" where
  "selectContentRef env d =
     (if i_type (d_inode d) \<noteq> ''file'' then return d
      else pbind (preferredContentRef env) (\<lambda>preferred.
        let ref = i_ref (d_inode d)
        in if ref = [] \<or> ref = RefExternal \<and> preferred = RefArray
           then return (d\<lparr>d_inode := (d_inode d)\<lparr>i_ref := preferred\<rparr>\<rparr>)
           else return d))"

text \<open>Staging writes the whole content to a new key of its own; an hour later the key expires.\<close>

definition stageFullFile :: "fs_env \<Rightarrow> inodeData \<Rightarrow> string prog" where
  "stageFullFile env d =
     pbind (newOriginID env) (\<lambda>token.
       let stage = kb_content (e_keys env) (d_id d) @ '':stage:'' @ token;
           bytes = (if i_size (d_inode d) = 0 then [] else d_content d)
       in command (\<lambda>ns. (stage,
            if bytes = [] \<and> i_size (d_inode d) \<noteq> 0 \<and> TrimSpace (i_ref (d_inode d)) = RefArray
            then ns\<lparr>ns_stages := mdelete stage (ns_stages ns)\<rparr>
            else ns\<lparr>ns_stages := mset_key stage bytes (ns_stages ns)\<rparr>)))"

definition discardStage :: "string \<Rightarrow> unit prog" where
  "discardStage stage = command (\<lambda>ns. ((), ns\<lparr>ns_stages := mdelete stage (ns_stages ns)\<rparr>))"


section \<open>Guarded mutations\<close>

definition script_failure :: "script_error \<Rightarrow> client_error" where
  "script_failure e =
     (case e of PreparationRequired \<Rightarrow> ErrOther ''HISTORY_PREPARATION_REQUIRED'' | ScriptFailed \<Rightarrow> ErrOther ''ERR script failed'')"

text \<open>A script run on its own: an error leaves the database as it was.\<close>

definition eval_script :: "(ns \<Rightarrow> script_error + int \<times> ns) \<Rightarrow> ns \<Rightarrow> int prog \<times> ns" where
  "eval_script script ns =
     (case script ns of Inl e \<Rightarrow> (fail (script_failure e), ns) | Inr (code, ns') \<Rightarrow> (return code, ns'))"

text \<open>
  \<open>retryWatch\<close>: EXEC succeeds only if no watched key changed since the guards and the body read it, so
  a committed attempt is one step in which guards, body and commands see the same database; an
  attempt that lost the race changes nothing. The body says what its transaction does and how the
  attempt ends; \<open>redis.TxFailedErr\<close> starts the next one.
\<close>

definition watched :: "fs_env \<Rightarrow> fs_ctx \<Rightarrow> (ns \<Rightarrow> 'a prog \<times> ns) \<Rightarrow> 'a prog" where
  "watched env ctx body =
     Step (\<lambda>ns.
       case tx_guard (ns_reader (e_keys env)) (e_keys env) (fc_op ctx) ns of
         Inl e \<Rightarrow> (fail e, ns)
       | Inr _ \<Rightarrow> if e_raced env ns then (fail ErrTxFailed, ns) else body ns)"

fun retry_tx :: "nat \<Rightarrow> fs_env \<Rightarrow> fs_ctx \<Rightarrow> (ns \<Rightarrow> 'a prog \<times> ns) \<Rightarrow> 'a prog" where
  "retry_tx 0 env ctx body = fail ErrTxFailed"
| "retry_tx (Suc n) env ctx body =
     pcase (watched env ctx body) (\<lambda>r.
       case r of
         Inl e \<Rightarrow> if e = ErrTxFailed then retry_tx n env ctx body else fail e
       | Inr a \<Rightarrow> return a)"

definition runMutationScript :: "fs_env \<Rightarrow> fs_ctx \<Rightarrow> (ns \<Rightarrow> script_error + int \<times> ns) \<Rightarrow> int prog" where
  "runMutationScript env ctx script =
     (if ctx_parents (fc_op ctx) = [] then Step (eval_script script)
      else retry_tx 16 env ctx (eval_script script))"

definition ErrPreparationConflict :: client_error where
  "ErrPreparationConflict = ErrOther ''file history preparation conflict''"

definition prepareHistory :: "fs_env \<Rightarrow> unit prog" where
  "prepareHistory env =
     query (\<lambda>ns. case e_prepare env ns of
        Inl e \<Rightarrow> Inl (if e = ErrPreparationConflict then ErrWriteConflict else e)
      | Inr u \<Rightarrow> Inr u)"

fun prepared_attempts :: "nat \<Rightarrow> fs_env \<Rightarrow> fs_ctx \<Rightarrow> (ns \<Rightarrow> script_error + int \<times> ns) \<Rightarrow> int prog" where
  "prepared_attempts 0 env ctx script =
     fail (ErrOther ''versioning policy changed repeatedly during publication; retry'')"
| "prepared_attempts (Suc n) env ctx script =
     pcase (runMutationScript env ctx script) (\<lambda>r.
       case r of
         Inl e \<Rightarrow>
           if e = script_failure PreparationRequired
           then pbind (prepareHistory env) (\<lambda>_. prepared_attempts n env ctx script)
           else fail e
       | Inr code \<Rightarrow> return code)"

definition runPreparedMutation :: "fs_env \<Rightarrow> fs_ctx \<Rightarrow> (ns \<Rightarrow> script_error + int \<times> ns) \<Rightarrow> int prog" where
  "runPreparedMutation env ctx script = prepared_attempts 3 env ctx script"

text \<open>The codes of the scripts as errors.\<close>

definition code_error :: "client_error \<Rightarrow> int \<Rightarrow> client_error option" where
  "code_error minus3 code =
     (if code = - 1 then Some ErrWriteConflict
      else if code = - 2 then Some ErrWorkspaceChanged
      else if code = - 3 then Some minus3
      else if code = - 4 then Some (ErrOther ''workspace change journal has wrong Redis type'')
      else if code = - 5 then Some ErrNativeSessionLost
      else None)"

definition publishStagedFile ::
  "fs_env \<Rightarrow> fs_ctx \<Rightarrow> string \<Rightarrow> inodeData \<Rightarrow> string \<Rightarrow> bool \<Rightarrow> (int \<times> string) option \<Rightarrow> inodeData prog" where
  "publishStagedFile env ctx p d stage creating chunks =
     pbind (Done (checkExpectedParent ctx p (i_parent (d_inode d)))) (\<lambda>_.
     pbind (Done (checkWriteCondition ctx d creating)) (\<lambda>_.
     pbind (newOriginID env) (\<lambda>revision.
       let a = \<lparr>pb_id = d_id d, pb_inode = (d_inode d)\<lparr>i_path := p\<rparr>, pb_revision = revision, pb_create = creating,
                pb_gen = managed_generation ctx, pb_lease = lease_of ctx, pb_stage = stage, pb_ranged = fc_ranged ctx,
                pb_chunks = chunks, pb_payload = e_payload env ''inode'' [p]\<rparr>;
           published = return (d\<lparr>d_inode := (d_inode d)\<lparr>i_revision := revision\<rparr>\<rparr>)
       in pcase (runPreparedMutation env ctx (\<lambda>ns. publishFileScript a (e_capture env ns) ns)) (\<lambda>r.
            case r of
              Inl e \<Rightarrow>
                pbind (query (\<lambda>ns. Inr (revision_of ns (d_id d)))) (\<lambda>token.
                  if token \<noteq> revision then fail e else published)
            | Inr code \<Rightarrow>
                (case code_error (ErrOther ''staged file expired before publication'') code of
                   Some e \<Rightarrow> fail e | None \<Rightarrow> published)))))"

definition deletePublishedInode :: "fs_env \<Rightarrow> fs_ctx \<Rightarrow> string \<Rightarrow> inodeData \<Rightarrow> unit prog" where
  "deletePublishedInode env ctx p d =
     pbind (Done (checkExpectedParent ctx p (i_parent (d_inode d)))) (\<lambda>_.
     pbind (Done (checkWriteCondition ctx d False)) (\<lambda>_.
     pbind (newOriginID env) (\<lambda>operationID.
     pbind (nowMs env) (\<lambda>now.
     pbind (runPreparedMutation env ctx (\<lambda>ns.
         deleteInodeScript (d_id d) (d_inode d) (managed_generation ctx) (lease_of ctx) now
           (e_payload env ''inode'' [p]) (e_capture env ns) ns)) (\<lambda>code.
       case code_error ErrDirNotEmpty code of Some e \<Rightarrow> fail e | None \<Rightarrow> return ())))))"

definition updatePublishedInode ::
  "fs_env \<Rightarrow> fs_ctx \<Rightarrow> string \<Rightarrow> inodeData \<Rightarrow> (inode \<Rightarrow> inode) \<Rightarrow> inodeData prog" where
  "updatePublishedInode env ctx p d f =
     pbind (Done (checkExpectedParent ctx p (i_parent (d_inode d)))) (\<lambda>_.
     pbind (Done (checkWriteCondition ctx d False)) (\<lambda>_.
     pbind (newOriginID env) (\<lambda>revision.
     pbind (runPreparedMutation env ctx (\<lambda>ns.
         updateInodeScript (d_id d) (d_inode d) f (managed_generation ctx) (lease_of ctx) revision
           (e_payload env ''inode'' [p]) (e_capture env ns) ns)) (\<lambda>code.
       if code = - 1 then fail ErrWriteConflict
       else if code = - 2 then fail ErrWorkspaceChanged
       else if code = - 4 then fail (ErrOther ''workspace change journal has wrong Redis type'')
       else if code = - 5 then fail ErrNativeSessionLost
       else return (d\<lparr>d_inode := (d_inode d)\<lparr>i_revision := revision\<rparr>\<rparr>)))))"

section \<open>Resolving and creating\<close>

definition maxSymlinkDepth :: nat where "maxSymlinkDepth = 40"

text \<open>The path a symlink leads to from the directory \<open>curPath\<close>, with the components not yet walked.\<close>

definition symlink_path :: "string \<Rightarrow> string \<Rightarrow> string list \<Rightarrow> string" where
  "symlink_path curPath target rest =
     (let rebuilt = (if HasPrefix target ''/'' then target else path_Join [curPath, target]);
          remaining = join_with slash rest
      in normalizePath (if remaining \<noteq> [] then path_Join [rebuilt, remaining] else rebuilt))"

text \<open>The loop of \<open>resolvePath\<close>; \<open>left\<close> symlinks may still be followed.\<close>

function resolve_loop :: "bool \<Rightarrow> nat \<Rightarrow> string \<Rightarrow> inodeData \<Rightarrow> string list \<Rightarrow> (string \<times> inodeData) prog" where
  "resolve_loop follow left curPath cur [] = return (curPath, cur)"
| "resolve_loop follow left curPath cur (c # cs) =
     pbind (lookupChildID (d_id cur) c) (\<lambda>childID.
     pbind (loadInodeByID childID) (\<lambda>found.
       case found of
         None \<Rightarrow> fail RedisNil
       | Some d \<Rightarrow>
           if i_type (d_inode d) = ''symlink'' \<and> (follow \<or> cs \<noteq> []) then
             (case left of
                0 \<Rightarrow> fail (ErrOther ''too many levels of symbolic links'')
              | Suc left' \<Rightarrow>
                  if i_target (d_inode d) = [] then fail (ErrOther ''invalid symlink target'')
                  else pbind loadRootInode (\<lambda>root.
                    case root of
                      None \<Rightarrow> fail RedisNil
                    | Some r \<Rightarrow>
                        resolve_loop follow left' ''/'' r (splitComponents (symlink_path curPath (i_target (d_inode d)) cs))))
           else if cs = [] then return (joinPath curPath c, d)
           else if i_type (d_inode d) \<noteq> ''dir'' then fail ErrNotDir
           else resolve_loop follow left (joinPath curPath c) d cs))"
  by pat_completeness auto
termination
  by (relation "measures [\<lambda>(_, left, _). left, \<lambda>(_, _, _, _, cs). length cs]") auto

definition resolvePath :: "fs_env \<Rightarrow> fs_ctx \<Rightarrow> string \<Rightarrow> bool \<Rightarrow> (string \<times> inodeData) prog" where
  "resolvePath env ctx p follow =
     pbind (ensureRoot env ctx) (\<lambda>_.
     pbind loadRootInode (\<lambda>root.
       case root of
         None \<Rightarrow> fail RedisNil
       | Some r \<Rightarrow> resolve_loop follow maxSymlinkDepth ''/'' r (splitComponents (normalizePath p))))"

definition loadInode :: "fs_env \<Rightarrow> fs_ctx \<Rightarrow> string \<Rightarrow> inodeData option prog" where
  "loadInode env ctx p =
     pcase (resolvePath env ctx (normalizePath p) False) (\<lambda>r.
       case r of
         Inl e \<Rightarrow> if e = RedisNil then return None else fail e
       | Inr (_, d) \<Rightarrow> return (Some d))"

definition new_inode :: "string \<Rightarrow> nat \<Rightarrow> int \<Rightarrow> int \<Rightarrow> inode" where
  "new_inode kind mode sz now =
     blank_inode\<lparr>i_type := kind, i_mode := mode, i_size := sz, i_ctime := now, i_mtime := now, i_atime := now\<rparr>"


text \<open>The transaction that makes a directory or a symlink; it draws the revision it publishes.\<close>

definition create_tx :: "fs_env \<Rightarrow> inodeData \<Rightarrow> string \<Rightarrow> ns \<Rightarrow> inodeData prog \<times> ns" where
  "create_tx env d childPath ns =
     (let i = d_inode d; after = i\<lparr>i_revision := e_token env (ns_tokens ns), i_path := childPath\<rparr>;
          ns1 = ns\<lparr>ns_tokens := ns_tokens ns + 1\<rparr>
      in if inode_at ns (i_parent i) = None then (fail ErrWriteConflict, ns)
         else if dirent ns (i_parent i) (i_name i) \<noteq> None then (fail ErrAlreadyExists, ns)
         else case createMetadataScript (d_id d) after (e_payload env ''inode'' [childPath]) (e_capture env ns) ns1 of
                Inl e \<Rightarrow> (fail (script_failure e), ns1)
              | Inr (code, ns') \<Rightarrow>
                  (if code = - 1 then fail ErrWriteConflict
                   else return (d\<lparr>d_inode := i\<lparr>i_revision := i_revision after\<rparr>\<rparr>), ns'))"

definition createInodeUnderParent ::
  "fs_env \<Rightarrow> fs_ctx \<Rightarrow> string \<Rightarrow> inodeData \<Rightarrow> string \<Rightarrow> inode \<Rightarrow> string \<Rightarrow> inodeData prog" where
  "createInodeUnderParent env ctx childPath parent name i content =
     (if i_type (d_inode parent) \<noteq> ''dir'' then fail ErrParentConflict
      else
        pbind (Done (checkExpectedParent ctx childPath (d_id parent))) (\<lambda>_.
        pcase (lookupChildID (d_id parent) name) (\<lambda>r.
          case r of
            Inr _ \<Rightarrow> fail ErrAlreadyExists
          | Inl e \<Rightarrow>
              if e \<noteq> RedisNil then fail e
              else
                pbind (allocInodeID env ctx) (\<lambda>x.
                let d = \<lparr>d_id = x, d_inode = i\<lparr>i_parent := d_id parent, i_name := name\<rparr>, d_content = content\<rparr>
                in if i_type i = ''file'' then
                     pbind (selectContentRef env d) (\<lambda>d.
                     pbind (stageFullFile env d) (\<lambda>stage.
                     pfinally
                       (pbind (publishStagedFile env ctx childPath d stage True None) (\<lambda>d.
                        pbind (publishInvalidate env ''dir'' (parentOf childPath)) (\<lambda>_. return d)))
                       (discardStage stage)))
                   else
                     pbind (retry_tx 16 env ctx (create_tx env d childPath)) (\<lambda>d.
                     pbind (publishInvalidate env ''dir'' (parentOf childPath)) (\<lambda>_.
                     pbind (publishInvalidate env ''inode'' childPath) (\<lambda>_. return d)))))))"

fun ensure_loop :: "fs_env \<Rightarrow> fs_ctx \<Rightarrow> string \<Rightarrow> inodeData \<Rightarrow> string list \<Rightarrow> unit prog" where
  "ensure_loop env ctx curPath cur [] = return ()"
| "ensure_loop env ctx curPath cur (part # parts) =
     (let nextPath = joinPath curPath part
      in pcase (lookupChildID (d_id cur) part) (\<lambda>r.
           case r of
             Inr childID \<Rightarrow>
               pbind (loadInodeByID childID) (\<lambda>found.
                 case found of
                   None \<Rightarrow> fail ErrParentConflict
                 | Some child \<Rightarrow>
                     if i_type (d_inode child) \<noteq> ''dir'' then fail ErrParentConflict
                     else ensure_loop env ctx nextPath child parts)
           | Inl e \<Rightarrow>
               if e = RedisNil then
                 pbind (nowMs env) (\<lambda>now.
                 pbind (createInodeUnderParent env ctx nextPath cur part (new_inode ''dir'' 493 0 now) []) (\<lambda>child.
                   ensure_loop env ctx nextPath child parts))
               else fail e))"

definition ensureParents :: "fs_env \<Rightarrow> fs_ctx \<Rightarrow> string \<Rightarrow> unit prog" where
  "ensureParents env ctx p =
     (if ctx_parents (fc_op ctx) \<noteq> [] then
        pcase (resolvePath env ctx (parentOf (normalizePath p)) True) (\<lambda>r.
          case r of
            Inl e \<Rightarrow> fail (if e = RedisNil then ErrWriteConflict else e)
          | Inr (_, parent) \<Rightarrow> Done (checkExpectedParent ctx p (d_id parent)))
      else
        pbind (ensureRoot env ctx) (\<lambda>_.
          if parentOf p = ''/'' then return ()
          else pbind loadRootInode (\<lambda>root.
            case root of
              None \<Rightarrow> fail RedisNil
            | Some cur \<Rightarrow> ensure_loop env ctx ''/'' cur (splitComponents (parentOf p)))))"

definition createInodeAtPath :: "fs_env \<Rightarrow> fs_ctx \<Rightarrow> string \<Rightarrow> inode \<Rightarrow> bool \<Rightarrow> inodeData prog" where
  "createInodeAtPath env ctx p i parents =
     (let p = normalizePath p
      in if p = ''/'' then fail ErrAlreadyExists
         else
           pbind (if parents then ensureParents env ctx p else return ()) (\<lambda>_.
           pbind (resolvePath env ctx (parentOf p) True) (\<lambda>(_, parent).
             createInodeUnderParent env ctx p parent (baseName p) i [])))"

text \<open>After the publication of a new name: it is ours, or someone else has it.\<close>

definition claimed ::
  "fs_env \<Rightarrow> fs_ctx \<Rightarrow> string \<Rightarrow> string \<Rightarrow> bool \<Rightarrow> client_error + inodeData \<Rightarrow> (inodeData \<times> bool) prog" where
  "claimed env ctx p parent exclusive r =
     (case r of
        Inr d \<Rightarrow>
          pbind (publishInvalidate env ''dir'' (parentOf p)) (\<lambda>_.
          pbind (publishInvalidate env ''inode'' p) (\<lambda>_. return (d, True)))
      | Inl e \<Rightarrow>
          if e \<noteq> ErrWriteConflict then fail e
          else if fc_expected ctx \<noteq> None then fail ErrWriteConflict
          else if ctx_parents (fc_op ctx) \<noteq> [] then fail ErrWriteConflict
          else if exclusive then fail ErrAlreadyExists
          else
            pbind (lookupChildID parent (baseName p)) (\<lambda>existingID.
            pbind (loadInodeByID existingID) (\<lambda>found.
              case found of
                None \<Rightarrow> fail ErrNotFound
              | Some existing \<Rightarrow>
                  if i_type (d_inode existing) \<noteq> ''file'' then fail ErrNotFile else return (existing, False))))"

definition createFileIfMissing ::
  "fs_env \<Rightarrow> fs_ctx \<Rightarrow> string \<Rightarrow> string \<Rightarrow> nat \<Rightarrow> bool \<Rightarrow> (inodeData \<times> bool) prog" where
  "createFileIfMissing env ctx p content mode exclusive =
     (let p = normalizePath p
      in if p = ''/'' then fail ErrCannotWriteRoot
         else
           pbind (resolvePath env ctx (parentOf p) True) (\<lambda>(_, parent).
             if i_type (d_inode parent) \<noteq> ''dir'' then fail ErrParentConflict
             else
               pbind (Done (checkExpectedParent ctx p (d_id parent))) (\<lambda>_.
               pbind (allocInodeID env ctx) (\<lambda>x.
               pbind (nowMs env) (\<lambda>now.
               let d = \<lparr>d_id = x,
                        d_inode = (new_inode ''file'' mode (int (length content)) now)
                          \<lparr>i_parent := d_id parent, i_name := baseName p\<rparr>,
                        d_content = content\<rparr>
               in pbind (selectContentRef env d) (\<lambda>d.
                  pbind (Done (checkWriteCondition ctx d True)) (\<lambda>_.
                  pbind (stageFullFile env d) (\<lambda>stage.
                  pfinally
                    (pcase (publishStagedFile env ctx p d stage True None)
                       (claimed env ctx p (d_id parent) exclusive))
                    (discardStage stage)))))))))"

section \<open>Saving\<close>

definition missing_id :: client_error where
  "missing_id = ErrOther ''missing inode id''"

definition saveInodeAtPath :: "fs_env \<Rightarrow> fs_ctx \<Rightarrow> string \<Rightarrow> inodeData \<Rightarrow> inodeData prog" where
  "saveInodeAtPath env ctx p d =
     (if d_id d = [] then fail missing_id
      else updatePublishedInode env ctx p d (write_fields False None ((d_inode d)\<lparr>i_path := p\<rparr>)))"

definition saveInodeMeta :: "fs_env \<Rightarrow> fs_ctx \<Rightarrow> string \<Rightarrow> inodeData \<Rightarrow> inodeData prog" where
  "saveInodeMeta env ctx p d = (if d_id d = [] then fail missing_id else saveInodeAtPath env ctx p d)"

definition saveInode :: "fs_env \<Rightarrow> fs_ctx \<Rightarrow> string \<Rightarrow> inodeData \<Rightarrow> inodeData prog" where
  "saveInode env ctx p d =
     (if d_id d = [] then fail missing_id
      else
        pbind (selectContentRef env d) (\<lambda>d.
          if i_type (d_inode d) \<noteq> ''file'' then saveInodeAtPath env ctx p d
          else
            pbind (Done (checkWriteCondition ctx d False)) (\<lambda>_.
            pbind (stageFullFile env d) (\<lambda>stage.
              pfinally (publishStagedFile env ctx p d stage False None) (discardStage stage)))))"


section \<open>Renaming\<close>

datatype rename_outcome = Renamed inodeData | NeedDirWatch string

definition rename_script ::
  "fs_env \<Rightarrow> inodeData \<Rightarrow> string \<Rightarrow> string \<Rightarrow> string \<Rightarrow> string \<Rightarrow> string \<Rightarrow> string \<Rightarrow> ns \<Rightarrow> rename_outcome prog \<times> ns" where
  "rename_script env src resolvedSrc dst newParent token replaced replacedRev ns =
     (let now = e_clock env ns; i = d_inode src;
          a = \<lparr>rn_id = d_id src, rn_parent = i_parent i, rn_name = i_name i, rn_new_parent = newParent,
               rn_new_name = baseName dst, rn_expected = i_revision i, rn_revision = token, rn_ctime = now,
               rn_payload = e_payload env ''prefix'' [resolvedSrc, dst], rn_replaced = replaced,
               rn_replaced_rev = replacedRev, rn_dst = dst\<rparr>
      in case renameMetadataScript a (e_capture env ns) ns of
           Inl PreparationRequired \<Rightarrow> (pbind (prepareHistory env) (\<lambda>_. fail ErrTxFailed), ns)
         | Inl e \<Rightarrow> (fail (script_failure e), ns)
         | Inr (code, ns') \<Rightarrow>
             (if code = - 1 then fail ErrWriteConflict
              else return (Renamed (src\<lparr>d_inode := i\<lparr>i_parent := newParent, i_name := baseName dst, i_ctime := now,
                     i_revision := token\<rparr>\<rparr>)), ns'))"

text \<open>The transaction of \<open>renamePath\<close>; \<open>watchDst\<close> is the replaced directory whose entries are watched.\<close>

definition rename_tx ::
  "fs_env \<Rightarrow> inodeData \<Rightarrow> string \<Rightarrow> string \<Rightarrow> inodeData \<Rightarrow> bool \<Rightarrow> string \<Rightarrow> string \<Rightarrow> ns \<Rightarrow> rename_outcome prog \<times> ns" where
  "rename_tx env src resolvedSrc dst newParent noreplace watchDst token ns =
     (let i = d_inode src; commit = rename_script env src resolvedSrc dst (d_id newParent) token
      in if inode_at ns (i_parent i) = None \<or> inode_at ns (d_id newParent) = None then (fail ErrWriteConflict, ns)
         else case dirent ns (i_parent i) (i_name i) of
                None \<Rightarrow> (fail ErrNotFound, ns)
              | Some x \<Rightarrow>
                  if x \<noteq> d_id src then (fail ErrTxFailed, ns)
                  else case inodeFromValues x (inode_at ns x) of
                         None \<Rightarrow> (fail ErrNotFound, ns)
                       | Some cur \<Rightarrow>
                           if i_revision (d_inode cur) \<noteq> i_revision i then (fail ErrWriteConflict, ns)
                           else case dirent ns (d_id newParent) (baseName dst) of
                                  None \<Rightarrow> commit [] [] ns
                                | Some y \<Rightarrow>
                                    (case inodeFromValues y (inode_at ns y) of
                                       None \<Rightarrow> (fail ErrTxFailed, ns)
                                     | Some rep \<Rightarrow>
                                         let fromDir = (i_type (d_inode cur) = ''dir''); toDir = (i_type (d_inode rep) = ''dir'')
                                         in if noreplace then (fail ErrAlreadyExists, ns)
                                            else if fromDir \<and> \<not> toDir then (fail ErrNotDir, ns)
                                            else if \<not> fromDir \<and> toDir then (fail ErrNotFile, ns)
                                            else if toDir \<and> watchDst \<noteq> y then (return (NeedDirWatch y), ns)
                                            else if toDir \<and> children ns y \<noteq> [] then (fail ErrDirNotEmpty, ns)
                                            else commit y (i_revision (d_inode rep)) ns))"

text \<open>
  \<open>refreshIndexedSubtree\<close>: the paths to write below \<open>x\<close>. The recursion follows the live entries and
  ends because a subtree has no more levels than the namespace has inodes; \<open>None\<close> is a recursion
  that runs into a cycle and never ends.
\<close>

fun subtree_paths :: "nat \<Rightarrow> ns \<Rightarrow> string \<Rightarrow> string \<Rightarrow> string \<Rightarrow> (string \<times> string) list option" where
  "subtree_paths 0 ns path x kind = None"
| "subtree_paths (Suc n) ns path x kind =
     (if kind \<noteq> ''dir'' then Some [(x, path)]
      else map_option (\<lambda>below. (x, path) # concat below)
             (those (map (\<lambda>(name, c).
                case inodeFromValues c (inode_at ns c) of
                  None \<Rightarrow> Some []
                | Some d \<Rightarrow> subtree_paths n ns (joinPath path name) c (i_type (d_inode d))) (children ns x))))"

definition write_path :: "string \<times> string \<Rightarrow> ns \<Rightarrow> ns" where
  "write_path xp ns = put_inode (fst xp) ((stored_or_blank ns (fst xp))\<lparr>i_path := snd xp\<rparr>) ns"

definition refreshIndexedSubtree :: "fs_env \<Rightarrow> fs_ctx \<Rightarrow> string \<Rightarrow> inodeData \<Rightarrow> unit prog" where
  "refreshIndexedSubtree env ctx path d =
     (if d_id d = [] then return ()
      else retry_tx 16 env ctx (\<lambda>ns.
        case subtree_paths (length (ns_inodes ns) + 1) ns path (d_id d) (i_type (d_inode d)) of
          None \<Rightarrow> (fail (ErrOther ''stack overflow''), ns)
        | Some updates \<Rightarrow> (return (), fold write_path updates ns)))"

fun rename_attempts ::
  "nat \<Rightarrow> fs_env \<Rightarrow> fs_ctx \<Rightarrow> string \<Rightarrow> inodeData \<Rightarrow> string \<Rightarrow> inodeData \<Rightarrow> bool \<Rightarrow> string \<Rightarrow> inodeData prog" where
  "rename_attempts 0 env ctx resolvedSrc src dst newParent noreplace watchDst =
     fail (ErrOther ''destination changed too often'')"
| "rename_attempts (Suc n) env ctx resolvedSrc src dst newParent noreplace watchDst =
     pbind (newOriginID env) (\<lambda>token.
     pbind (retry_tx 16 env ctx (rename_tx env src resolvedSrc dst newParent noreplace watchDst token)) (\<lambda>outcome.
       case outcome of
         NeedDirWatch y \<Rightarrow> rename_attempts n env ctx resolvedSrc src dst newParent noreplace y
       | Renamed d \<Rightarrow>
           pbind (publishInvalidate env ''inode'' (parentOf resolvedSrc)) (\<lambda>_.
           pbind (publishInvalidate env ''inode'' (parentOf dst)) (\<lambda>_.
           pbind (publishInvalidate env ''prefix'' resolvedSrc) (\<lambda>_.
           pbind (publishInvalidate env ''prefix'' dst) (\<lambda>_.
           pbind (refreshIndexedSubtree env ctx dst d) (\<lambda>_. return d)))))))"

definition renamePath ::
  "fs_env \<Rightarrow> fs_ctx \<Rightarrow> string \<Rightarrow> inodeData \<Rightarrow> string \<Rightarrow> inodeData \<Rightarrow> bool \<Rightarrow> inodeData prog" where
  "renamePath env ctx resolvedSrc src dst newParent noreplace =
     pbind (Done (checkExpectedParent ctx resolvedSrc (i_parent (d_inode src)))) (\<lambda>_.
     pbind (Done (checkExpectedParent ctx dst (d_id newParent))) (\<lambda>_.
     pbind (Done (checkWriteCondition ctx src False)) (\<lambda>_.
       if i_parent (d_inode src) = [] then fail ErrNotFound
       else rename_attempts 8 env ctx resolvedSrc src dst newParent noreplace [])))"

section \<open>The operations\<close>

definition Stat :: "fs_env \<Rightarrow> fs_ctx \<Rightarrow> string \<Rightarrow> StatResult option prog" where
  "Stat env ctx p =
     pcase (resolvePath env ctx p False) (\<lambda>r.
       case r of
         Inl e \<Rightarrow> if e = RedisNil then return None else fail e
       | Inr (_, d) \<Rightarrow> return (Some (toStat d)))"

fun cat_attempts :: "nat \<Rightarrow> fs_env \<Rightarrow> fs_ctx \<Rightarrow> string \<Rightarrow> string prog" where
  "cat_attempts 0 env ctx p = fail ErrWriteConflict"
| "cat_attempts (Suc n) env ctx p =
     pbind (resolvePath env ctx p True) (\<lambda>(_, d).
       if i_type (d_inode d) \<noteq> ''file'' then fail ErrNotFile
       else
         pcase (loadContentExternal env (d_id d) (i_ref (d_inode d))) (\<lambda>content.
           if i_ref (d_inode d) = RefArray then
             pbind (query (\<lambda>ns. Inr (revision_of ns (d_id d)))) (\<lambda>revision.
               if revision \<noteq> i_revision (d_inode d) then cat_attempts n env ctx p else Done content)
           else Done content))"

definition Cat :: "fs_env \<Rightarrow> fs_ctx \<Rightarrow> string \<Rightarrow> string prog" where
  "Cat env ctx p = cat_attempts 4 env ctx p"

definition CreateFile :: "fs_env \<Rightarrow> fs_ctx \<Rightarrow> string \<Rightarrow> nat \<Rightarrow> bool \<Rightarrow> (StatResult \<times> bool) prog" where
  "CreateFile env ctx p mode exclusive =
     (let p = normalizePath p
      in if p = ''/'' then fail ErrCannotWriteRoot
         else
           pbind (ensureParents env ctx p) (\<lambda>_.
           pbind (createFileIfMissing env ctx p [] mode exclusive) (\<lambda>(d, created).
           pbind (if created then markRootDirty env ctx else return ()) (\<lambda>_.
             return (toStat d, created)))))"

definition Touch :: "fs_env \<Rightarrow> fs_ctx \<Rightarrow> string \<Rightarrow> unit prog" where
  "Touch env ctx p =
     (let p = normalizePath p
      in if p = ''/'' then fail ErrCannotWriteRoot
         else
           pbind (ensureParents env ctx p) (\<lambda>_.
           pcase (resolvePath env ctx p True) (\<lambda>r.
             case r of
               Inl e \<Rightarrow>
                 if e = RedisNil then pbind (CreateFile env ctx p 420 False) (\<lambda>_. return ()) else fail e
             | Inr (resolved, d) \<Rightarrow>
                 if i_type (d_inode d) \<noteq> ''file'' then fail ErrNotFile
                 else
                   pbind (nowMs env) (\<lambda>now.
                   pbind (saveInodeMeta env ctx resolved
                            (d\<lparr>d_inode := (d_inode d)\<lparr>i_mtime := now, i_atime := now\<rparr>\<rparr>)) (\<lambda>_.
                   pbind (publishInvalidate env ''inode'' resolved) (\<lambda>_. markRootDirty env ctx))))))"

definition createFile :: "fs_env \<Rightarrow> fs_ctx \<Rightarrow> string \<Rightarrow> string \<Rightarrow> nat \<Rightarrow> unit prog" where
  "createFile env ctx p content mode =
     pbind (createFileIfMissing env ctx p content mode False) (\<lambda>(d, created).
     pbind (if \<not> created \<and> content \<noteq> [] then
              pbind (loadContentExternal env (d_id d) (i_ref (d_inode d))) (\<lambda>published.
                if published \<noteq> content then fail ErrWriteConflict else return ())
            else return ()) (\<lambda>_.
       markRootDirty env ctx))"

text \<open>The end of a write: the new content and size, a new time, and the publication.\<close>

definition overwrite :: "fs_env \<Rightarrow> fs_ctx \<Rightarrow> string \<Rightarrow> inodeData \<Rightarrow> string \<Rightarrow> unit prog" where
  "overwrite env ctx resolved d content =
     pbind (nowMs env) (\<lambda>now.
     pbind (saveInode env ctx resolved
              (d\<lparr>d_content := content,
                 d_inode := (d_inode d)\<lparr>i_size := int (length content), i_mtime := now, i_atime := now\<rparr>\<rparr>)) (\<lambda>_.
     pbind (publishInvalidate env ''content'' resolved) (\<lambda>_. markRootDirty env ctx)))"

definition writeFileWithMode :: "fs_env \<Rightarrow> fs_ctx \<Rightarrow> string \<Rightarrow> string \<Rightarrow> nat \<Rightarrow> unit prog" where
  "writeFileWithMode env ctx p data mode =
     (let p = normalizePath p
      in if p = ''/'' then fail ErrCannotWriteRoot
         else
           pbind (ensureParents env ctx p) (\<lambda>_.
           pcase (resolvePath env ctx p True) (\<lambda>r.
             case r of
               Inl e \<Rightarrow> if e = RedisNil then createFile env ctx p data mode else fail e
             | Inr (resolved, d) \<Rightarrow>
                 if i_type (d_inode d) \<noteq> ''file'' then fail ErrNotFile
                 else overwrite env ctx resolved (d\<lparr>d_inode := (d_inode d)\<lparr>i_mode := mode\<rparr>\<rparr>) data)))"

definition writeFile :: "fs_env \<Rightarrow> fs_ctx \<Rightarrow> string \<Rightarrow> string \<Rightarrow> bool \<Rightarrow> unit prog" where
  "writeFile env ctx p data appendMode =
     (let p = normalizePath p
      in if p = ''/'' then fail ErrCannotWriteRoot
         else
           pcase (resolvePath env ctx p True) (\<lambda>r.
             case r of
               Inl e \<Rightarrow>
                 if e = RedisNil then
                   pbind (ensureParents env ctx p) (\<lambda>_. createFile env ctx p data 420)
                 else fail e
             | Inr (resolved, d) \<Rightarrow>
                 if i_type (d_inode d) \<noteq> ''file'' then fail ErrNotFile
                 else if appendMode then
                   pbind (loadContentExternal env (d_id d) (i_ref (d_inode d))) (\<lambda>existing.
                     overwrite env ctx resolved d (existing @ data))
                 else overwrite env ctx resolved d data))"

definition Echo :: "fs_env \<Rightarrow> fs_ctx \<Rightarrow> string \<Rightarrow> string \<Rightarrow> unit prog" where
  "Echo env ctx p data = writeFile env ctx p data False"

definition EchoCreate :: "fs_env \<Rightarrow> fs_ctx \<Rightarrow> string \<Rightarrow> string \<Rightarrow> nat \<Rightarrow> unit prog" where
  "EchoCreate env ctx p data mode = writeFileWithMode env ctx p data mode"

definition EchoAppend :: "fs_env \<Rightarrow> fs_ctx \<Rightarrow> string \<Rightarrow> string \<Rightarrow> unit prog" where
  "EchoAppend env ctx p data = writeFile env ctx p data True"


definition createDirNoParents :: "fs_env \<Rightarrow> fs_ctx \<Rightarrow> string \<Rightarrow> nat \<Rightarrow> unit prog" where
  "createDirNoParents env ctx p mode =
     pbind (nowMs env) (\<lambda>now.
     pbind (createInodeAtPath env ctx p (new_inode ''dir'' mode 0 now) False) (\<lambda>_. return ()))"

definition createDir :: "fs_env \<Rightarrow> fs_ctx \<Rightarrow> string \<Rightarrow> nat \<Rightarrow> unit prog" where
  "createDir env ctx p mode = pbind (ensureParents env ctx p) (\<lambda>_. createDirNoParents env ctx p mode)"

definition MkdirMode :: "fs_env \<Rightarrow> fs_ctx \<Rightarrow> string \<Rightarrow> nat \<Rightarrow> unit prog" where
  "MkdirMode env ctx p mode =
     (let p = normalizePath p
      in if p = ''/'' then ensureRoot env ctx
         else
           pbind (ensureParents env ctx p) (\<lambda>_.
           pbind (loadInode env ctx p) (\<lambda>existing.
             case existing of
               Some d \<Rightarrow> if i_type (d_inode d) = ''dir'' then return () else fail ErrAlreadyExists
             | None \<Rightarrow> pbind (createDir env ctx p mode) (\<lambda>_. markRootDirty env ctx))))"

definition Mkdir :: "fs_env \<Rightarrow> fs_ctx \<Rightarrow> string \<Rightarrow> unit prog" where
  "Mkdir env ctx p = MkdirMode env ctx p 493"

definition Rm :: "fs_env \<Rightarrow> fs_ctx \<Rightarrow> string \<Rightarrow> unit prog" where
  "Rm env ctx p =
     (let p = normalizePath p
      in if p = ''/'' then fail ErrCannotRemoveRoot
         else
           pbind (resolvePath env ctx p False) (\<lambda>(resolved, d).
           pbind (deletePublishedInode env ctx resolved d) (\<lambda>_.
           pbind (publishInvalidate env ''inode'' (parentOf resolved)) (\<lambda>_.
             publishInvalidate env ''inode'' resolved))))"

record LsEntry =
  ls_inode :: nat
  ls_name :: string
  ls_type :: string
  ls_mode :: nat
  ls_uid :: nat
  ls_gid :: nat
  ls_size :: int
  ls_mtime :: int

definition sortNames :: "string gomap \<Rightarrow> string list" where
  "sortNames values = sort (map fst values)"

text \<open>The listing reads the entries of the directory and then all the inodes they name in one pipeline.\<close>

definition listDirChildren :: "inodeData \<Rightarrow> (string \<times> inodeData) list prog" where
  "listDirChildren dir =
     (if i_type (d_inode dir) \<noteq> ''dir'' then fail ErrNotDir
      else
        pbind (query (\<lambda>ns. Inr (children ns (d_id dir)))) (\<lambda>entries.
          query (\<lambda>ns. Inr (List.map_filter (\<lambda>name.
            map_option (Pair name)
              (Option.bind (map_of entries name) (\<lambda>x. inodeFromValues x (inode_at ns x)))) (sortNames entries)))))"

definition ls_entry :: "string \<times> inodeData \<Rightarrow> LsEntry" where
  "ls_entry nd =
     (let i = d_inode (snd nd)
      in \<lparr>ls_inode = inodeUint64 (d_id (snd nd)), ls_name = fst nd, ls_type = i_type i, ls_mode = i_mode i,
          ls_uid = i_uid i, ls_gid = i_gid i, ls_size = i_size i, ls_mtime = i_mtime i\<rparr>)"

definition LsLong :: "fs_env \<Rightarrow> fs_ctx \<Rightarrow> string \<Rightarrow> LsEntry list prog" where
  "LsLong env ctx p =
     pbind (resolvePath env ctx p True) (\<lambda>(resolved, d).
       if i_type (d_inode d) \<noteq> ''dir'' then fail ErrNotDir
       else pbind (listDirChildren d) (\<lambda>entries. return (map ls_entry entries)))"

definition Ls :: "fs_env \<Rightarrow> fs_ctx \<Rightarrow> string \<Rightarrow> string list prog" where
  "Ls env ctx p = pbind (LsLong env ctx p) (\<lambda>entries. return (map ls_name entries))"

unbundle bit_operations_syntax

definition RenameNoreplace :: "32 word" where "RenameNoreplace = 1"
definition RenameExchange :: "32 word" where "RenameExchange = 2"

definition Rename :: "fs_env \<Rightarrow> fs_ctx \<Rightarrow> string \<Rightarrow> string \<Rightarrow> 32 word \<Rightarrow> unit prog" where
  "Rename env ctx src dst flags =
     (let src = normalizePath src; dst = normalizePath dst
      in if src = ''/'' then fail ErrCannotMoveRoot
         else if src = dst then return ()
         else if flags AND RenameExchange \<noteq> 0 then fail ErrUnsupported
         else if flags AND NOT RenameNoreplace \<noteq> 0 then fail ErrUnsupported
         else
           pbind (resolvePath env ctx src False) (\<lambda>(resolvedSrc, d).
             if i_type (d_inode d) = ''dir'' \<and> (dst = resolvedSrc \<or> HasPrefix dst (resolvedSrc @ ''/'')) then
               fail (ErrOther ''cannot move a directory into its own subtree'')
             else
               pbind (resolvePath env ctx (parentOf dst) True) (\<lambda>(_, newParent).
                 if i_type (d_inode newParent) \<noteq> ''dir'' then fail ErrParentConflict
                 else
                   pbind (renamePath env ctx resolvedSrc d dst newParent (flags AND RenameNoreplace \<noteq> 0)) (\<lambda>_.
                     markRootDirty env ctx))))"

definition Mv :: "fs_env \<Rightarrow> fs_ctx \<Rightarrow> string \<Rightarrow> string \<Rightarrow> unit prog" where
  "Mv env ctx src dst = Rename env ctx src dst 0"

definition Ln :: "fs_env \<Rightarrow> fs_ctx \<Rightarrow> string \<Rightarrow> string \<Rightarrow> unit prog" where
  "Ln env ctx target linkpath =
     (let linkpath = normalizePath linkpath
      in if linkpath = ''/'' then fail ErrAlreadyExists
         else
           pbind (ensureParents env ctx linkpath) (\<lambda>_.
           pbind (loadInode env ctx linkpath) (\<lambda>existing.
             if existing \<noteq> None then fail ErrAlreadyExists
             else
               pbind (nowMs env) (\<lambda>now.
               pbind (createInodeAtPath env ctx linkpath
                        ((new_inode ''symlink'' 511 (int (length target)) now)\<lparr>i_target := target\<rparr>) False) (\<lambda>_.
                 markRootDirty env ctx)))))"

definition Readlink :: "fs_env \<Rightarrow> fs_ctx \<Rightarrow> string \<Rightarrow> string prog" where
  "Readlink env ctx p =
     pbind (resolvePath env ctx p False) (\<lambda>(_, d).
       if i_type (d_inode d) \<noteq> ''symlink'' then fail ErrNotSymlink else return (i_target (d_inode d)))"

text \<open>The end of a metadata change.\<close>

definition announce :: "fs_env \<Rightarrow> fs_ctx \<Rightarrow> string \<Rightarrow> unit prog" where
  "announce env ctx resolved =
     pbind (publishInvalidate env ''inode'' resolved) (\<lambda>_. markRootDirty env ctx)"

definition Chmod :: "fs_env \<Rightarrow> fs_ctx \<Rightarrow> string \<Rightarrow> nat \<Rightarrow> unit prog" where
  "Chmod env ctx p mode =
     pbind (resolvePath env ctx p False) (\<lambda>(resolved, d).
     pbind (saveInodeMeta env ctx resolved (d\<lparr>d_inode := (d_inode d)\<lparr>i_mode := mode\<rparr>\<rparr>)) (\<lambda>_.
       announce env ctx resolved))"

definition Chown :: "fs_env \<Rightarrow> fs_ctx \<Rightarrow> string \<Rightarrow> nat \<Rightarrow> nat \<Rightarrow> unit prog" where
  "Chown env ctx p uid gid =
     pbind (resolvePath env ctx p False) (\<lambda>(resolved, d).
     pbind (saveInodeMeta env ctx resolved (d\<lparr>d_inode := (d_inode d)\<lparr>i_uid := uid, i_gid := gid\<rparr>\<rparr>)) (\<lambda>_.
       announce env ctx resolved))"

definition Utimens :: "fs_env \<Rightarrow> fs_ctx \<Rightarrow> string \<Rightarrow> int \<Rightarrow> int \<Rightarrow> unit prog" where
  "Utimens env ctx p atimeMs mtimeMs =
     pbind (resolvePath env ctx p False) (\<lambda>(resolved, d).
     let i = d_inode d;
         i = (if atimeMs \<ge> 0 then i\<lparr>i_atime := atimeMs\<rparr> else i);
         i = (if mtimeMs \<ge> 0 then i\<lparr>i_mtime := mtimeMs\<rparr> else i)
     in pbind (saveInodeMeta env ctx resolved (d\<lparr>d_inode := i\<rparr>)) (\<lambda>_. announce env ctx resolved))"

record AttrUpdate =
  au_mode :: "nat option"
  au_uid :: "nat option"
  au_gid :: "nat option"
  au_atime :: "int option"
  au_mtime :: "int option"

definition IsEmpty :: "AttrUpdate \<Rightarrow> bool" where
  "IsEmpty u \<longleftrightarrow>
     au_mode u = None \<and> au_uid u = None \<and> au_gid u = None \<and> au_atime u = None \<and> au_mtime u = None"

definition apply_attrs :: "AttrUpdate \<Rightarrow> inode \<Rightarrow> inode" where
  "apply_attrs u i =
     i\<lparr>i_mode := (case au_mode u of None \<Rightarrow> i_mode i | Some v \<Rightarrow> v),
       i_uid := (case au_uid u of None \<Rightarrow> i_uid i | Some v \<Rightarrow> v),
       i_gid := (case au_gid u of None \<Rightarrow> i_gid i | Some v \<Rightarrow> v),
       i_atime := (case au_atime u of None \<Rightarrow> i_atime i | Some v \<Rightarrow> v),
       i_mtime := (case au_mtime u of None \<Rightarrow> i_mtime i | Some v \<Rightarrow> v)\<rparr>"

definition SetAttrs :: "fs_env \<Rightarrow> fs_ctx \<Rightarrow> string \<Rightarrow> AttrUpdate \<Rightarrow> unit prog" where
  "SetAttrs env ctx p upd =
     (if IsEmpty upd then return ()
      else
        pbind (resolvePath env ctx p False) (\<lambda>(resolved, d).
        pbind (updatePublishedInode env ctx resolved (d\<lparr>d_inode := apply_attrs upd (d_inode d)\<rparr>) (apply_attrs upd)) (\<lambda>_.
          announce env ctx resolved)))"

text \<open>\<open>Truncate\<close> reads the content, cuts it or fills it with zero bytes, and publishes it again.\<close>

definition resized :: "string \<Rightarrow> nat \<Rightarrow> string" where
  "resized content n = take n content @ replicate (n - length content) zero_byte"

definition FS_Truncate :: "fs_env \<Rightarrow> fs_ctx \<Rightarrow> string \<Rightarrow> int \<Rightarrow> unit prog" where
  "FS_Truncate env ctx p sz =
     (if sz < 0 then fail (ErrOther ''invalid size'')
      else
        pbind (resolvePath env ctx p True) (\<lambda>(resolved, d).
          if i_type (d_inode d) \<noteq> ''file'' then fail ErrNotFile
          else
            pbind (if sz > 0 then loadContentExternal env (d_id d) (i_ref (d_inode d)) else return []) (\<lambda>content.
              overwrite env ctx resolved d (resized content (nat sz)))))"

record InfoResult =
  inf_files :: int
  inf_directories :: int
  inf_symlinks :: int
  inf_bytes :: int
  inf_inodes :: int

definition Info :: "InfoResult prog" where
  "Info =
     query (\<lambda>ns. Inr \<lparr>inf_files = ns_files ns, inf_directories = ns_dirs ns, inf_symlinks = ns_links ns,
       inf_bytes = ns_bytes ns, inf_inodes = ns_files ns + ns_dirs ns + ns_links ns\<rparr>)"


end
