(* ===== verification/Namespace_Inv.thy ===== *)
theory Namespace_Inv
  imports Namespace
begin

text \<open>
  Invariants of the namespace of \<open>Namespace\<close>. What the invariants read of an inode is its node: type,
  parent, name, size and revision. The first part proves the four moves of a linked tree (insert,
  rewrite, remove, move) on plain maps; the second computes the effect of every script on the nodes,
  the directory entries, the contents and the counters; the third lets clients allocate, load, stage
  and run scripts in any order and shows that the invariants hold in every reachable configuration.
\<close>

section \<open>Nodes\<close>

record node =
  nd_type :: string
  nd_parent :: string
  nd_name :: string
  nd_size :: int
  nd_rev :: string

definition node_of :: "inode \<Rightarrow> node" where
  "node_of i = \<lparr>nd_type = i_type i, nd_parent = i_parent i, nd_name = i_name i, nd_size = i_size i, nd_rev = i_revision i\<rparr>"

lemma node_of_simps [simp]:
  "nd_type (node_of i) = i_type i" "nd_parent (node_of i) = i_parent i" "nd_name (node_of i) = i_name i"
  "nd_size (node_of i) = i_size i" "nd_rev (node_of i) = i_revision i"
  "node_of (i\<lparr>i_mtime := t, i_ctime := u\<rparr>) = node_of i"
  by (simp_all add: node_of_def)

definition nodes :: "ns \<Rightarrow> string \<Rightarrow> node option" where
  "nodes ns x = map_option node_of (inode_at ns x)"

definition content_at :: "ns \<Rightarrow> string \<Rightarrow> string option" where
  "content_at ns x = map_of (ns_content ns) x"

lemma nodes_SomeD: "nodes ns x = Some v \<Longrightarrow> \<exists>i. inode_at ns x = Some i \<and> v = node_of i"
  by (auto simp: nodes_def)

lemma nodes_None: "nodes ns x = None \<longleftrightarrow> inode_at ns x = None"
  by (simp add: nodes_def)

lemma of_nodes:
  "type_of ns x = (case nodes ns x of None \<Rightarrow> [] | Some v \<Rightarrow> nd_type v)"
  "size_of ns x = (case nodes ns x of None \<Rightarrow> 0 | Some v \<Rightarrow> nd_size v)"
  "revision_of ns x = (case nodes ns x of None \<Rightarrow> [] | Some v \<Rightarrow> nd_rev v)"
  by (simp_all add: type_of_def size_of_def revision_of_def nodes_def split: option.splits)

section \<open>Linked trees\<close>

text \<open>
  The root is a directory that no entry names; every entry names a node whose parent and name are
  that entry, and every other node is named by the entry its parent and name give, in a directory.
\<close>

definition links :: "(string \<Rightarrow> node option) \<Rightarrow> (string \<Rightarrow> string \<Rightarrow> string option) \<Rightarrow> bool" where
  "links N E \<longleftrightarrow>
     (\<exists>r. N rootInodeID = Some r \<and> nd_type r = ''dir'') \<and>
     (\<forall>d n x. E d n = Some x \<longrightarrow> x \<noteq> rootInodeID \<and> (\<exists>v. N x = Some v \<and> nd_parent v = d \<and> nd_name v = n)) \<and>
     (\<forall>x v. N x = Some v \<and> x \<noteq> rootInodeID \<longrightarrow>
        E (nd_parent v) (nd_name v) = Some x \<and> (\<exists>p. N (nd_parent v) = Some p \<and> nd_type p = ''dir''))"

lemma links_root: "links N E \<Longrightarrow> \<exists>r. N rootInodeID = Some r \<and> nd_type r = ''dir''"
  by (simp add: links_def)

lemma links_entryD:
  "links N E \<Longrightarrow> E d n = Some x \<Longrightarrow>
   x \<noteq> rootInodeID \<and> (\<exists>v p. N x = Some v \<and> nd_parent v = d \<and> nd_name v = n \<and> N d = Some p \<and> nd_type p = ''dir'')"
  unfolding links_def by metis

lemma links_nodeD:
  "links N E \<Longrightarrow> N x = Some v \<Longrightarrow> x \<noteq> rootInodeID \<Longrightarrow>
   E (nd_parent v) (nd_name v) = Some x \<and> (\<exists>p. N (nd_parent v) = Some p \<and> nd_type p = ''dir'')"
  unfolding links_def by metis

lemma links_no_children:
  assumes "links N E" "case N x of None \<Rightarrow> True | Some v \<Rightarrow> nd_type v \<noteq> ''dir''"
  shows "E x n = None"
proof (rule ccontr)
  assume "E x n \<noteq> None"
  then obtain y where "E x n = Some y"
    by blast
  then show False
    using links_entryD [OF assms(1), of x n y] assms(2) by auto
qed

lemma links_insert:
  assumes "links N E" "N x = None" "E d n = None" "N d = Some p" "nd_type p = ''dir''"
    and "nd_parent v = d" "nd_name v = n"
  shows "links (N(x \<mapsto> v)) (E(d := (E d)(n \<mapsto> x)))"
proof -
  have fresh: "x \<noteq> rootInodeID"
    using links_root [OF assms(1)] assms(2) by auto
  have dir: "\<exists>q. (N(x \<mapsto> v)) e = Some q \<and> nd_type q = ''dir''" if "N e = Some q" "nd_type q = ''dir''" for e q
    using that assms(2) by auto
  have E: "(E(d := (E d)(n \<mapsto> x))) e m = (if e = d \<and> m = n then Some x else E e m)" for e m
    by auto
  have 1: "\<exists>q. (N(x \<mapsto> v)) rootInodeID = Some q \<and> nd_type q = ''dir''"
    using links_root [OF assms(1)] dir by blast
  have 2: "z \<noteq> rootInodeID \<and> (\<exists>w. (N(x \<mapsto> v)) z = Some w \<and> nd_parent w = e \<and> nd_name w = m)"
    if "(E(d := (E d)(n \<mapsto> x))) e m = Some z" for e m z
  proof (cases "e = d \<and> m = n")
    case True
    then show ?thesis
      using that fresh assms(6,7) by simp
  next
    case False
    then have "E e m = Some z"
      using that unfolding E by (auto split: if_splits)
    then show ?thesis
      using links_entryD [OF assms(1) \<open>E e m = Some z\<close>] assms(2) by fastforce
  qed
  have 3: "(E(d := (E d)(n \<mapsto> x))) (nd_parent w) (nd_name w) = Some y \<and>
      (\<exists>q. (N(x \<mapsto> v)) (nd_parent w) = Some q \<and> nd_type q = ''dir'')"
    if "(N(x \<mapsto> v)) y = Some w" "y \<noteq> rootInodeID" for y w
  proof (cases "y = x")
    case True
    then show ?thesis
      using that dir [OF assms(4,5)] assms(6,7) unfolding E by auto
  next
    case False
    then have y: "N y = Some w"
      using that(1) by simp
    from links_nodeD [OF assms(1) y that(2)]
    obtain q where q: "E (nd_parent w) (nd_name w) = Some y" "N (nd_parent w) = Some q" "nd_type q = ''dir''"
      by blast
    then show ?thesis
      using assms(3) dir unfolding E by auto
  qed
  show ?thesis
    unfolding links_def using 1 2 3 by blast
qed

lemma links_rewrite:
  assumes "links N E" "N x = Some w" "nd_type v = nd_type w" "nd_parent v = nd_parent w" "nd_name v = nd_name w"
  shows "links (N(x \<mapsto> v)) E"
proof -
  have dir: "\<exists>q. (N(x \<mapsto> v)) e = Some q \<and> nd_type q = ''dir''" if "N e = Some q" "nd_type q = ''dir''" for e q
    using that assms(2,3) by auto
  have 2: "z \<noteq> rootInodeID \<and> (\<exists>u. (N(x \<mapsto> v)) z = Some u \<and> nd_parent u = e \<and> nd_name u = m)" if "E e m = Some z" for e m z
    using links_entryD [OF assms(1) that] assms(2,4,5) by fastforce
  have 3: "E (nd_parent u) (nd_name u) = Some y \<and> (\<exists>q. (N(x \<mapsto> v)) (nd_parent u) = Some q \<and> nd_type q = ''dir'')"
    if "(N(x \<mapsto> v)) y = Some u" "y \<noteq> rootInodeID" for y u
  proof -
    have "\<exists>u'. N y = Some u' \<and> nd_parent u' = nd_parent u \<and> nd_name u' = nd_name u"
      using that(1) assms(2,4,5) by (cases "y = x") auto
    then obtain u' where u': "N y = Some u'" "nd_parent u' = nd_parent u" "nd_name u' = nd_name u"
      by blast
    from links_nodeD [OF assms(1) u'(1) that(2)]
    obtain p where p: "E (nd_parent u) (nd_name u) = Some y" "N (nd_parent u) = Some p" "nd_type p = ''dir''"
      using u' by auto
    then show ?thesis
      using dir [OF p(2,3)] by simp
  qed
  show ?thesis
    unfolding links_def using links_root [OF assms(1)] dir 2 3 by blast
qed

lemma links_remove:
  assumes "links N E" "E d n = Some x" "\<And>m. E x m = None"
  shows "links (N(x := None)) (E(d := (E d)(n := None)))"
proof -
  obtain v where v: "x \<noteq> rootInodeID" "N x = Some v" "nd_parent v = d" "nd_name v = n"
    using links_entryD [OF assms(1,2)] by blast
  have uniq: "e = d \<and> m = n" if "E e m = Some x" for e m
    using links_entryD [OF assms(1) that] v by auto
  have kids: "nd_parent w \<noteq> x" if "N y = Some w" "y \<noteq> rootInodeID" for y w
    using links_nodeD [OF assms(1) that] assms(3) by auto
  have 1: "\<exists>r. (N(x := None)) rootInodeID = Some r \<and> nd_type r = ''dir''"
    using links_root [OF assms(1)] v(1) by simp
  have 2: "z \<noteq> rootInodeID \<and> (\<exists>w. (N(x := None)) z = Some w \<and> nd_parent w = e \<and> nd_name w = m)"
    if "(E(d := (E d)(n := None))) e m = Some z" for e m z
  proof -
    have E: "E e m = Some z" "\<not> (e = d \<and> m = n)"
      using that by (auto split: if_splits)
    then have "z \<noteq> x"
      using uniq by blast
    then show ?thesis
      using links_entryD [OF assms(1) E(1)] by fastforce
  qed
  have 3: "(E(d := (E d)(n := None))) (nd_parent w) (nd_name w) = Some y \<and>
      (\<exists>p. (N(x := None)) (nd_parent w) = Some p \<and> nd_type p = ''dir'')"
    if "(N(x := None)) y = Some w" "y \<noteq> rootInodeID" for y w
  proof -
    have y: "y \<noteq> x" "N y = Some w"
      using that by (auto split: if_splits)
    from links_nodeD [OF assms(1) y(2) that(2)]
    obtain p where p: "E (nd_parent w) (nd_name w) = Some y" "N (nd_parent w) = Some p" "nd_type p = ''dir''"
      by blast
    have "\<not> (nd_parent w = d \<and> nd_name w = n)"
      using p(1) assms(2) y(1) by auto
    then show ?thesis
      using p kids [OF y(2) that(2)] by auto
  qed
  show ?thesis
    unfolding links_def using 1 2 3 by blast
qed

lemma links_move:
  assumes "links N E" "E d n = Some x" "N x = Some v" "E d' n' = None" "N d' = Some p" "nd_type p = ''dir''"
  shows "links (N(x \<mapsto> v\<lparr>nd_parent := d', nd_name := n', nd_rev := r\<rparr>))
     ((E(d := (E d)(n := None)))(d' := ((E(d := (E d)(n := None))) d')(n' \<mapsto> x)))"
    (is "links ?N ?E")
proof -
  have v: "x \<noteq> rootInodeID" "nd_parent v = d" "nd_name v = n"
    using links_entryD [OF assms(1,2)] assms(3) by auto
  have uniq: "e = d \<and> m = n" if "E e m = Some x" for e m
    using links_entryD [OF assms(1) that] v assms(3) by auto
  have dir: "\<exists>q. ?N e = Some q \<and> nd_type q = ''dir''" if "N e = Some q" "nd_type q = ''dir''" for e q
    using that assms(3) by auto
  have E: "?E e m = (if e = d' \<and> m = n' then Some x else if e = d \<and> m = n then None else E e m)" for e m
    by auto
  have 1: "\<exists>q. ?N rootInodeID = Some q \<and> nd_type q = ''dir''"
    using links_root [OF assms(1)] v(1) by simp
  have 2: "z \<noteq> rootInodeID \<and> (\<exists>w. ?N z = Some w \<and> nd_parent w = e \<and> nd_name w = m)" if "?E e m = Some z" for e m z
  proof (cases "e = d' \<and> m = n'")
    case True
    then show ?thesis
      using that v(1) unfolding E by auto
  next
    case False
    then have Ee: "E e m = Some z" "\<not> (e = d \<and> m = n)"
      using that unfolding E by (auto split: if_splits)
    then have "z \<noteq> x"
      using uniq by blast
    then show ?thesis
      using links_entryD [OF assms(1) Ee(1)] by fastforce
  qed
  have 3: "?E (nd_parent w) (nd_name w) = Some y \<and> (\<exists>q. ?N (nd_parent w) = Some q \<and> nd_type q = ''dir'')"
    if "?N y = Some w" "y \<noteq> rootInodeID" for y w
  proof (cases "y = x")
    case True
    then have "w = v\<lparr>nd_parent := d', nd_name := n', nd_rev := r\<rparr>"
      using that(1) by simp
    then show ?thesis
      using True dir [OF assms(5,6)] by simp
  next
    case False
    then have y: "N y = Some w"
      using that(1) by simp
    from links_nodeD [OF assms(1) y that(2)]
    obtain q where q: "E (nd_parent w) (nd_name w) = Some y" "N (nd_parent w) = Some q" "nd_type q = ''dir''"
      by blast
    moreover have "\<not> (nd_parent w = d \<and> nd_name w = n)" "\<not> (nd_parent w = d' \<and> nd_name w = n')"
      using q(1) assms(2,4) False by auto
    ultimately show ?thesis
      using dir [OF q(2,3)] by auto
  qed
  show ?thesis
    unfolding links_def using 1 2 3 by blast
qed

section \<open>What the primitives change\<close>

lemmas views = nodes_def inode_at_def dirent_def children_def content_at_def fun_eq_iff

definition nsum :: "(node \<Rightarrow> int) \<Rightarrow> ns \<Rightarrow> int" where
  "nsum g ns = gsum (\<lambda>i. g (node_of i)) (ns_inodes ns)"

abbreviation ns_wf :: "ns \<Rightarrow> bool" where
  "ns_wf ns \<equiv> gomap_wf (ns_inodes ns)"

lemma put_inode_simps [simp]:
  "nodes (put_inode x i ns) = (nodes ns)(x \<mapsto> node_of i)"
  "dirent (put_inode x i ns) = dirent ns"
  "content_at (put_inode x i ns) = content_at ns"
  "inode_at (put_inode x i ns) = (inode_at ns)(x \<mapsto> i)"
  "ns_wf ns \<Longrightarrow> ns_wf (put_inode x i ns)"
  by (simp_all add: put_inode_def views)

lemma put_dirent_simps [simp]:
  "nodes (put_dirent d n x ns) = nodes ns"
  "dirent (put_dirent d n x ns) = (dirent ns)(d := (dirent ns d)(n \<mapsto> x))"
  "content_at (put_dirent d n x ns) = content_at ns"
  "inode_at (put_dirent d n x ns) = inode_at ns"
  "ns_inodes (put_dirent d n x ns) = ns_inodes ns"
  by (simp_all add: put_dirent_def views)

lemma del_dirent_simps [simp]:
  "nodes (del_dirent d n ns) = nodes ns"
  "dirent (del_dirent d n ns) = (dirent ns)(d := (dirent ns d)(n := None))"
  "content_at (del_dirent d n ns) = content_at ns"
  "inode_at (del_dirent d n ns) = inode_at ns"
  "ns_inodes (del_dirent d n ns) = ns_inodes ns"
  by (simp_all add: del_dirent_def views)

lemma touch_times_simps [simp]:
  "nodes ns d \<noteq> None \<Longrightarrow> nodes (touch_times d ts ns) = nodes ns"
  "dirent (touch_times d ts ns) = dirent ns"
  "content_at (touch_times d ts ns) = content_at ns"
  "ns_wf ns \<Longrightarrow> ns_wf (touch_times d ts ns)"
  by (auto simp: touch_times_def nodes_def fun_eq_iff)

lemma drop_inode_simps [simp]:
  "nodes (drop_inode x ns) = (nodes ns)(x := None)"
  "dirent (drop_inode x ns) = (dirent ns)(x := (\<lambda>_. None))"
  "content_at (drop_inode x ns) = (content_at ns)(x := None)"
  "ns_wf ns \<Longrightarrow> ns_wf (drop_inode x ns)"
  by (simp_all add: drop_inode_def views)

lemma emit_simps [simp]:
  "ns_inodes (emit pl ns) = ns_inodes ns" "ns_dirents (emit pl ns) = ns_dirents ns"
  "ns_content (emit pl ns) = ns_content ns" "ns_stages (emit pl ns) = ns_stages ns"
  "ns_files (emit pl ns) = ns_files ns" "ns_dirs (emit pl ns) = ns_dirs ns"
  "ns_links (emit pl ns) = ns_links ns" "ns_bytes (emit pl ns) = ns_bytes ns" "ns_next (emit pl ns) = ns_next ns"
  by (simp_all add: emit_def)

lemma emit_views [simp]:
  "nodes (emit pl ns) = nodes ns" "dirent (emit pl ns) = dirent ns" "content_at (emit pl ns) = content_at ns"
  by (simp_all add: views)

lemma counters_views [simp]:
  "nodes (ns\<lparr>ns_files := k\<rparr>) = nodes ns" "nodes (ns\<lparr>ns_dirs := k\<rparr>) = nodes ns" "nodes (ns\<lparr>ns_links := k\<rparr>) = nodes ns"
  "nodes (ns\<lparr>ns_bytes := k\<rparr>) = nodes ns" "nodes (ns\<lparr>ns_dirty := b\<rparr>) = nodes ns" "nodes (ns\<lparr>ns_next := k\<rparr>) = nodes ns"
  "dirent (ns\<lparr>ns_files := k\<rparr>) = dirent ns" "dirent (ns\<lparr>ns_dirs := k\<rparr>) = dirent ns"
  "dirent (ns\<lparr>ns_links := k\<rparr>) = dirent ns" "dirent (ns\<lparr>ns_bytes := k\<rparr>) = dirent ns"
  "dirent (ns\<lparr>ns_dirty := b\<rparr>) = dirent ns" "dirent (ns\<lparr>ns_next := k\<rparr>) = dirent ns"
  "content_at (ns\<lparr>ns_files := k\<rparr>) = content_at ns" "content_at (ns\<lparr>ns_dirs := k\<rparr>) = content_at ns"
  "content_at (ns\<lparr>ns_links := k\<rparr>) = content_at ns" "content_at (ns\<lparr>ns_bytes := k\<rparr>) = content_at ns"
  "content_at (ns\<lparr>ns_dirty := b\<rparr>) = content_at ns" "content_at (ns\<lparr>ns_next := k\<rparr>) = content_at ns"
  by (simp_all add: views)

lemma count_kind_simps [simp]:
  "ns_inodes (count_kind k z ns) = ns_inodes ns" "ns_bytes (count_kind k z ns) = ns_bytes ns"
  "nodes (count_kind k z ns) = nodes ns" "dirent (count_kind k z ns) = dirent ns"
  "content_at (count_kind k z ns) = content_at ns"
  by (simp_all add: count_kind_def views)

lemma move_stage_simps [simp]:
  "nodes (move_stage st sz x ns) = nodes ns"
  "dirent (move_stage st sz x ns) = dirent ns"
  "ns_inodes (move_stage st sz x ns) = ns_inodes ns"
  "content_at (move_stage st sz x ns) =
     (if sz = 0 then (content_at ns)(x := None)
      else case map_of (ns_stages ns) st of None \<Rightarrow> content_at ns | Some b \<Rightarrow> (content_at ns)(x \<mapsto> b))"
  by (simp_all add: move_stage_def views split: option.splits)

lemma node_of_stored [simp]: "node_of (stored_or_blank ns x) = (case nodes ns x of None \<Rightarrow> node_of blank_inode | Some v \<Rightarrow> v)"
  by (simp add: stored_or_blank_def nodes_def split: option.splits)

lemma node_of_written:
  "node_of ((write_fields ranged chunks new old)\<lparr>i_revision := r, i_inline := s\<rparr>) = (node_of new)\<lparr>nd_rev := r\<rparr>"
  "node_of ((write_fields ranged chunks new old)\<lparr>i_revision := r\<rparr>) = (node_of new)\<lparr>nd_rev := r\<rparr>"
  by (simp_all add: write_fields_def node_of_def)

lemma nsum_put_new: "nodes ns x = None \<Longrightarrow> nsum g (put_inode x i ns) = nsum g ns + g (node_of i)"
  by (simp add: nsum_def put_inode_def gsum_absent nodes_None inode_at_def)

lemma nsum_put:
  "ns_wf ns \<Longrightarrow> nodes ns x = Some v \<Longrightarrow> nsum g (put_inode x i ns) = nsum g ns + g (node_of i) - g v"
  by (auto simp: nsum_def put_inode_def gsum_update inode_at_def dest!: nodes_SomeD)

lemma nsum_touch: "ns_wf ns \<Longrightarrow> nodes ns d \<noteq> None \<Longrightarrow> nsum g (touch_times d ts ns) = nsum g ns"
  by (auto simp: touch_times_def nsum_put nodes_def)

lemma nsum_drop: "ns_wf ns \<Longrightarrow> nodes ns x = Some v \<Longrightarrow> nsum g (drop_inode x ns) = nsum g ns - g v"
  by (auto simp: nsum_def drop_inode_def gsum_delete inode_at_def dest!: nodes_SomeD)

lemma nsum_cong: "ns_inodes ns' = ns_inodes ns \<Longrightarrow> nsum g ns' = nsum g ns"
  by (simp add: nsum_def)

section \<open>The invariant of the database\<close>

definition typed :: "(string \<Rightarrow> node option) \<Rightarrow> bool" where
  "typed N \<longleftrightarrow> (\<forall>x v. N x = Some v \<longrightarrow> nd_type v \<in> {''file'', ''dir'', ''symlink''})"

text \<open>Exactly the files that are not empty have a content key, which holds as many bytes as the inode says.\<close>

definition stored_at :: "node option \<Rightarrow> string option \<Rightarrow> bool" where
  "stored_at v c =
     (case v of
        None \<Rightarrow> c = None
      | Some v \<Rightarrow>
          if nd_type v = ''file'' \<and> nd_size v \<noteq> 0 then \<exists>b. c = Some b \<and> int (length b) = nd_size v else c = None)"

definition stored :: "(string \<Rightarrow> node option) \<Rightarrow> (string \<Rightarrow> string option) \<Rightarrow> bool" where
  "stored N C \<longleftrightarrow> (\<forall>x. stored_at (N x) (C x))"

abbreviation is_type :: "string \<Rightarrow> node \<Rightarrow> int" where
  "is_type t v \<equiv> of_bool (nd_type v = t)"

abbreviation file_bytes :: "node \<Rightarrow> int" where
  "file_bytes v \<equiv> (if nd_type v = ''file'' then nd_size v else 0)"

definition census :: "ns \<Rightarrow> bool" where
  "census ns \<longleftrightarrow>
     ns_files ns = nsum (is_type ''file'') ns \<and> ns_dirs ns = nsum (is_type ''dir'') ns \<and>
     ns_links ns = nsum (is_type ''symlink'') ns \<and> ns_bytes ns = nsum file_bytes ns"

definition ns_ok :: "ns \<Rightarrow> bool" where
  "ns_ok ns \<longleftrightarrow> ns_wf ns \<and> links (nodes ns) (dirent ns) \<and> typed (nodes ns) \<and> stored (nodes ns) (content_at ns) \<and> census ns"

lemma ns_okD:
  assumes "ns_ok ns"
  shows "ns_wf ns" "links (nodes ns) (dirent ns)" "typed (nodes ns)" "stored (nodes ns) (content_at ns)" "census ns"
  using assms by (simp_all add: ns_ok_def)

lemma typed_update: "typed N \<Longrightarrow> nd_type v \<in> {''file'', ''dir'', ''symlink''} \<Longrightarrow> typed (N(x \<mapsto> v))"
  by (auto simp: typed_def)

lemma typed_remove: "typed N \<Longrightarrow> typed (N(x := None))"
  by (auto simp: typed_def)

lemma storedD: "stored N C \<Longrightarrow> stored_at (N x) (C x)"
  by (simp add: stored_def)

lemma stored_update: "stored N C \<Longrightarrow> stored_at v c \<Longrightarrow> stored (N(x := v)) (C(x := c))"
  by (simp add: stored_def)

lemma stored_update_same: "stored N C \<Longrightarrow> stored_at v (C x) \<Longrightarrow> stored (N(x := v)) C"
  by (simp add: stored_def)

lemma stored_remove: "stored N C \<Longrightarrow> stored (N(x := None)) (C(x := None))"
  by (simp add: stored_def stored_at_def)

lemma stored_keep:
  assumes "stored N C" "N x = Some w" "nd_type v = nd_type w" "nd_size v = nd_size w"
  shows "stored (N(x \<mapsto> v)) C"
proof (rule stored_update_same [OF assms(1)])
  have "stored_at (Some w) (C x)"
    using storedD [OF assms(1), of x] assms(2) by simp
  then show "stored_at (Some v) (C x)"
    using assms(3,4) by (simp add: stored_at_def)
qed

lemma stored_absent: "stored N C \<Longrightarrow> N x = None \<Longrightarrow> C x = None"
  using storedD [of N C x] by (simp add: stored_at_def)

lemma stored_other: "stored N C \<Longrightarrow> N x = None \<Longrightarrow> nd_type v \<noteq> ''file'' \<Longrightarrow> stored (N(x \<mapsto> v)) C"
  using stored_absent [of N C x] by (auto intro!: stored_update_same simp: stored_at_def)

lemma size_nonneg:
  assumes "stored N C" "N x = Some v" "nd_type v = ''file''"
  shows "0 \<le> nd_size v"
proof -
  have "stored_at (Some v) (C x)"
    using storedD [OF assms(1), of x] assms(2) by simp
  then show ?thesis
    using assms(3) by (cases "nd_size v = 0") (auto simp: stored_at_def)
qed

section \<open>What a committed script has checked and what it does\<close>

lemma publish_commit_views:
  assumes "nodes ns (i_parent (pb_inode a)) \<noteq> None"
  shows "nodes (publish_commit a ns) = (nodes ns)(pb_id a \<mapsto> (node_of (pb_inode a))\<lparr>nd_rev := pb_revision a\<rparr>)"
    "dirent (publish_commit a ns) =
       (if pb_create a
        then (dirent ns)(i_parent (pb_inode a) :=
               (dirent ns (i_parent (pb_inode a)))(i_name (pb_inode a) \<mapsto> pb_id a))
        else dirent ns)"
    "content_at (publish_commit a ns) = content_at (move_stage (pb_stage a) (i_size (pb_inode a)) (pb_id a) ns)"
    "ns_wf ns \<Longrightarrow> ns_wf (publish_commit a ns)"
  using assms
  by (cases "pb_create a"; simp add: publish_commit_def Let_def node_of_written del: move_stage_simps(4))+

lemma nsum_views [simp]:
  "nsum g (put_dirent d n x ns) = nsum g ns" "nsum g (del_dirent d n ns) = nsum g ns"
  "nsum g (count_kind k z ns) = nsum g ns" "nsum g (emit pl ns) = nsum g ns" "nsum g (move_stage st sz x ns) = nsum g ns"
  "nsum g (ns\<lparr>ns_files := k'\<rparr>) = nsum g ns" "nsum g (ns\<lparr>ns_dirs := k'\<rparr>) = nsum g ns"
  "nsum g (ns\<lparr>ns_links := k'\<rparr>) = nsum g ns" "nsum g (ns\<lparr>ns_bytes := k'\<rparr>) = nsum g ns"
  "nsum g (ns\<lparr>ns_dirty := b\<rparr>) = nsum g ns"
  by (simp_all add: nsum_def)

definition was :: "(node \<Rightarrow> int) \<Rightarrow> ns \<Rightarrow> string \<Rightarrow> int" where
  "was g ns x = (case nodes ns x of None \<Rightarrow> 0 | Some v \<Rightarrow> g v)"

lemma nsum_rewrite: "ns_wf ns \<Longrightarrow> nsum g (put_inode x i ns) = nsum g ns + g (node_of i) - was g ns x"
  by (cases "nodes ns x") (simp_all add: nsum_put_new nsum_put was_def)

lemma nsum_removed: "ns_wf ns \<Longrightarrow> nsum g (drop_inode x ns) = nsum g ns - was g ns x"
proof (cases "nodes ns x")
  case None
  then have "map_of (ns_inodes ns) x = None"
    by (simp add: nodes_None inode_at_def)
  then show ?thesis
    using None by (simp add: nsum_def drop_inode_def mdelete_absent was_def)
qed (simp add: nsum_drop was_def)

lemma counters_of [simp]:
  "ns_files (put_inode x i ns) = ns_files ns" "ns_files (put_dirent d n x ns) = ns_files ns"
  "ns_files (del_dirent d n ns) = ns_files ns" "ns_files (drop_inode x ns) = ns_files ns"
  "ns_files (touch_times d t ns) = ns_files ns" "ns_files (move_stage st sz x ns) = ns_files ns"
  "ns_dirs (put_inode x i ns) = ns_dirs ns" "ns_dirs (put_dirent d n x ns) = ns_dirs ns"
  "ns_dirs (del_dirent d n ns) = ns_dirs ns" "ns_dirs (drop_inode x ns) = ns_dirs ns"
  "ns_dirs (touch_times d t ns) = ns_dirs ns" "ns_dirs (move_stage st sz x ns) = ns_dirs ns"
  "ns_links (put_inode x i ns) = ns_links ns" "ns_links (put_dirent d n x ns) = ns_links ns"
  "ns_links (del_dirent d n ns) = ns_links ns" "ns_links (drop_inode x ns) = ns_links ns"
  "ns_links (touch_times d t ns) = ns_links ns" "ns_links (move_stage st sz x ns) = ns_links ns"
  "ns_bytes (put_inode x i ns) = ns_bytes ns" "ns_bytes (put_dirent d n x ns) = ns_bytes ns"
  "ns_bytes (del_dirent d n ns) = ns_bytes ns" "ns_bytes (drop_inode x ns) = ns_bytes ns"
  "ns_bytes (touch_times d t ns) = ns_bytes ns" "ns_bytes (move_stage st sz x ns) = ns_bytes ns"
  by (simp_all add: put_inode_def put_dirent_def del_dirent_def drop_inode_def touch_times_def move_stage_def)

lemma publish_commit_nsum:
  assumes "nodes ns (i_parent (pb_inode a)) \<noteq> None" "ns_wf ns"
  shows "nsum g (publish_commit a ns) =
    nsum g ns + g ((node_of (pb_inode a))\<lparr>nd_rev := pb_revision a\<rparr>) - was g ns (pb_id a)"
proof -
  have "was g (move_stage st sz y ns) z = was g ns z" for st sz y z
    by (simp add: was_def)
  then show ?thesis
    using assms
    by (cases "pb_create a"; simp add: publish_commit_def Let_def node_of_written nsum_touch nsum_rewrite del: move_stage_simps(4))
qed

lemma publish_commit_counters:
  "ns_files (publish_commit a ns) = ns_files ns + of_bool (pb_create a)"
  "ns_dirs (publish_commit a ns) = ns_dirs ns" "ns_links (publish_commit a ns) = ns_links ns"
  "ns_bytes (publish_commit a ns) = ns_bytes ns + i_size (pb_inode a) - size_of ns (pb_id a)"
  by (cases "pb_create a"; simp add: publish_commit_def Let_def)+

lemma publish_commit_ok:
  assumes ok: "ns_ok ns" and isfile: "i_type (pb_inode a) = ''file''"
    and parent: "nodes ns (i_parent (pb_inode a)) = Some p" "nd_type p = ''dir''"
    and target: "if pb_create a then nodes ns (pb_id a) = None \<and> dirent ns (i_parent (pb_inode a)) (i_name (pb_inode a)) = None
      else \<exists>v. nodes ns (pb_id a) = Some v \<and> nd_type v = ''file'' \<and>
        dirent ns (i_parent (pb_inode a)) (i_name (pb_inode a)) = Some (pb_id a)"
    and staged: "map_of (ns_stages ns) (pb_stage a) = Some b" "int (length b) = i_size (pb_inode a)"
  shows "ns_ok (publish_commit a ns)"
proof -
  let ?i = "pb_inode a" and ?x = "pb_id a"
  let ?v = "(node_of ?i)\<lparr>nd_rev := pb_revision a\<rparr>"
  have live: "nodes ns (i_parent ?i) \<noteq> None"
    using parent by simp
  note okD = ns_okD [OF ok]
  note views = publish_commit_views [OF live]
  have "links ((nodes ns)(?x \<mapsto> ?v)) (dirent (publish_commit a ns))"
  proof (cases "pb_create a")
    case True
    then show ?thesis
      using links_insert [OF okD(2) _ _ parent, of ?x "i_name ?i" ?v] target unfolding views(2) by simp
  next
    case False
    then obtain v where v: "nodes ns ?x = Some v" "nd_type v = ''file''"
        "dirent ns (i_parent ?i) (i_name ?i) = Some ?x"
      using target by auto
    then show ?thesis
      using links_rewrite [OF okD(2) v(1), of ?v] links_entryD [OF okD(2) v(3)] False isfile unfolding views(2) by simp
  qed
  moreover have "stored ((nodes ns)(?x \<mapsto> ?v)) (content_at (publish_commit a ns))"
  proof (cases "i_size ?i = 0")
    case True
    then show ?thesis
      unfolding views(3) using okD(4) isfile by (auto intro!: stored_update simp: stored_at_def)
  next
    case False
    then show ?thesis
      unfolding views(3) using okD(4) isfile staged by (auto intro!: stored_update simp: stored_at_def)
  qed
  moreover have "census (publish_commit a ns)"
    using okD(5) target isfile unfolding census_def publish_commit_nsum [OF live okD(1)] publish_commit_counters
    by (cases "pb_create a") (auto simp: was_def of_nodes(2))
  ultimately show ?thesis
    unfolding ns_ok_def views(1) using okD(1,3) isfile views(4) by (simp add: typed_update)
qed

lemma create_commit_ok:
  assumes ok: "ns_ok ns" and kind: "i_type i \<in> {''dir'', ''symlink''}"
    and parent: "nodes ns (i_parent i) = Some p" "nd_type p = ''dir''"
    and fresh: "nodes ns x = None" "dirent ns (i_parent i) (i_name i) = None"
  shows "ns_ok (create_commit x i payload ns)"
proof -
  let ?v = "(node_of i)\<lparr>nd_rev := i_revision i\<rparr>"
  note okD = ns_okD [OF ok]
  have live: "nodes ns (i_parent i) \<noteq> None"
    using parent by simp
  have views: "nodes (create_commit x i payload ns) = (nodes ns)(x \<mapsto> ?v)"
      "dirent (create_commit x i payload ns) = (dirent ns)(i_parent i := (dirent ns (i_parent i))(i_name i \<mapsto> x))"
      "content_at (create_commit x i payload ns) = content_at ns" "ns_wf (create_commit x i payload ns)"
    using live okD(1) by (cases "i_type i = ''dir''"; simp add: create_commit_def Let_def node_of_written)+
  have nsum: "nsum g (create_commit x i payload ns) = nsum g ns + g ?v" for g
    using live okD(1) fresh(1)
    by (cases "i_type i = ''dir''"; simp add: create_commit_def Let_def node_of_written nsum_touch nsum_put_new)
  have "census (create_commit x i payload ns)"
    using okD(5) kind unfolding census_def nsum
    by (cases "i_type i = ''dir''"; simp add: create_commit_def Let_def)
  moreover have "links ((nodes ns)(x \<mapsto> ?v)) ((dirent ns)(i_parent i := (dirent ns (i_parent i))(i_name i \<mapsto> x)))"
    using links_insert [OF okD(2) fresh parent] by simp
  moreover have "stored ((nodes ns)(x \<mapsto> ?v)) (content_at ns)"
    using okD(4) fresh(1) kind by (intro stored_other) auto
  ultimately show ?thesis
    unfolding ns_ok_def views using okD(3) kind views(4) by (auto intro: typed_update)
qed



text \<open>The counters follow when one node leaves; they read only its type and its size.\<close>

definition tally :: "(node \<Rightarrow> int) \<Rightarrow> bool" where
  "tally g \<longleftrightarrow> (\<forall>v p n r. g (v\<lparr>nd_parent := p, nd_name := n, nd_rev := r\<rparr>) = g v)"

lemma census_remove:
  assumes "census ns" "v \<in> ran (nodes ns)" "typed (nodes ns)" "stored (nodes ns) C"
    and "\<And>g. tally g \<Longrightarrow> nsum g ns' = nsum g ns - g v"
    and "ns_files ns' = ns_files ns - of_bool (nd_type v = ''file'')"
    "ns_dirs ns' = ns_dirs ns - of_bool (nd_type v = ''dir'')"
    "ns_links ns' = ns_links ns - of_bool (nd_type v = ''symlink'')"
    "ns_bytes ns' = ns_bytes ns - (if nd_type v = ''file'' \<and> nd_size v > 0 then nd_size v else 0)"
  shows "census ns'"
proof -
  obtain x where "nodes ns x = Some v"
    using assms(2) by (auto simp: ran_def)
  then have "nd_type v = ''file'' \<Longrightarrow> 0 \<le> nd_size v"
    using size_nonneg [OF assms(4)] by blast
  then have "(if nd_type v = ''file'' \<and> nd_size v > 0 then nd_size v else 0) = file_bytes v"
    by auto
  moreover have "tally (is_type t)" "tally file_bytes" for t
    by (simp_all add: tally_def)
  ultimately show ?thesis
    using assms(1) unfolding census_def by (simp add: assms(5-))
qed

lemma delete_commit_ok:
  assumes ok: "ns_ok ns" and linked: "dirent ns (i_parent i) (i_name i) = Some x"
    and empty: "\<And>n. dirent ns x n = None"
  shows "ns_ok (delete_commit x i now payload ns)"
proof -
  note okD = ns_okD [OF ok]
  obtain v p where v: "x \<noteq> rootInodeID" "nodes ns x = Some v" "nd_parent v = i_parent i" "nd_name v = i_name i"
      "nodes ns (i_parent i) = Some p" "nd_type p = ''dir''"
    using links_entryD [OF okD(2) linked] by blast
  have apart: "x \<noteq> i_parent i"
    using empty [of "i_name i"] linked by auto
  have kind: "type_of ns x = nd_type v" "size_of ns x = nd_size v"
    using v(2) by (simp_all add: of_nodes)
  have views: "nodes (delete_commit x i now payload ns) = (nodes ns)(x := None)"
      "dirent (delete_commit x i now payload ns) = (dirent ns)(i_parent i := (dirent ns (i_parent i))(i_name i := None))"
      "content_at (delete_commit x i now payload ns) = (content_at ns)(x := None)"
      "ns_wf (delete_commit x i now payload ns)"
    using v(5) okD(1) apart empty
    by (cases "nd_type v = ''file'' \<and> nd_size v > 0"; simp add: delete_commit_def Let_def kind fun_eq_iff)+
  have nsum: "nsum g (delete_commit x i now payload ns) = nsum g ns - g v" for g
    using v(2,5) okD(1) apart
    by (cases "nd_type v = ''file'' \<and> nd_size v > 0"; simp add: delete_commit_def Let_def kind nsum_touch nsum_drop)
  have kinds: "nd_type v \<in> {''file'', ''dir'', ''symlink''}"
    using okD(3) v(2) by (simp add: typed_def)
  have counters: "ns_files (delete_commit x i now payload ns) = ns_files ns - of_bool (nd_type v = ''file'')"
      "ns_dirs (delete_commit x i now payload ns) = ns_dirs ns - of_bool (nd_type v = ''dir'')"
      "ns_links (delete_commit x i now payload ns) = ns_links ns - of_bool (nd_type v = ''symlink'')"
      "ns_bytes (delete_commit x i now payload ns) =
         ns_bytes ns - (if nd_type v = ''file'' \<and> nd_size v > 0 then nd_size v else 0)"
    using kinds unfolding delete_commit_def Let_def kind by (auto simp: count_kind_def)
  have "v \<in> ran (nodes ns)"
    using v(2) by (rule ranI)
  then have "census (delete_commit x i now payload ns)"
    using census_remove [OF okD(5) _ okD(3,4) nsum counters] by blast
  then show ?thesis
    unfolding ns_ok_def views
    using links_remove [OF okD(2) linked empty] typed_remove [OF okD(3)] stored_remove [OF okD(4)] views(4) by simp
qed

lemma update_commit_ok:
  assumes ok: "ns_ok ns" and v: "nodes ns x = Some v"
    and keeps: "\<And>j. inode_at ns x = Some j \<Longrightarrow> i_type (f j) = i_type j \<and> i_size (f j) = i_size j \<and>
      i_parent (f j) = i_parent j \<and> i_name (f j) = i_name j"
  shows "ns_ok (update_commit x f token payload ns)"
proof -
  note okD = ns_okD [OF ok]
  obtain j where j: "inode_at ns x = Some j" "v = node_of j"
    using nodes_SomeD [OF v] by blast
  let ?w = "node_of ((f j)\<lparr>i_revision := token\<rparr>)"
  have s: "stored_or_blank ns x = j"
    using j by (simp add: stored_or_blank_def)
  have w: "nd_type ?w = nd_type v" "nd_size ?w = nd_size v" "nd_parent ?w = nd_parent v" "nd_name ?w = nd_name v"
    using keeps [OF j(1)] j(2) by simp_all
  have "census (update_commit x f token payload ns)"
    using okD(1,5) v w(1,2) unfolding census_def by (simp add: update_commit_def s nsum_rewrite was_def)
  then show ?thesis
    unfolding ns_ok_def
    using links_rewrite [OF okD(2) v w(1,3,4)] stored_keep [OF okD(4) v w(1,2)] typed_update [OF okD(3), of ?w] okD(1,3) v w(1)
    by (simp add: update_commit_def s typed_def)
qed

lemma node_of_moved:
  "node_of (j\<lparr>i_parent := p, i_name := n, i_ctime := t, i_path := q, i_revision := r\<rparr>) =
   (node_of j)\<lparr>nd_parent := p, nd_name := n, nd_rev := r\<rparr>"
  by (simp add: node_of_def)

lemma rename_link_views:
  assumes "ns_wf ns" "nodes ns (rn_id a) = Some v" "nodes ns (rn_parent a) \<noteq> None" "nodes ns (rn_new_parent a) \<noteq> None"
  shows "nodes (rename_link a ns) =
      (nodes ns)(rn_id a \<mapsto> v\<lparr>nd_parent := rn_new_parent a, nd_name := rn_new_name a, nd_rev := rn_revision a\<rparr>)"
    "dirent (rename_link a ns) =
      (let E = (dirent ns)(rn_parent a := (dirent ns (rn_parent a))(rn_name a := None))
       in E(rn_new_parent a := (E (rn_new_parent a))(rn_new_name a \<mapsto> rn_id a)))"
    "content_at (rename_link a ns) = content_at ns"
    "ns_wf (rename_link a ns)"
    "tally g \<Longrightarrow> nsum g (rename_link a ns) = nsum g ns"
proof -
  let ?w = "v\<lparr>nd_parent := rn_new_parent a, nd_name := rn_new_name a, nd_rev := rn_revision a\<rparr>"
  let ?m = "put_dirent (rn_new_parent a) (rn_new_name a) (rn_id a) (del_dirent (rn_parent a) (rn_name a) ns)"
  let ?i = "(stored_or_blank ?m (rn_id a))\<lparr>i_parent := rn_new_parent a, i_name := rn_new_name a,
     i_ctime := rn_ctime a, i_path := rn_dst a, i_revision := rn_revision a\<rparr>"
  let ?p = "put_inode (rn_id a) ?i ?m"
  have link: "rename_link a ns = touch_times (rn_new_parent a) (rn_ctime a) (touch_times (rn_parent a) (rn_ctime a) ?p)"
    by (simp add: rename_link_def Let_def)
  have "node_of ?i = ?w"
    using assms(2) by (simp add: node_of_moved)
  then have p: "nodes ?p = (nodes ns)(rn_id a \<mapsto> ?w)"
    by simp
  then have live: "nodes ?p (rn_parent a) \<noteq> None" "nodes ?p (rn_new_parent a) \<noteq> None"
    using assms(3,4) by auto
  show "nodes (rename_link a ns) = (nodes ns)(rn_id a \<mapsto> ?w)"
    unfolding link using p live by simp
  show "dirent (rename_link a ns) =
      (let E = (dirent ns)(rn_parent a := (dirent ns (rn_parent a))(rn_name a := None))
       in E(rn_new_parent a := (E (rn_new_parent a))(rn_new_name a \<mapsto> rn_id a)))"
    unfolding link by simp
  show "content_at (rename_link a ns) = content_at ns"
    unfolding link by simp
  show wf: "ns_wf (rename_link a ns)"
    unfolding link using assms(1) by simp
  have "nodes ?m (rn_id a) = Some v"
    using assms(2) by simp
  then show "tally g \<Longrightarrow> nsum g (rename_link a ns) = nsum g ns"
    unfolding link using assms(1) live p \<open>node_of ?i = ?w\<close>
    by (simp add: nsum_touch nsum_rewrite was_def tally_def)
qed

lemma rename_link_parts:
  assumes ok: "ns_ok ns" and v: "nodes ns (rn_id a) = Some v"
    and live: "nodes ns (rn_parent a) \<noteq> None" "nodes ns (rn_new_parent a) \<noteq> None"
  shows "ns_wf (rename_link a ns)" "typed (nodes (rename_link a ns))"
    "stored (nodes (rename_link a ns)) (content_at (rename_link a ns))" "census (rename_link a ns)"
proof -
  note okD = ns_okD [OF ok] and link = rename_link_views [OF ns_okD(1) [OF ok] v live]
  let ?w = "v\<lparr>nd_parent := rn_new_parent a, nd_name := rn_new_name a, nd_rev := rn_revision a\<rparr>"
  have w: "nd_type ?w = nd_type v" "nd_size ?w = nd_size v"
    by simp_all
  show "ns_wf (rename_link a ns)"
    by (rule link(4))
  show "typed (nodes (rename_link a ns))"
    unfolding link(1) using okD(3) v by (intro typed_update) (auto simp: typed_def)
  show "stored (nodes (rename_link a ns)) (content_at (rename_link a ns))"
    unfolding link(1,3) using stored_keep [OF okD(4) v w] .
  have tally: "tally (is_type t)" "tally file_bytes" for t
    by (simp_all add: tally_def)
  have counters: "ns_files (rename_link a ns) = ns_files ns" "ns_dirs (rename_link a ns) = ns_dirs ns"
      "ns_links (rename_link a ns) = ns_links ns" "ns_bytes (rename_link a ns) = ns_bytes ns"
    by (simp_all add: rename_link_def Let_def)
  show "census (rename_link a ns)"
    using okD(5) unfolding census_def counters by (simp add: link(5) [OF tally(1)] link(5) [OF tally(2)])
qed

lemma rename_free_links:
  assumes "ns_ok ns" "dirent ns (rn_parent a) (rn_name a) = Some (rn_id a)"
    "nodes ns (rn_new_parent a) = Some p" "nd_type p = ''dir''"
    "dirent ns (rn_new_parent a) (rn_new_name a) = None"
  shows "links (nodes (rename_link a ns)) (dirent (rename_link a ns))"
proof -
  note okD = ns_okD [OF assms(1)]
  obtain v q where v: "nodes ns (rn_id a) = Some v" "nodes ns (rn_parent a) = Some q"
    using links_entryD [OF okD(2) assms(2)] by blast
  note link = rename_link_views [OF okD(1) v(1)]
  show ?thesis
    using links_move [OF okD(2) assms(2) v(1) assms(5,3,4)] v(2) assms(3) link(1,2) by (simp add: Let_def)
qed

lemma rename_replace_links:
  assumes ok: "ns_ok ns" and src: "dirent ns (rn_parent a) (rn_name a) = Some (rn_id a)"
    and dst: "nodes ns (rn_new_parent a) = Some p" "nd_type p = ''dir''"
    and y: "dirent ns (rn_new_parent a) (rn_new_name a) = Some y" "y \<noteq> rn_id a"
    and empty: "\<And>n. dirent ns y n = None"
  shows "links (nodes (drop_inode y (rename_link a ns))) (dirent (drop_inode y (rename_link a ns)))"
proof -
  let ?x = "rn_id a" and ?d = "rn_parent a" and ?n = "rn_name a" and ?d' = "rn_new_parent a" and ?n' = "rn_new_name a"
  note okD = ns_okD [OF ok]
  obtain v q where v: "nodes ns ?x = Some v" "nodes ns ?d = Some q"
    using links_entryD [OF okD(2) src] by blast
  let ?w = "v\<lparr>nd_parent := ?d', nd_name := ?n', nd_rev := rn_revision a\<rparr>"
  have live: "nodes ns ?d \<noteq> None" "nodes ns ?d' \<noteq> None"
    using v(2) dst(1) by auto
  note link = rename_link_views [OF okD(1) v(1) live]
  have apart: "?d' \<noteq> y" "?d \<noteq> y"
    using empty y(1) src by force+
  let ?N = "(nodes ns)(y := None)" and ?E = "(dirent ns)(?d' := (dirent ns ?d')(?n' := None))"
  have rm: "links ?N ?E"
    using links_remove [OF okD(2) y(1) empty] .
  have "links (?N(?x \<mapsto> ?w)) ((?E(?d := (?E ?d)(?n := None)))(?d' := ((?E(?d := (?E ?d)(?n := None))) ?d')(?n' \<mapsto> ?x)))"
    using src y apart v(1) dst by (intro links_move [OF rm]) auto
  moreover have "nodes (drop_inode y (rename_link a ns)) = ?N(?x \<mapsto> ?w)"
    unfolding drop_inode_simps link(1) using y(2) by auto
  moreover have "dirent (drop_inode y (rename_link a ns)) =
      (?E(?d := (?E ?d)(?n := None)))(?d' := ((?E(?d := (?E ?d)(?n := None))) ?d')(?n' \<mapsto> ?x))"
    unfolding drop_inode_simps link(2) Let_def using apart empty by (auto simp: fun_eq_iff)
  ultimately show ?thesis
    by simp
qed

lemma rename_commit_ok:
  assumes ok: "ns_ok ns" and src: "dirent ns (rn_parent a) (rn_name a) = Some (rn_id a)"
    and dst: "nodes ns (rn_new_parent a) = Some p" "nd_type p = ''dir''"
    and linked: "linked = dirent ns (rn_new_parent a) (rn_new_name a)" "linked \<noteq> Some (rn_id a)"
    and empty: "\<And>y n. linked = Some y \<Longrightarrow> dirent ns y n = None"
  shows "ns_ok (rename_commit a linked ns)"
proof -
  note okD = ns_okD [OF ok]
  obtain v q where v: "nodes ns (rn_id a) = Some v" "nodes ns (rn_parent a) = Some q"
    using links_entryD [OF okD(2) src] by blast
  have live: "nodes ns (rn_parent a) \<noteq> None" "nodes ns (rn_new_parent a) \<noteq> None"
    using v(2) dst(1) by auto
  note parts = rename_link_parts [OF ok v(1) live]
  show ?thesis
  proof (cases linked)
    case None
    then have "ns_ok (rename_link a ns)"
      using rename_free_links [OF ok src dst] parts linked(1) by (simp add: ns_ok_def)
    then show ?thesis
      using None by (simp add: rename_commit_def ns_ok_def census_def)
  next
    case (Some y)
    then have y: "dirent ns (rn_new_parent a) (rn_new_name a) = Some y" "y \<noteq> rn_id a"
      using linked by auto
    obtain u where u: "nodes ns y = Some u"
      using links_entryD [OF okD(2) y(1)] by blast
    then have u': "nodes (rename_link a ns) y = Some u"
      using rename_link_views(1) [OF okD(1) v(1) live] y(2) by simp
    have kinds: "nd_type u \<in> {''file'', ''dir'', ''symlink''}"
      using okD(3) u by (simp add: typed_def)
    have kind: "replaced_kind ns y = nd_type u" "size_of ns y = nd_size u"
      using kinds u by (auto simp: replaced_kind_def of_nodes)
    let ?r = "rename_commit a (Some y) ns" and ?c = "count_kind (nd_type u) (- 1) (drop_inode y (rename_link a ns))"
    have r: "?r = emit (rn_payload a)
        ((if nd_type u = ''file'' \<and> nd_size u > 0 then ?c\<lparr>ns_bytes := ns_bytes ?c - nd_size u\<rparr> else ?c)\<lparr>ns_dirty := True\<rparr>)"
      by (simp add: rename_commit_def Let_def kind)
    have counters: "ns_files ?r = ns_files (rename_link a ns) - of_bool (nd_type u = ''file'')"
        "ns_dirs ?r = ns_dirs (rename_link a ns) - of_bool (nd_type u = ''dir'')"
        "ns_links ?r = ns_links (rename_link a ns) - of_bool (nd_type u = ''symlink'')"
        "ns_bytes ?r = ns_bytes (rename_link a ns) - (if nd_type u = ''file'' \<and> nd_size u > 0 then nd_size u else 0)"
      using kinds unfolding r by (auto simp: count_kind_def)
    have nsum: "nsum g ?r = nsum g (rename_link a ns) - g u" for g
      unfolding r using nsum_drop [OF parts(1) u'] by simp
    have "u \<in> ran (nodes (rename_link a ns))"
      using u' by (rule ranI)
    then have "census ?r"
      using census_remove [OF parts(4) _ parts(2,3) _ counters] nsum by blast
    then show ?thesis
      using rename_replace_links [OF ok src dst y empty [OF Some]] typed_remove [OF parts(2), of y]
        stored_remove [OF parts(3), of y] parts(1)
      unfolding Some ns_ok_def by (simp add: r)
  qed
qed

end
