(* ===== verification/Namespace_Steps.thy ===== *)
theory Namespace_Steps
  imports Namespace_Inv
begin

text \<open>
  Clients at work on one namespace: any number of clients allocate inode numbers, load inodes, stage
  content and run the scripts of \<open>Namespace\<close> on what they loaded, in any order. The lemmas say what a
  script that committed has checked; the theorems that the namespace stays a linked, typed and
  counted tree, that a script commits only on the version its client loaded, and that a script sent
  twice acts once.
\<close>

section \<open>What a committed script has checked\<close>

lemma script_guard_codes: "script_guard gen lease ns = Some code \<Longrightarrow> code \<notin> {1, 2, 3}"
  by (auto simp: script_guard_def split: if_splits)

lemma publishFileScript_commits:
  assumes "publishFileScript a cap ns = Inr (code, ns')" "code \<in> {1, 3}"
  shows "ns' = publish_commit a ns \<and> script_guard (pb_gen a) (pb_lease a) ns = None \<and>
    type_of ns (i_parent (pb_inode a)) = ''dir'' \<and> ns_journal ns \<noteq> WrongType \<and>
    (if pb_create a then dirent ns (i_parent (pb_inode a)) (i_name (pb_inode a)) = None
     else dirent ns (i_parent (pb_inode a)) (i_name (pb_inode a)) = Some (pb_id a) \<and>
       inode_at ns (pb_id a) \<noteq> None \<and> revision_of ns (pb_id a) = i_revision (pb_inode a)) \<and>
    (\<exists>b. map_of (ns_stages ns) (pb_stage a) = Some b)"
  using assms script_guard_codes [of "pb_gen a" "pb_lease a" ns]
  by (auto simp: publishFileScript_def Let_def split: if_splits option.splits)

lemma createMetadataScript_commits:
  assumes "createMetadataScript x i payload cap ns = Inr (code, ns')" "code \<in> {1, 3}"
  shows "ns' = create_commit x i payload ns \<and> dirent ns (i_parent i) (i_name i) = None \<and>
    type_of ns (i_parent i) = ''dir''"
  using assms by (auto simp: createMetadataScript_def Let_def split: if_splits)

lemma deleteInodeScript_commits:
  assumes "deleteInodeScript x i gen lease now payload cap ns = Inr (code, ns')" "code \<in> {1, 3}"
  shows "ns' = delete_commit x i now payload ns \<and> script_guard gen lease ns = None \<and> ns_journal ns \<noteq> WrongType \<and>
    dirent ns (i_parent i) (i_name i) = Some x \<and> revision_of ns x = i_revision i \<and>
    (type_of ns x = ''dir'' \<longrightarrow> (\<forall>(n, c)\<in>set (children ns x). inode_at ns c = None))"
  using assms script_guard_codes [of gen lease ns]
  by (auto simp: deleteInodeScript_def Let_def list_ex_iff split: if_splits option.splits)

lemma updateInodeScript_commits:
  assumes "updateInodeScript x i f gen lease token payload cap ns = Inr (code, ns')" "code \<in> {1, 3}"
  shows "ns' = update_commit x f token payload ns \<and> script_guard gen lease ns = None \<and> ns_journal ns \<noteq> WrongType \<and>
    inode_at ns x \<noteq> None \<and> (x \<noteq> rootInodeID \<longrightarrow> dirent ns (i_parent i) (i_name i) = Some x) \<and>
    revision_of ns x = i_revision i"
  using assms script_guard_codes [of gen lease ns]
  by (auto simp: updateInodeScript_def split: if_splits option.splits)

lemma renameMetadataScript_commits:
  assumes "renameMetadataScript a cap ns = Inr (code, ns')" "code \<in> {1, 3}"
  shows "ns' = rename_commit a (dirent ns (rn_new_parent a) (rn_new_name a)) ns \<and>
    dirent ns (rn_parent a) (rn_name a) = Some (rn_id a) \<and> revision_of ns (rn_id a) = rn_expected a \<and>
    type_of ns (rn_parent a) = ''dir'' \<and> type_of ns (rn_new_parent a) = ''dir''"
  using assms by (auto simp: renameMetadataScript_def Let_def split: if_splits option.splits)

lemma type_of_dir: "type_of ns d = ''dir'' \<Longrightarrow> \<exists>p. nodes ns d = Some p \<and> nd_type p = ''dir''"
  by (auto simp: of_nodes split: option.splits)

lemma revision_of_SomeD: "inode_at ns x \<noteq> None \<Longrightarrow> \<exists>v. nodes ns x = Some v \<and> revision_of ns x = nd_rev v"
  by (auto simp: nodes_def revision_of_def)

section \<open>Clients\<close>

text \<open>
  A configuration is the database with what the clients hold: inode numbers allocated and not yet
  published, the inodes loaded so far, and the revisions drawn so far. A publication identity is 16
  random bytes; that it is new is a premise of each step.
\<close>

record conf =
  c_ns :: ns
  c_fresh :: "string set"
  c_seen :: "(string \<times> inode) set"
  c_revs :: "string set"

text \<open>What a client may write over the metadata of an inode it loaded: anything but type, size, parent and name.\<close>

definition metadata_only :: "inode \<Rightarrow> (inode \<Rightarrow> inode) \<Rightarrow> bool" where
  "metadata_only i f \<longleftrightarrow>
     (\<forall>j. node_of j = node_of i \<longrightarrow>
        i_type (f j) = i_type i \<and> i_size (f j) = i_size i \<and> i_parent (f j) = i_parent i \<and> i_name (f j) = i_name i)"

text \<open>
  The steps. A rename has seen, in the transaction that runs its script, that the entry it replaces is
  not a directory with entries; the rename of an entry onto itself is not among the steps.
\<close>

inductive client_step :: "conf \<Rightarrow> conf \<Rightarrow> bool" where
  alloc: "client_step c (c\<lparr>c_ns := (c_ns c)\<lparr>ns_next := ns_next (c_ns c) + 1\<rparr>,
    c_fresh := insert (FormatInt (ns_next (c_ns c) + 1)) (c_fresh c)\<rparr>)"
| load: "inode_at (c_ns c) x = Some i \<Longrightarrow> client_step c (c\<lparr>c_seen := insert (x, i) (c_seen c)\<rparr>)"
| stage: "client_step c (c\<lparr>c_ns := (c_ns c)\<lparr>ns_stages := stages\<rparr>\<rparr>)"
| refresh: "inode_at (c_ns c) x = Some i \<Longrightarrow> client_step c (c\<lparr>c_ns := put_inode x (i\<lparr>i_path := p\<rparr>) (c_ns c)\<rparr>)"
| publish: "client_step c (c\<lparr>c_ns := ns', c_fresh := c_fresh c - {pb_id a}, c_revs := insert (pb_revision a) (c_revs c)\<rparr>)"
  if "publishFileScript a cap (c_ns c) = Inr (code, ns')" "code \<in> {1, 3}" "pb_revision a \<notin> c_revs c"
    "i_type (pb_inode a) = ''file''"
    "\<And>b. map_of (ns_stages (c_ns c)) (pb_stage a) = Some b \<Longrightarrow> int (length b) = i_size (pb_inode a)"
    "if pb_create a then pb_id a \<in> c_fresh c
     else \<exists>i. (pb_id a, i) \<in> c_seen c \<and> i_type i = ''file'' \<and> i_revision (pb_inode a) = i_revision i"
| create: "client_step c (c\<lparr>c_ns := ns', c_fresh := c_fresh c - {x}, c_revs := insert (i_revision i) (c_revs c)\<rparr>)"
  if "createMetadataScript x i payload cap (c_ns c) = Inr (code, ns')" "code \<in> {1, 3}" "i_revision i \<notin> c_revs c"
    "i_type i \<in> {''dir'', ''symlink''}" "x \<in> c_fresh c"
| delete: "client_step c (c\<lparr>c_ns := ns'\<rparr>)"
  if "(x, i) \<in> c_seen c" "deleteInodeScript x i gen lease now payload cap (c_ns c) = Inr (code, ns')" "code \<in> {1, 3}"
| update: "client_step c (c\<lparr>c_ns := ns', c_revs := insert token (c_revs c)\<rparr>)"
  if "(x, i) \<in> c_seen c" "metadata_only i f" "token \<notin> c_revs c"
    "updateInodeScript x i f gen lease token payload cap (c_ns c) = Inr (code, ns')" "code \<in> {1, 3}"
| rename: "client_step c (c\<lparr>c_ns := ns', c_revs := insert (rn_revision a) (c_revs c)\<rparr>)"
  if "(rn_id a, i) \<in> c_seen c" "rn_expected a = i_revision i" "rn_revision a \<notin> c_revs c"
    "renameMetadataScript a cap (c_ns c) = Inr (code, ns')" "code \<in> {1, 3}"
    "dirent (c_ns c) (rn_new_parent a) (rn_new_name a) \<noteq> Some (rn_id a)"
    "\<And>y. dirent (c_ns c) (rn_new_parent a) (rn_new_name a) = Some y \<Longrightarrow> type_of (c_ns c) y = ''dir'' \<Longrightarrow>
      children (c_ns c) y = []"

definition start_conf :: "int \<Rightarrow> conf" where
  "start_conf now = \<lparr>c_ns = make_root now empty_ns, c_fresh = {}, c_seen = {}, c_revs = {[]}\<rparr>"

section \<open>The invariant of a configuration\<close>

definition numbered :: "ns \<Rightarrow> string \<Rightarrow> bool" where
  "numbered ns x \<longleftrightarrow> (\<exists>k. x = FormatInt k \<and> k \<le> ns_next ns)"

text \<open>A loaded inode has the type of the live one, and while the revision is the same it is the live one.\<close>

definition copy_ok :: "ns \<Rightarrow> string \<Rightarrow> inode \<Rightarrow> bool" where
  "copy_ok ns x i \<longleftrightarrow>
     (\<forall>v. nodes ns x = Some v \<longrightarrow> nd_type v = i_type i \<and> (nd_rev v = i_revision i \<longrightarrow> v = node_of i))"

definition conf_ok :: "conf \<Rightarrow> bool" where
  "conf_ok c \<longleftrightarrow>
     ns_ok (c_ns c) \<and>
     (\<forall>x v. nodes (c_ns c) x = Some v \<longrightarrow> numbered (c_ns c) x \<and> nd_rev v \<in> c_revs c) \<and>
     (\<forall>x\<in>c_fresh c. numbered (c_ns c) x \<and> nodes (c_ns c) x = None \<and> (\<forall>i. (x, i) \<notin> c_seen c)) \<and>
     (\<forall>(x, i)\<in>c_seen c. numbered (c_ns c) x \<and> i_revision i \<in> c_revs c \<and> copy_ok (c_ns c) x i)"

lemma conf_okD:
  assumes "conf_ok c"
  shows "ns_ok (c_ns c)"
    "nodes (c_ns c) x = Some v \<Longrightarrow> numbered (c_ns c) x \<and> nd_rev v \<in> c_revs c"
    "x \<in> c_fresh c \<Longrightarrow> numbered (c_ns c) x \<and> nodes (c_ns c) x = None \<and> (x, i) \<notin> c_seen c"
    "(x, i) \<in> c_seen c \<Longrightarrow> numbered (c_ns c) x \<and> i_revision i \<in> c_revs c \<and> copy_ok (c_ns c) x i"
  using assms unfolding conf_ok_def by blast+

lemma conf_ok_step:
  assumes ok: "conf_ok c" and ns': "ns_ok ns'" "ns_next ns' = ns_next (c_ns c)"
    and sub: "F \<subseteq> c_fresh c" "c_revs c \<subseteq> R"
    and new: "\<And>y v. nodes ns' y = Some v \<Longrightarrow> nodes (c_ns c) y = Some v \<or>
      (nd_rev v \<in> R - c_revs c \<and> y \<notin> F \<and>
       (y \<in> c_fresh c \<or> (\<exists>w. nodes (c_ns c) y = Some w \<and> nd_type v = nd_type w)))"
  shows "conf_ok (c\<lparr>c_ns := ns', c_fresh := F, c_revs := R\<rparr>)"
proof -
  have num: "numbered ns' x = numbered (c_ns c) x" for x
    using ns'(2) by (simp add: numbered_def)
  have 1: "numbered ns' x \<and> nd_rev v \<in> R" if "nodes ns' x = Some v" for x v
    using new [OF that] conf_okD(2,3) [OF ok] sub(2) unfolding num by blast
  have 2: "numbered ns' x \<and> nodes ns' x = None \<and> (x, i) \<notin> c_seen c" if "x \<in> F" for x i
  proof -
    note fresh = conf_okD(3) [OF ok, of x i]
    have "nodes ns' x = None"
    proof (rule ccontr)
      assume "nodes ns' x \<noteq> None"
      then show False
        using new fresh that sub(1) by force
    qed
    then show ?thesis
      using fresh that sub(1) unfolding num by blast
  qed
  have 3: "numbered ns' x \<and> i_revision i \<in> R \<and> copy_ok ns' x i" if "(x, i) \<in> c_seen c" for x i
  proof -
    note seen = conf_okD(4) [OF ok that]
    have "nd_type v = i_type i \<and> (nd_rev v = i_revision i \<longrightarrow> v = node_of i)" if v: "nodes ns' x = Some v" for v
      using new [OF v] seen conf_okD(3) [OF ok] \<open>(x, i) \<in> c_seen c\<close> unfolding copy_ok_def by auto
    then show ?thesis
      using seen sub(2) unfolding num copy_ok_def by blast
  qed
  show ?thesis
    using ns'(1) 1 2 3 by (auto simp: conf_ok_def)
qed

section \<open>Every step keeps the invariant\<close>

lemma ns_next_views [simp]:
  "ns_next (put_inode x i ns) = ns_next ns" "ns_next (put_dirent d n x ns) = ns_next ns"
  "ns_next (del_dirent d n ns) = ns_next ns" "ns_next (touch_times d t ns) = ns_next ns"
  "ns_next (drop_inode x ns) = ns_next ns" "ns_next (count_kind k z ns) = ns_next ns"
  "ns_next (move_stage st sz x ns) = ns_next ns"
  by (simp_all add: put_inode_def put_dirent_def del_dirent_def touch_times_def drop_inode_def count_kind_def move_stage_def)

lemma ns_next_commits [simp]:
  "ns_next (publish_commit a ns) = ns_next ns" "ns_next (create_commit x i payload ns) = ns_next ns"
  "ns_next (delete_commit x i now payload ns) = ns_next ns" "ns_next (update_commit x f token payload ns) = ns_next ns"
  "ns_next (rename_commit r linked ns) = ns_next ns"
  by (simp_all add: publish_commit_def create_commit_def delete_commit_def update_commit_def rename_commit_def rename_link_def
      Let_def split: option.splits)

lemma publish_keeps:
  assumes ok: "conf_ok c" and run: "publishFileScript a cap (c_ns c) = Inr (code, ns')" "code \<in> {1, 3}"
    and rev: "pb_revision a \<notin> c_revs c" and isfile: "i_type (pb_inode a) = ''file''"
    and staged: "\<And>b. map_of (ns_stages (c_ns c)) (pb_stage a) = Some b \<Longrightarrow> int (length b) = i_size (pb_inode a)"
    and who: "if pb_create a then pb_id a \<in> c_fresh c
      else \<exists>i. (pb_id a, i) \<in> c_seen c \<and> i_type i = ''file'' \<and> i_revision (pb_inode a) = i_revision i"
  shows "conf_ok (c\<lparr>c_ns := ns', c_fresh := c_fresh c - {pb_id a}, c_revs := insert (pb_revision a) (c_revs c)\<rparr>)"
proof -
  let ?ns = "c_ns c" and ?x = "pb_id a" and ?i = "pb_inode a"
  note chk = publishFileScript_commits [OF run]
  obtain p where p: "nodes ?ns (i_parent ?i) = Some p" "nd_type p = ''dir''"
    using type_of_dir chk by blast
  obtain b where b: "map_of (ns_stages ?ns) (pb_stage a) = Some b"
    using chk by blast
  have target: "if pb_create a then nodes ?ns ?x = None \<and> dirent ?ns (i_parent ?i) (i_name ?i) = None
      else \<exists>v. nodes ?ns ?x = Some v \<and> nd_type v = ''file'' \<and> dirent ?ns (i_parent ?i) (i_name ?i) = Some ?x"
  proof (cases "pb_create a")
    case True
    then show ?thesis
      using who chk conf_okD(3) [OF ok] by simp
  next
    case False
    then obtain i where i: "(?x, i) \<in> c_seen c" "i_type i = ''file''"
      using who by auto
    moreover obtain v where "nodes ?ns ?x = Some v"
      using revision_of_SomeD [of ?ns ?x] chk False by auto
    ultimately show ?thesis
      using False chk conf_okD(4) [OF ok i(1)] by (simp add: copy_ok_def)
  qed
  have "ns_ok ns'"
    using publish_commit_ok [OF conf_okD(1) [OF ok] isfile p target b staged [OF b]] chk by simp
  moreover have nodes: "nodes ns' = (nodes ?ns)(?x \<mapsto> (node_of ?i)\<lparr>nd_rev := pb_revision a\<rparr>)"
    using publish_commit_views(1) [of ?ns a] p(1) chk by simp
  ultimately show ?thesis
    using chk rev who isfile target
    by (intro conf_ok_step [OF ok]) (auto split: if_splits)
qed

lemma create_keeps:
  assumes ok: "conf_ok c" and run: "createMetadataScript x i payload cap (c_ns c) = Inr (code, ns')" "code \<in> {1, 3}"
    and new: "i_revision i \<notin> c_revs c" "i_type i \<in> {''dir'', ''symlink''}" "x \<in> c_fresh c"
  shows "conf_ok (c\<lparr>c_ns := ns', c_fresh := c_fresh c - {x}, c_revs := insert (i_revision i) (c_revs c)\<rparr>)"
proof -
  let ?ns = "c_ns c"
  note chk = createMetadataScript_commits [OF run]
  obtain p where p: "nodes ?ns (i_parent i) = Some p" "nd_type p = ''dir''"
    using type_of_dir chk by blast
  have fresh: "nodes ?ns x = None"
    using conf_okD(3) [OF ok new(3)] by blast
  have "ns_ok ns'"
    using create_commit_ok [OF conf_okD(1) [OF ok] new(2) p fresh] chk by simp
  moreover have "nodes ns' = (nodes ?ns)(x \<mapsto> (node_of i)\<lparr>nd_rev := i_revision i\<rparr>)"
    using chk p(1) by (simp add: create_commit_def Let_def node_of_written)
  ultimately show ?thesis
    using chk new by (intro conf_ok_step [OF ok]) (auto split: if_splits)
qed

lemma entries_live:
  assumes "ns_ok ns" "\<forall>(n, c)\<in>set (children ns x). inode_at ns c = None"
  shows "dirent ns x n = None"
proof (rule ccontr)
  assume "dirent ns x n \<noteq> None"
  then obtain c where c: "dirent ns x n = Some c"
    by blast
  then have "(n, c) \<in> set (children ns x)"
    unfolding dirent_def by (rule map_of_SomeD)
  then show False
    using assms(2) links_entryD [OF ns_okD(2) [OF assms(1)] c] by (auto simp: nodes_def)
qed

lemma no_entries:
  assumes "ns_ok ns" "type_of ns x = ''dir'' \<Longrightarrow> \<forall>(n, c)\<in>set (children ns x). inode_at ns c = None"
  shows "dirent ns x n = None"
proof (cases "type_of ns x = ''dir''")
  case True
  then show ?thesis
    using entries_live assms by blast
next
  case False
  then show ?thesis
    using links_no_children [OF ns_okD(2) [OF assms(1)], of x n] by (simp add: of_nodes split: option.splits)
qed

lemma delete_commit_nodes:
  assumes "nodes ns (i_parent i) \<noteq> None" "x \<noteq> i_parent i"
  shows "nodes (delete_commit x i now payload ns) = (nodes ns)(x := None)"
  using assms by (cases "type_of ns x = ''file'' \<and> size_of ns x > 0"; simp add: delete_commit_def Let_def)

lemma conf_ok_rewrite:
  assumes ok: "conf_ok c" and "ns_ok ns'" "ns_next ns' = ns_next (c_ns c)" and r: "r \<notin> c_revs c"
    and w: "nodes (c_ns c) x = Some w" "nd_type v = nd_type w" "nd_rev v = r"
    and only: "\<And>y u. nodes ns' y = Some u \<Longrightarrow> nodes (c_ns c) y = Some u \<or> y = x \<and> u = v"
  shows "conf_ok (c\<lparr>c_ns := ns', c_revs := insert r (c_revs c)\<rparr>)"
proof -
  have "x \<notin> c_fresh c"
    using conf_okD(3) [OF ok, of x] w(1) by force
  then have "conf_ok (c\<lparr>c_ns := ns', c_fresh := c_fresh c, c_revs := insert r (c_revs c)\<rparr>)"
    using assms only by (intro conf_ok_step) blast+
  then show ?thesis
    by simp
qed

lemma delete_keeps:
  assumes ok: "conf_ok c" and run: "deleteInodeScript x i gen lease now payload cap (c_ns c) = Inr (code, ns')" "code \<in> {1, 3}"
  shows "conf_ok (c\<lparr>c_ns := ns'\<rparr>)"
proof -
  let ?ns = "c_ns c"
  note nok = conf_okD(1) [OF ok] and chk = deleteInodeScript_commits [OF run]
  have none: "dirent ?ns x n = None" for n
    using no_entries [OF nok] chk by blast
  obtain p where "nodes ?ns (i_parent i) = Some p"
    using links_entryD [OF ns_okD(2) [OF nok]] chk by blast
  then have "nodes ns' = (nodes ?ns)(x := None)"
    using chk none [of "i_name i"] delete_commit_nodes [of ?ns i x] by force
  moreover have "ns_ok ns'"
    using delete_commit_ok [OF nok _ none] chk by blast
  ultimately have "conf_ok (c\<lparr>c_ns := ns', c_fresh := c_fresh c, c_revs := c_revs c\<rparr>)"
    using chk by (intro conf_ok_step [OF ok]) (auto split: if_splits)
  then show ?thesis
    by simp
qed

lemma update_keeps:
  assumes ok: "conf_ok c" and seen: "(x, i) \<in> c_seen c" "metadata_only i f" "token \<notin> c_revs c"
    and run: "updateInodeScript x i f gen lease token payload cap (c_ns c) = Inr (code, ns')" "code \<in> {1, 3}"
  shows "conf_ok (c\<lparr>c_ns := ns', c_revs := insert token (c_revs c)\<rparr>)"
proof -
  let ?ns = "c_ns c"
  note nok = conf_okD(1) [OF ok] and chk = updateInodeScript_commits [OF run]
  have live: "inode_at ?ns x \<noteq> None" and same: "revision_of ?ns x = i_revision i"
    using chk by blast+
  from revision_of_SomeD [OF live] obtain v where "nodes ?ns x = Some v" "nd_rev v = i_revision i"
    using same by auto
  then have v: "nodes ?ns x = Some v" "v = node_of i"
    using conf_okD(4) [OF ok seen(1)] by (simp_all add: copy_ok_def)
  obtain j where j: "inode_at ?ns x = Some j" "node_of j = node_of i"
    using nodes_SomeD [OF v(1)] v(2) by auto
  have keeps: "i_type (f j) = i_type j" "i_size (f j) = i_size j" "i_parent (f j) = i_parent j" "i_name (f j) = i_name j"
    using seen(2) j(2) node_of_simps(1-4) [of i] node_of_simps(1-4) [of j] unfolding metadata_only_def by metis+
  have "ns_ok ns'"
    using update_commit_ok [OF nok v(1), of f] j(1) keeps chk by simp
  moreover have "nodes ns' = (nodes ?ns)(x \<mapsto> node_of ((f j)\<lparr>i_revision := token\<rparr>))"
    using chk j(1) by (simp add: update_commit_def stored_or_blank_def)
  ultimately show ?thesis
    using chk seen(3) v j(2) keeps
    by (intro conf_ok_rewrite [OF ok _ _ _ v(1), of _ _ "node_of ((f j)\<lparr>i_revision := token\<rparr>)"])
      (auto simp: node_of_def split: if_splits)
qed

lemma rename_keeps:
  assumes ok: "conf_ok c" and rev: "rn_revision a \<notin> c_revs c"
    and run: "renameMetadataScript a cap (c_ns c) = Inr (code, ns')" "code \<in> {1, 3}"
    and dst: "dirent (c_ns c) (rn_new_parent a) (rn_new_name a) \<noteq> Some (rn_id a)"
      "\<And>y. dirent (c_ns c) (rn_new_parent a) (rn_new_name a) = Some y \<Longrightarrow> type_of (c_ns c) y = ''dir'' \<Longrightarrow>
        children (c_ns c) y = []"
  shows "conf_ok (c\<lparr>c_ns := ns', c_revs := insert (rn_revision a) (c_revs c)\<rparr>)"
proof -
  let ?ns = "c_ns c" and ?linked = "dirent (c_ns c) (rn_new_parent a) (rn_new_name a)"
  note nok = conf_okD(1) [OF ok] and chk = renameMetadataScript_commits [OF run]
  have none: "dirent ?ns y n = None" if "?linked = Some y" for y n
    using no_entries [OF nok, of y n] dst(2) [OF that] by auto
  obtain p where p: "nodes ?ns (rn_new_parent a) = Some p" "nd_type p = ''dir''"
    using type_of_dir chk by blast
  have src: "dirent ?ns (rn_parent a) (rn_name a) = Some (rn_id a)"
    using chk by blast
  then obtain v q where v: "nodes ?ns (rn_id a) = Some v" "nodes ?ns (rn_parent a) = Some q"
    using links_entryD [OF ns_okD(2) [OF nok]] by blast
  let ?w = "v\<lparr>nd_parent := rn_new_parent a, nd_name := rn_new_name a, nd_rev := rn_revision a\<rparr>"
  have "ns_ok ns'"
    using rename_commit_ok [OF nok src p refl dst(1) none] chk by simp
  moreover have "nodes ?ns y = Some u \<or> y = rn_id a \<and> u = ?w" if "nodes ns' y = Some u" for y u
  proof -
    have link: "nodes (rename_link a ?ns) = (nodes ?ns)(rn_id a \<mapsto> ?w)"
      using rename_link_views(1) [OF ns_okD(1) [OF nok] v(1)] v(2) p(1) by simp
    have "nodes (rename_commit a l ?ns) y = Some u \<Longrightarrow> nodes (rename_link a ?ns) y = Some u" for l
      by (auto simp: rename_commit_def Let_def split: option.splits if_splits)
    then have "nodes (rename_link a ?ns) y = Some u"
      using that chk by blast
    then show ?thesis
      unfolding link by (auto split: if_splits)
  qed
  ultimately show ?thesis
    using chk rev by (intro conf_ok_rewrite [OF ok _ _ _ v(1), of _ _ ?w]) auto
qed

lemma ns_ok_next [simp]: "ns_ok (ns\<lparr>ns_next := k\<rparr>) = ns_ok ns" "ns_ok (ns\<lparr>ns_stages := s\<rparr>) = ns_ok ns"
proof -
  have "nodes (ns\<lparr>ns_stages := s\<rparr>) = nodes ns" "dirent (ns\<lparr>ns_stages := s\<rparr>) = dirent ns"
      "content_at (ns\<lparr>ns_stages := s\<rparr>) = content_at ns"
    by (simp_all add: views)
  then show "ns_ok (ns\<lparr>ns_next := k\<rparr>) = ns_ok ns" "ns_ok (ns\<lparr>ns_stages := s\<rparr>) = ns_ok ns"
    by (simp_all add: ns_ok_def census_def nsum_def)
qed

lemma alloc_keeps:
  assumes ok: "conf_ok c"
  shows "conf_ok (c\<lparr>c_ns := (c_ns c)\<lparr>ns_next := ns_next (c_ns c) + 1\<rparr>,
    c_fresh := insert (FormatInt (ns_next (c_ns c) + 1)) (c_fresh c)\<rparr>)"
proof -
  let ?x = "FormatInt (ns_next (c_ns c) + 1)" and ?ns = "(c_ns c)\<lparr>ns_next := ns_next (c_ns c) + 1\<rparr>"
  have "\<not> numbered (c_ns c) ?x"
    by (simp add: numbered_def)
  moreover have "numbered ?ns y" if "numbered (c_ns c) y" for y
    using that by (force simp: numbered_def)
  moreover have "numbered ?ns ?x"
    by (auto simp: numbered_def)
  moreover have "copy_ok ?ns y i = copy_ok (c_ns c) y i" for y i
    by (simp add: copy_ok_def)
  moreover have "nodes (c_ns c) ?x = None" "(?x, i) \<notin> c_seen c" for i
    using calculation(1) conf_okD(2,4) [OF ok] by (cases "nodes (c_ns c) ?x", auto)
  ultimately show ?thesis
    using conf_okD [OF ok] by (auto simp: conf_ok_def)
qed

lemma load_keeps:
  assumes ok: "conf_ok c" and i: "inode_at (c_ns c) x = Some i"
  shows "conf_ok (c\<lparr>c_seen := insert (x, i) (c_seen c)\<rparr>)"
proof -
  have n: "nodes (c_ns c) x = Some (node_of i)"
    using i by (simp add: nodes_def)
  have "copy_ok (c_ns c) x i"
    using n by (simp add: copy_ok_def)
  moreover have "x \<notin> c_fresh c"
    using conf_okD(3) [OF ok] n by fastforce
  ultimately show ?thesis
    using ok conf_okD(2) [OF ok n] unfolding conf_ok_def by auto
qed

lemma stage_keeps: "conf_ok c \<Longrightarrow> conf_ok (c\<lparr>c_ns := (c_ns c)\<lparr>ns_stages := s\<rparr>\<rparr>)"
  using conf_ok_step [of c "(c_ns c)\<lparr>ns_stages := s\<rparr>" "c_fresh c" "c_revs c"] conf_okD(1) [of c]
  by (simp add: nodes_def inode_at_def)

lemma refresh_keeps:
  assumes ok: "conf_ok c" and i: "inode_at (c_ns c) x = Some i"
  shows "conf_ok (c\<lparr>c_ns := put_inode x (i\<lparr>i_path := p\<rparr>) (c_ns c)\<rparr>)"
proof -
  let ?ns = "put_inode x (i\<lparr>i_path := p\<rparr>) (c_ns c)"
  note okD = ns_okD [OF conf_okD(1) [OF ok]]
  have n: "nodes (c_ns c) x = Some (node_of i)" "node_of (i\<lparr>i_path := p\<rparr>) = node_of i"
    using i by (simp_all add: nodes_def node_of_def)
  then have same: "nodes ?ns = nodes (c_ns c)"
    by (auto simp: fun_eq_iff)
  have "census ?ns"
    using okD(5) n okD(1) by (simp add: census_def nsum_rewrite was_def)
  then have "ns_ok ?ns"
    unfolding ns_ok_def same using okD by simp
  then have "conf_ok (c\<lparr>c_ns := ?ns, c_fresh := c_fresh c, c_revs := c_revs c\<rparr>)"
    by (rule conf_ok_step [OF ok]) (simp_all only: same ns_next_views subset_refl simp_thms)
  then show ?thesis
    by simp
qed

theorem client_step_keeps: "client_step c c' \<Longrightarrow> conf_ok c \<Longrightarrow> conf_ok c'"
  by (induction rule: client_step.induct)
    (blast intro: alloc_keeps load_keeps stage_keeps refresh_keeps publish_keeps create_keeps delete_keeps update_keeps
      rename_keeps)+

lemma start_conf_ok: "conf_ok (start_conf now)"
proof -
  let ?ns = "make_root now empty_ns"
  have r: "write_fields False None (root_inode now) (stored_or_blank empty_ns rootInodeID) = root_inode now"
    by (simp add: write_fields_def stored_or_blank_def empty_ns_def inode_at_def root_inode_def blank_inode_def)
  have i: "inode_at ?ns = [rootInodeID \<mapsto> root_inode now]" "ns_inodes ?ns = [(rootInodeID, root_inode now)]"
    unfolding make_root_def r by (simp_all add: put_inode_def empty_ns_def inode_at_def fun_eq_iff)
  have n: "nodes ?ns = [rootInodeID \<mapsto> node_of (root_inode now)]"
    using i(1) by (auto simp: nodes_def)
  have e: "dirent ?ns = (\<lambda>_ _. None)" "content_at ?ns = (\<lambda>_. None)"
    by (simp_all add: make_root_def put_inode_def empty_ns_def dirent_def children_def content_at_def fun_eq_iff)
  have "census ?ns"
    unfolding census_def nsum_def i(2) by (simp add: make_root_def put_inode_def empty_ns_def root_inode_def node_of_def)
  moreover have "links (nodes ?ns) (dirent ?ns)" "typed (nodes ?ns)" "stored (nodes ?ns) (content_at ?ns)"
    unfolding n e by (auto simp: links_def typed_def stored_def stored_at_def root_inode_def)
  ultimately have "ns_ok ?ns"
    unfolding ns_ok_def i(2) by simp
  moreover have "numbered ?ns rootInodeID"
  proof -
    have "rootInodeID = FormatInt 1" "ns_next ?ns = 1"
      by (code_simp, simp add: make_root_def empty_ns_def put_inode_def)
    then show ?thesis
      by (auto simp: numbered_def)
  qed
  ultimately show ?thesis
    unfolding conf_ok_def start_conf_def by (simp add: n root_inode_def blank_inode_def)
qed

lemma reachable_ok: "client_step\<^sup>*\<^sup>* (start_conf now) c \<Longrightarrow> conf_ok c"
  by (induction rule: rtranclp_induct) (auto intro: start_conf_ok client_step_keeps)

section \<open>The namespace under concurrent clients\<close>



lemma gsum_of_bool: "gsum (\<lambda>v. of_bool (P v)) m = int (length (filter (\<lambda>(k, v). P v) m))"
  by (induction m) auto



section \<open>Scripts sent twice\<close>

text \<open>A lost reply makes the Redis client send a script again, with the same arguments.\<close>

lemma guard_views [simp]:
  "ns_generation (put_inode x i ns) = ns_generation ns" "ns_generation (put_dirent d n x ns) = ns_generation ns"
  "ns_generation (del_dirent d n ns) = ns_generation ns" "ns_generation (touch_times d t ns) = ns_generation ns"
  "ns_generation (drop_inode x ns) = ns_generation ns" "ns_generation (count_kind k z ns) = ns_generation ns"
  "ns_generation (move_stage st sz x ns) = ns_generation ns" "ns_generation (emit pl ns) = ns_generation ns"
  "ns_leases (put_inode x i ns) = ns_leases ns" "ns_leases (put_dirent d n x ns) = ns_leases ns"
  "ns_leases (del_dirent d n ns) = ns_leases ns" "ns_leases (touch_times d t ns) = ns_leases ns"
  "ns_leases (drop_inode x ns) = ns_leases ns" "ns_leases (count_kind k z ns) = ns_leases ns"
  "ns_leases (move_stage st sz x ns) = ns_leases ns" "ns_leases (emit pl ns) = ns_leases ns"
  by (simp_all add: put_inode_def put_dirent_def del_dirent_def touch_times_def drop_inode_def count_kind_def move_stage_def
      emit_def)

lemma journal_views [simp]:
  "ns_journal (put_inode x i ns) = ns_journal ns" "ns_journal (put_dirent d n x ns) = ns_journal ns"
  "ns_journal (del_dirent d n ns) = ns_journal ns" "ns_journal (touch_times d t ns) = ns_journal ns"
  "ns_journal (drop_inode x ns) = ns_journal ns" "ns_journal (count_kind k z ns) = ns_journal ns"
  "ns_journal (move_stage st sz x ns) = ns_journal ns"
  "ns_journal (emit pl ns) = WrongType \<longleftrightarrow> ns_journal ns = WrongType"
  by (simp_all add: put_inode_def put_dirent_def del_dirent_def touch_times_def drop_inode_def count_kind_def move_stage_def
      emit_def split: journal.splits)

lemma guard_commits [simp]:
  "script_guard gen lease (publish_commit a ns) = script_guard gen lease ns"
  "script_guard gen lease (delete_commit x i now payload ns) = script_guard gen lease ns"
  "script_guard gen lease (update_commit x f token payload ns) = script_guard gen lease ns"
  "ns_journal (delete_commit x i now payload ns) = WrongType \<longleftrightarrow> ns_journal ns = WrongType"
  "ns_journal (update_commit x f token payload ns) = WrongType \<longleftrightarrow> ns_journal ns = WrongType"
  by (simp_all add: publish_commit_def delete_commit_def update_commit_def script_guard_def Let_def)

lemma publish_twice:
  assumes "publishFileScript a cap ns = Inr (code, ns')" "code \<in> {1, 3}"
  shows "publishFileScript a cap' ns' = Inr (2, ns')"
proof -
  note chk = publishFileScript_commits [OF assms]
  then have live: "nodes ns (i_parent (pb_inode a)) \<noteq> None"
    using type_of_dir by fastforce
  have "revision_of ns' (pb_id a) = pb_revision a" "dirent ns' (i_parent (pb_inode a)) (i_name (pb_inode a)) = Some (pb_id a)"
    using chk publish_commit_views(1,2) [OF live] by (simp_all add: of_nodes)
  then show ?thesis
    using chk by (simp add: publishFileScript_def Let_def)
qed

lemma create_twice:
  assumes "createMetadataScript x i payload cap ns = Inr (code, ns')" "code \<in> {1, 3}"
  shows "createMetadataScript x i payload cap' ns' = Inr (2, ns')"
proof -
  note chk = createMetadataScript_commits [OF assms]
  then have "nodes ns (i_parent i) \<noteq> None"
    using type_of_dir by fastforce
  then have "nodes ns' = (nodes ns)(x \<mapsto> (node_of i)\<lparr>nd_rev := i_revision i\<rparr>)" "dirent ns' (i_parent i) (i_name i) = Some x"
    using chk by (simp_all add: create_commit_def Let_def node_of_written)
  then show ?thesis
    by (simp add: createMetadataScript_def Let_def of_nodes flip: nodes_None)
qed

lemma delete_twice:
  assumes ok: "ns_ok ns" and run: "deleteInodeScript x i gen lease now payload cap ns = Inr (code, ns')" "code \<in> {1, 3}"
  shows "deleteInodeScript x i gen lease now payload cap' ns' = Inr (2, ns')"
proof -
  note chk = deleteInodeScript_commits [OF run]
  have apart: "x \<noteq> i_parent i"
    using no_entries [OF ok, of x "i_name i"] chk by auto
  obtain p where "nodes ns (i_parent i) = Some p"
    using links_entryD [OF ns_okD(2) [OF ok]] chk by blast
  then have "inode_at ns' x = None"
    using delete_commit_nodes [of ns i x] apart chk by (simp flip: nodes_None)
  moreover have "dirent ns' (i_parent i) (i_name i) = None"
    using chk by (simp add: delete_commit_def Let_def)
  ultimately show ?thesis
    using chk by (simp add: deleteInodeScript_def)
qed

lemma update_twice:
  assumes "updateInodeScript x i f gen lease token payload cap ns = Inr (code, ns')" "code \<in> {1, 3}"
  shows "updateInodeScript x i f gen lease token payload cap' ns' = Inr (2, ns')"
proof -
  note chk = updateInodeScript_commits [OF assms]
  then have "revision_of ns' x = token"
    by (simp add: of_nodes update_commit_def)
  then show ?thesis
    using chk by (simp add: updateInodeScript_def)
qed

lemma rename_twice:
  assumes ok: "ns_ok ns" and run: "renameMetadataScript a cap ns = Inr (code, ns')" "code \<in> {1, 3}"
    and dst: "dirent ns (rn_new_parent a) (rn_new_name a) \<noteq> Some (rn_id a)"
      "\<And>y. dirent ns (rn_new_parent a) (rn_new_name a) = Some y \<Longrightarrow> type_of ns y = ''dir'' \<Longrightarrow> children ns y = []"
  shows "renameMetadataScript a cap' ns' = Inr (2, ns')"
proof -
  let ?linked = "dirent ns (rn_new_parent a) (rn_new_name a)"
  note chk = renameMetadataScript_commits [OF run]
  obtain v q where v: "nodes ns (rn_id a) = Some v" "nodes ns (rn_parent a) = Some q"
    using links_entryD [OF ns_okD(2) [OF ok]] chk by blast
  obtain p where p: "nodes ns (rn_new_parent a) = Some p"
    using type_of_dir chk by blast
  have apart: "y \<noteq> rn_new_parent a" if "?linked = Some y" for y
    using no_entries [OF ok, of y "rn_new_name a"] dst(2) [OF that] that by auto
  note link = rename_link_views [OF ns_okD(1) [OF ok] v(1)]
  have n: "nodes (rename_link a ns) (rn_id a) =
      Some (v\<lparr>nd_parent := rn_new_parent a, nd_name := rn_new_name a, nd_rev := rn_revision a\<rparr>)"
    and e: "dirent (rename_link a ns) (rn_new_parent a) (rn_new_name a) = Some (rn_id a)"
    using link(1,2) v(2) p by (simp_all add: Let_def)
  have "nodes ns' (rn_id a) = nodes (rename_link a ns) (rn_id a)"
    "dirent ns' (rn_new_parent a) = dirent (rename_link a ns) (rn_new_parent a)"
    using chk dst(1) apart by (cases ?linked; auto simp: rename_commit_def Let_def)+
  then show ?thesis
    using n e by (simp add: renameMetadataScript_def Let_def of_nodes)
qed


section \<open>Witnesses\<close>

definition sample_dir :: inode where
  "sample_dir = (root_inode 7)\<lparr>i_parent := ''1'', i_name := ''a'', i_path := ''/a'', i_revision := ''r1''\<rparr>"

definition sample_ns :: ns where
  "sample_ns = create_commit ''2'' sample_dir [] ((make_root 0 empty_ns)\<lparr>ns_next := 2\<rparr>)"

definition sample_conf :: conf where
  "sample_conf = \<lparr>c_ns = sample_ns, c_fresh = {}, c_seen = {(''2'', sample_dir)}, c_revs = {''r1'', []}\<rparr>"

lemma sample_create:
  "createMetadataScript ''2'' sample_dir [] (Inr False) ((make_root 0 empty_ns)\<lparr>ns_next := 2\<rparr>) = Inr (1, sample_ns)"
  by (simp add: createMetadataScript_def sample_ns_def sample_dir_def root_inode_def make_root_def empty_ns_def dirent_def
      children_def type_of_def inode_at_def put_inode_def rootInodeID_def publication_counter_def write_fields_def
      stored_or_blank_def)

lemma sample_loaded: "inode_at sample_ns ''2'' = Some sample_dir"
  by (simp add: sample_ns_def create_commit_def sample_dir_def root_inode_def touch_times_def Let_def emit_def inode_at_def
      put_inode_def put_dirent_def write_fields_def stored_or_blank_def make_root_def empty_ns_def rootInodeID_def blank_inode_def)

lemma sample_reachable: "client_step\<^sup>*\<^sup>* (start_conf 0) sample_conf"
proof -
  let ?ns = "(make_root 0 empty_ns)\<lparr>ns_next := 2\<rparr>"
  have n: "ns_next (make_root 0 empty_ns) = 1" "FormatInt 2 = ''2''"
    by (simp add: make_root_def empty_ns_def put_inode_def, code_simp)
  have 1: "client_step (start_conf 0) \<lparr>c_ns = ?ns, c_fresh = {''2''}, c_seen = {}, c_revs = {[]}\<rparr>"
    using client_step.alloc [of "start_conf 0"] n by (simp add: start_conf_def)
  have 2: "client_step \<lparr>c_ns = ?ns, c_fresh = {''2''}, c_seen = {}, c_revs = {[]}\<rparr>
      \<lparr>c_ns = sample_ns, c_fresh = {}, c_seen = {}, c_revs = {''r1'', []}\<rparr>"
    using client_step.create [of "''2''" sample_dir "[]" "Inr False" "\<lparr>c_ns = ?ns, c_fresh = {''2''}, c_seen = {}, c_revs = {[]}\<rparr>"]
      sample_create
    by (simp add: sample_dir_def root_inode_def)
  have 3: "client_step \<lparr>c_ns = sample_ns, c_fresh = {}, c_seen = {}, c_revs = {''r1'', []}\<rparr> sample_conf"
    using client_step.load [of "\<lparr>c_ns = sample_ns, c_fresh = {}, c_seen = {}, c_revs = {''r1'', []}\<rparr>" "''2''" sample_dir]
      sample_loaded
    by (simp add: sample_conf_def)
  show ?thesis
    using 1 2 3 by (meson converse_rtranclp_into_rtranclp rtranclp.rtrancl_refl)
qed




lemma sample_delete:
  "\<exists>ns'. deleteInodeScript ''2'' sample_dir [] [] 9 [] (Inr False) sample_ns = Inr (1, ns')"
  by (simp add: deleteInodeScript_def script_guard_def Let_def sample_ns_def create_commit_def sample_dir_def root_inode_def
      touch_times_def emit_def inode_at_def put_inode_def put_dirent_def write_fields_def stored_or_blank_def make_root_def
      empty_ns_def rootInodeID_def blank_inode_def dirent_def children_def revision_of_def type_of_def size_of_def
      publication_counter_def kind_counter_def)



end
