(* ===== verification/Native_Run.thy ===== *)
theory Native_Run
  imports Native_FS Namespace_Steps
begin

text \<open>
  The client of \<open>Native_FS\<close> working alone on a consistent namespace: what path resolution finds, and
  the effect of the operations on the tree of names. A path is walked through the directory entries
  from the root; \<open>walk\<close> is that walk without symlinks.
\<close>

section \<open>Walking the tree of names\<close>

fun walk :: "ns \<Rightarrow> string \<Rightarrow> string list \<Rightarrow> string option" where
  "walk ns x [] = Some x"
| "walk ns x (c # cs) = (case dirent ns x c of None \<Rightarrow> None | Some y \<Rightarrow> walk ns y cs)"

lemma walk_append: "walk ns x (cs @ ds) = (case walk ns x cs of None \<Rightarrow> None | Some y \<Rightarrow> walk ns y ds)"
  by (induction cs arbitrary: x) (auto split: option.splits)

lemma walk_snoc: "walk ns x (cs @ [c]) = (case walk ns x cs of None \<Rightarrow> None | Some y \<Rightarrow> dirent ns y c)"
  by (auto simp: walk_append split: option.splits)

abbreviation plain_path :: "string list \<Rightarrow> bool" where
  "plain_path cs \<equiv> \<forall>c\<in>set cs. plain_comp c"

text \<open>\<open>d\<close> is inode \<open>x\<close> as the client reads it now.\<close>

definition loaded :: "ns \<Rightarrow> string \<Rightarrow> inodeData \<Rightarrow> bool" where
  "loaded ns x d \<longleftrightarrow> inodeFromValues x (inode_at ns x) = Some d"

lemma loadedD:
  assumes "loaded ns x d"
  shows "d_id d = x" "\<exists>i. inode_at ns x = Some i \<and> d_inode d = metadata i \<and> i_type i \<noteq> []" "d_content d = []"
    "type_of ns x = i_type (d_inode d)" "revision_of ns x = i_revision (d_inode d)" "nodes ns x = Some (node_of (d_inode d))"
  using assms
  by (auto simp: loaded_def inodeFromValues_def metadata_def type_of_def revision_of_def nodes_def node_of_def
      split: option.splits if_splits)

lemma ns_ok_types: "ns_ok ns \<Longrightarrow> inode_at ns x = Some i \<Longrightarrow> i_type i \<noteq> []"
  using ns_okD(3) [of ns] by (fastforce simp: typed_def nodes_def)

lemma ns_ok_loaded: "ns_ok ns \<Longrightarrow> inode_at ns x = Some i \<Longrightarrow> \<exists>d. loaded ns x d"
  using ns_ok_types by (auto simp: loaded_def inodeFromValues_def)

lemma ns_ok_entry: "ns_ok ns \<Longrightarrow> dirent ns x c = Some y \<Longrightarrow> \<exists>d. loaded ns y d"
  using links_entryD [OF ns_okD(2)] ns_ok_loaded nodes_SomeD by metis

lemma ns_ok_root: "ns_ok ns \<Longrightarrow> \<exists>d. loaded ns rootInodeID d \<and> i_type (d_inode d) = ''dir''"
  using links_root [OF ns_okD(2)] ns_ok_loaded [of ns rootInodeID] nodes_SomeD loadedD(6)
  by (metis node_of_simps(1) option.inject)

section \<open>Reading\<close>

lemma run_loadInodeByID [run_simps]: "run (loadInodeByID x) ns = (Inr (inodeFromValues x (inode_at ns x)), ns)"
  by (simp add: loadInodeByID_def run_simps)

lemma run_loadRootInode [run_simps]:
  "run loadRootInode ns = (Inr (inodeFromValues rootInodeID (inode_at ns rootInodeID)), ns)"
  by (simp add: loadRootInode_def run_simps)

lemma run_lookupChildID [run_simps]:
  "run (lookupChildID d n) ns = (case dirent ns d n of None \<Rightarrow> Inl RedisNil | Some x \<Rightarrow> Inr x, ns)"
  by (simp add: lookupChildID_def run_simps)

definition gen_ok :: "fs_env \<Rightarrow> fs_ctx \<Rightarrow> ns \<Rightarrow> client_error + unit" where
  "gen_ok env ctx ns = checkGeneration (ns_reader (e_keys env)) (e_keys env) (fc_op ctx) ns"

lemma run_ensureRoot:
  assumes "loaded ns rootInodeID r"
  shows "run (ensureRoot env ctx) ns = (gen_ok env ctx ns, ns)"
  using assms
  by (auto simp: ensureRoot_def check_generation_def gen_ok_def run_simps loaded_def split: sum.splits)

text \<open>One round of the resolution loop.\<close>

lemma run_resolve_Cons:
  "run (resolve_loop follow left curPath cur (c # cs)) ns =
     (case dirent ns (d_id cur) c of
        None \<Rightarrow> (Inl RedisNil, ns)
      | Some y \<Rightarrow>
          (case inodeFromValues y (inode_at ns y) of
             None \<Rightarrow> (Inl RedisNil, ns)
           | Some d \<Rightarrow>
               if i_type (d_inode d) = ''symlink'' \<and> (follow \<or> cs \<noteq> []) then
                 (case left of
                    0 \<Rightarrow> (Inl (ErrOther ''too many levels of symbolic links''), ns)
                  | Suc left' \<Rightarrow>
                      if i_target (d_inode d) = [] then (Inl (ErrOther ''invalid symlink target''), ns)
                      else case inodeFromValues rootInodeID (inode_at ns rootInodeID) of
                             None \<Rightarrow> (Inl RedisNil, ns)
                           | Some r \<Rightarrow> run (resolve_loop follow left' ''/'' r
                               (splitComponents (symlink_path curPath (i_target (d_inode d)) cs))) ns)
               else if cs = [] then (Inr (joinPath curPath c, d), ns)
               else if i_type (d_inode d) \<noteq> ''dir'' then (Inl ErrNotDir, ns)
               else run (resolve_loop follow left (joinPath curPath c) d cs) ns))"
  by (simp add: run_simps split: option.splits nat.splits)

declare resolve_loop.simps(2) [simp del]

lemma run_resolve_reads: "snd (run (resolve_loop follow left curPath cur cs) ns) = ns"
  by (induction follow left curPath cur cs rule: resolve_loop.induct)
    (auto simp: run_resolve_Cons split: option.splits nat.splits)

lemma symlink_path_plain: "plain_path (splitComponents (symlink_path curPath t cs))"
  using normalizePath_abs_path splitComponents_abs_path by (metis symlink_path_def)

text \<open>
  What resolution returns: a plain path that the entries lead along, the inode at its end as it is
  stored, and no symlink if the last one was to be followed.
\<close>

definition found_at :: "ns \<Rightarrow> string \<Rightarrow> inodeData \<Rightarrow> bool" where
  "found_at ns q d \<longleftrightarrow>
     (\<exists>qs. q = abs_path qs \<and> plain_path qs \<and> walk ns rootInodeID qs = Some (d_id d) \<and> loaded ns (d_id d) d)"

lemma resolve_loop_sound:
  assumes "run (resolve_loop follow left curPath cur cs) ns = (Inr (q, d), ns')"
    and "curPath = abs_path ps" "plain_path ps" "plain_path cs" "walk ns rootInodeID ps = Some (d_id cur)"
    and "loaded ns (d_id cur) cur" "i_type (d_inode cur) \<noteq> ''symlink''"
    and "\<And>r. loaded ns rootInodeID r \<Longrightarrow> i_type (d_inode r) \<noteq> ''symlink''"
  shows "found_at ns q d \<and> (follow \<longrightarrow> i_type (d_inode d) \<noteq> ''symlink'')"
  using assms
proof (induction follow left curPath cur cs arbitrary: ps rule: resolve_loop.induct)
  case (1 follow left curPath cur)
  then show ?case
    by (auto simp: found_at_def)
next
  case (2 follow left curPath cur c cs)
  note run = 2(3) [unfolded run_resolve_Cons]
  obtain y where y: "dirent ns (d_id cur) c = Some y"
    using run by (auto split: option.splits)
  obtain e where e: "inodeFromValues y (inode_at ns y) = Some e"
    using run y by (auto split: option.splits)
  have load: "loaded ns (d_id e) e" "d_id e = y"
    using e loadedD(1) [of ns y e] by (auto simp: loaded_def)
  have here: "walk ns rootInodeID (ps @ [c]) = Some (d_id e)" "plain_path (ps @ [c])"
    "joinPath curPath c = abs_path (ps @ [c])"
    using 2(4-7) y load by (auto simp: walk_snoc joinPath_abs_path)
  show ?case
  proof (cases "i_type (d_inode e) = ''symlink'' \<and> (follow \<or> cs \<noteq> [])")
    case True
    then obtain left' r where left: "left = Suc left'" "i_target (d_inode e) \<noteq> []" "loaded ns rootInodeID r"
      and goes_on: "run (resolve_loop follow left' ''/'' r
        (splitComponents (symlink_path curPath (i_target (d_inode e)) cs))) ns = (Inr (q, d), ns')"
      using run y e by (auto simp: loaded_def split: option.splits nat.splits if_splits)
    have r: "d_id r = rootInodeID"
      using loadedD(1) [OF left(3)] .
    show ?thesis
      using 2(1) [OF True left(1) left(2) goes_on, of "[]"] symlink_path_plain left(3) r 2(10)
      by (simp add: abs_path_def)
  next
    case False
    show ?thesis
    proof (cases "cs = []")
      case True
      then have "q = joinPath curPath c" "d = e" "follow \<longrightarrow> i_type (d_inode e) \<noteq> ''symlink''"
        using run y e False by (auto split: if_splits)
      then show ?thesis
        using here load(1) unfolding found_at_def by blast
    next
      case more: False
      then have goes_on: "run (resolve_loop follow left (joinPath curPath c) e cs) ns = (Inr (q, d), ns')"
        and dir: "\<not> i_type (d_inode e) \<noteq> ''dir''"
        using run y e False by (auto split: if_splits)
      show ?thesis
        using 2(2) [OF False more dir goes_on here(3,2)] 2(6,10) here(1) load(1) dir by simp
    qed
  qed
qed

lemma run_resolvePath:
  assumes "loaded ns rootInodeID r"
  shows "run (resolvePath env ctx p follow) ns =
    (case gen_ok env ctx ns of
       Inl e \<Rightarrow> (Inl e, ns)
     | Inr _ \<Rightarrow> run (resolve_loop follow maxSymlinkDepth ''/'' r (splitComponents (normalizePath p))) ns)"
  using assms run_ensureRoot [OF assms]
  by (auto simp: resolvePath_def run_simps loaded_def split: sum.splits)

lemma normalized_plain: "plain_path (splitComponents (normalizePath p))"
  using normalizePath_abs_path splitComponents_abs_path by metis

lemma run_resolvePath_reads:
  assumes "ns_ok ns"
  shows "snd (run (resolvePath env ctx p follow) ns) = ns"
proof -
  obtain r where "loaded ns rootInodeID r"
    using ns_ok_root [OF assms] by blast
  then show ?thesis
    by (simp add: run_resolvePath run_resolve_reads split: sum.splits)
qed

lemma resolvePath_found:
  assumes "ns_ok ns" "run (resolvePath env ctx p follow) ns = (Inr (q, d), ns')"
  shows "found_at ns q d \<and> (follow \<longrightarrow> i_type (d_inode d) \<noteq> ''symlink'')"
proof -
  obtain r where r: "loaded ns rootInodeID r" "i_type (d_inode r) = ''dir''"
    using ns_ok_root [OF assms(1)] by blast
  have "run (resolve_loop follow maxSymlinkDepth ''/'' r (splitComponents (normalizePath p))) ns = (Inr (q, d), ns')"
    using assms(2) r(1) by (simp add: run_resolvePath split: sum.splits)
  then show ?thesis
    using r loadedD(1) [OF r(1)] normalized_plain
    by (intro resolve_loop_sound [where ps = "[]"]) (auto simp: abs_path_def loaded_def)
qed



section \<open>A sample client\<close>

definition sample_env :: fs_env where
  "sample_env =
     \<lparr>e_keys = \<lparr>fsKey = ''w''\<rparr>, e_clock = (\<lambda>ns. 5), e_token = (\<lambda>k. FormatInt (int k)),
      e_arrays = Inr False, e_capture = (\<lambda>ns. Inr False), e_prepare = (\<lambda>ns. Inr ()), e_payload = (\<lambda>kind ps. []),
      e_event = (\<lambda>kind p. []), e_disabled = True, e_raced = (\<lambda>ns. False), e_throttled = (\<lambda>ns. False)\<rparr>"

definition sample_ctx :: fs_ctx where
  "sample_ctx =
     \<lparr>fc_op = \<lparr>ctx_lease = [], ctx_generation = None, ctx_checked = False, ctx_parents = []\<rparr>, fc_expected = None,
      fc_ranged = False\<rparr>"

lemma sample_ok: "ns_ok sample_ns"
  using conf_okD(1) [OF reachable_ok [OF sample_reachable]] by (simp add: sample_conf_def)

lemma sample_gen [simp]: "gen_ok env sample_ctx ns = Inr ()"
  by (simp add: gen_ok_def checkGeneration_def sample_ctx_def)

lemma sample_resolve:
  "run (resolvePath sample_env sample_ctx ''/a'' True) sample_ns =
     (Inr (''/a'', \<lparr>d_id = ''2'', d_inode = metadata sample_dir, d_content = []\<rparr>), sample_ns)"
proof -
  obtain r where r: "loaded sample_ns rootInodeID r"
    using ns_ok_root [OF sample_ok] by blast
  have "dirent sample_ns rootInodeID ''a'' = Some ''2''"
    by (simp add: sample_ns_def create_commit_def sample_dir_def root_inode_def touch_times_def Let_def emit_def
        make_root_def empty_ns_def dirent_def children_def put_dirent_def put_inode_def rootInodeID_def)
  moreover have "splitComponents (normalizePath ''/a'') = [''a'']"
    by (simp add: normalizePath_def path_Clean_def HasPrefix_def splitComponents_def TrimPrefix_def)
  moreover have "inodeFromValues ''2'' (inode_at sample_ns ''2'') = Some \<lparr>d_id = ''2'', d_inode = metadata sample_dir, d_content = []\<rparr>"
    "i_type (metadata sample_dir) = ''dir''"
    by (simp_all add: inodeFromValues_def sample_loaded sample_dir_def root_inode_def metadata_def)
  ultimately show ?thesis
    using loadedD(1) [OF r] by (simp add: run_resolvePath [OF r] run_resolve_Cons joinPath_def)
qed



end
