(* ===== verification/Native_Range.thy ===== *)
theory Native_Range
  imports Native_FS
begin

text \<open>
  Byte ranges (\<open>src/mount/internal/client/native_range.go\<close>): an open handle reads and writes ranges of
  an inode wherever it is linked by now. A write fills a private stage and publishes it under the
  revision it started from. As in \<open>Native_FS\<close> the content behind a
  key is a string of bytes; an array that is shorter than its file stands for its bytes followed by
  zero bytes.
\<close>

section \<open>Finding an inode's path\<close>

text \<open>The loop of \<open>inodePathScript\<close>: from the inode up to the root, 4096 levels at most.\<close>

fun path_up :: "nat \<Rightarrow> ns \<Rightarrow> string list \<Rightarrow> string list \<Rightarrow> string \<Rightarrow> string list option" where
  "path_up n ns seen parts x =
     (if x = rootInodeID then (if inode_at ns rootInodeID = None then None else Some parts)
      else case n of
             0 \<Rightarrow> None
           | Suc n' \<Rightarrow>
               if x \<in> set seen then None
               else case inode_at ns x of
                      None \<Rightarrow> None
                    | Some i \<Rightarrow>
                        if dirent ns (i_parent i) (i_name i) \<noteq> Some x then None
                        else path_up n' ns (x # seen) (i_name i # parts) (i_parent i))"

declare path_up.simps [simp del]

definition inodePathScript :: "string \<Rightarrow> string \<Rightarrow> string \<Rightarrow> ns \<Rightarrow> int + string" where
  "inodePathScript gen lease x ns =
     (case script_guard gen lease ns of
        Some code \<Rightarrow> Inl code
      | None \<Rightarrow> (case path_up 4096 ns [] [] x of None \<Rightarrow> Inl (- 1) | Some parts \<Rightarrow> Inr (''/'' @ join_with slash parts)))"

definition InodePath :: "fs_ctx \<Rightarrow> nat \<Rightarrow> string prog" where
  "InodePath ctx inode =
     query (\<lambda>ns.
       case inodePathScript (managed_generation ctx) (lease_of ctx) (FormatUint inode) ns of
         Inr path \<Rightarrow> Inr path
       | Inl code \<Rightarrow>
           if code = - 2 then Inl ErrWorkspaceChanged
           else if code = - 5 then Inl ErrNativeSessionLost
           else Inl ErrNotFound)"

definition StatInode :: "fs_env \<Rightarrow> fs_ctx \<Rightarrow> nat \<Rightarrow> StatResult option prog" where
  "StatInode env ctx inode =
     pbind (check_generation env ctx) (\<lambda>_.
     pbind (loadInodeByID (FormatUint inode)) (\<lambda>found. return (map_option toStat found)))"

section \<open>Reading a range\<close>

definition MaxInt64 :: int where "MaxInt64 = 2 ^ 63 - 1"

text \<open>\<open>rediscontent.ReadRange\<close> of a content key.\<close>

definition range_bytes :: "string \<Rightarrow> int \<Rightarrow> int \<Rightarrow> int \<Rightarrow> string option \<Rightarrow> string" where
  "range_bytes ref sz off cnt v =
     (if cnt \<le> 0 \<or> sz \<le> off then []
      else take (nat (min (off + cnt) sz - off)) (drop (nat off) (content_bytes ref sz v)))"

definition arrays_needed :: "fs_env \<Rightarrow> string \<Rightarrow> unit prog" where
  "arrays_needed env ref =
     (if TrimSpace ref = RefArray then
        pbind (Done (e_arrays env)) (\<lambda>supported.
          if supported then return ()
          else fail (ErrOther ''redis array content requested but the server does not support array commands''))
      else return ())"

definition read_inode_range :: "fs_env \<Rightarrow> inodeData \<Rightarrow> int \<Rightarrow> int \<Rightarrow> string prog" where
  "read_inode_range env d off cnt =
     (let i = d_inode d
      in if off < i_size i \<and> cnt \<noteq> 0 then
           (if isExternalContentRef (i_ref i) then
              pbind (arrays_needed env (i_ref i)) (\<lambda>_.
                query (\<lambda>ns. Inr (range_bytes (i_ref i) (i_size i) off cnt (map_of (ns_content ns) (d_id d)))))
            else
              pbind (loadContentExternal env (d_id d) (i_ref i)) (\<lambda>raw.
                return (take (nat cnt) (drop (nat off) raw))))
         else return [])"

fun read_attempts :: "nat \<Rightarrow> fs_env \<Rightarrow> fs_ctx \<Rightarrow> string \<Rightarrow> int \<Rightarrow> int \<Rightarrow> string prog" where
  "read_attempts 0 env ctx x off cnt = fail ErrWriteConflict"
| "read_attempts (Suc n) env ctx x off cnt =
     pbind (check_generation env ctx) (\<lambda>_.
     pbind (loadInodeByID x) (\<lambda>found.
       case found of
         None \<Rightarrow> fail ErrNotFound
       | Some d \<Rightarrow>
           if i_type (d_inode d) \<noteq> ''file'' then fail ErrNotFile
           else
             pcase (read_inode_range env d off cnt) (\<lambda>result.
             pbind (loadInodeByID x) (\<lambda>current.
               case current of
                 None \<Rightarrow> fail ErrNotFound
               | Some e \<Rightarrow>
                   if i_revision (d_inode e) \<noteq> i_revision (d_inode d) then read_attempts n env ctx x off cnt
                   else
                     pbind (Done result) (\<lambda>bytes.
                     pbind (check_generation env ctx) (\<lambda>_. return bytes))))))"

definition ReadInodeAt :: "fs_env \<Rightarrow> fs_ctx \<Rightarrow> nat \<Rightarrow> int \<Rightarrow> int \<Rightarrow> string prog" where
  "ReadInodeAt env ctx inode off cnt =
     (if off < 0 \<or> cnt < 0 \<or> cnt > MaxInt64 - off then fail (ErrOther ''invalid range'')
      else read_attempts 16 env ctx (FormatUint inode) off cnt)"

section \<open>Writing a range\<close>

text \<open>\<open>SETRANGE\<close>, and \<open>rediscontent.WriteRange\<close> of an array: zero bytes fill a gap.\<close>

definition set_range :: "nat \<Rightarrow> string \<Rightarrow> string \<Rightarrow> string" where
  "set_range off payload b =
     (if payload = [] then b
      else take off (b @ replicate (off - length b) zero_byte) @ payload @ drop (off + length payload) b)"

definition stage_write :: "string \<Rightarrow> string \<Rightarrow> unit prog" where
  "stage_write stage b = command (\<lambda>ns. ((), ns\<lparr>ns_stages := mset_key stage b (ns_stages ns)\<rparr>))"

text \<open>A command on the stage; on a missing key \<open>SETRANGE\<close> and \<open>GETRANGE\<close> see the empty string.\<close>

definition stage_update :: "string \<Rightarrow> (string \<Rightarrow> string) \<Rightarrow> unit prog" where
  "stage_update stage f =
     command (\<lambda>ns. ((), ns\<lparr>ns_stages :=
       mset_key stage (f (case map_of (ns_stages ns) stage of None \<Rightarrow> [] | Some b \<Rightarrow> b)) (ns_stages ns)\<rparr>))"

text \<open>\<open>COPY\<close> of the live content to the stage; it answers whether there was a content key.\<close>

definition copy_content :: "string \<Rightarrow> string \<Rightarrow> bool prog" where
  "copy_content x stage =
     command (\<lambda>ns. case map_of (ns_content ns) x of
        None \<Rightarrow> (False, ns)
      | Some b \<Rightarrow> (True, ns\<lparr>ns_stages := mset_key stage b (ns_stages ns)\<rparr>))"

text \<open>
  \<open>rediscontent.Truncate\<close> of an array. A longer array needs no command, since the elements that are not
  set read as zero bytes.
\<close>

definition resize_array :: "fs_env \<Rightarrow> string \<Rightarrow> int \<Rightarrow> int \<Rightarrow> unit prog" where
  "resize_array env stage oldSize newSize =
     (if newSize = oldSize then return ()
      else
        pbind (if newSize < oldSize then arrays_needed env RefArray else return ()) (\<lambda>_.
          stage_update stage (\<lambda>b. resized b (nat newSize))))"

text \<open>
  \<open>stageInodeRange\<close> returns the stage with the inode, whose content reference it may have changed; the
  stage is discarded whatever happens. \<open>newSize\<close> bytes are staged: the range is written, then the
  content is cut or filled with zero bytes.
\<close>

definition stage_range ::
  "fs_env \<Rightarrow> string \<Rightarrow> inodeData \<Rightarrow> string \<Rightarrow> int \<Rightarrow> int \<Rightarrow> inodeData prog" where
  "stage_range env stage d payload off newSize =
     pbind (selectContentRef env d) (\<lambda>e.
       let originalRef = i_ref (d_inode d); ref = i_ref (d_inode e); oldSize = i_size (d_inode d)
       in pbind
            (if isExternalContentRef originalRef \<and> originalRef = ref \<and> oldSize > 0 then
               pbind (copy_content (d_id d) stage) (\<lambda>copied. if copied then return () else fail ErrWriteConflict)
             else
               pbind (if oldSize > 0 then loadContentExternal env (d_id d) originalRef else return []) (\<lambda>content.
                 stage_write stage content)) (\<lambda>_.
          pbind
            (if ref = RefArray then
               pbind (if payload \<noteq> [] then
                        pbind (arrays_needed env ref) (\<lambda>_. stage_update stage (set_range (nat off) payload))
                      else return ()) (\<lambda>_.
                 resize_array env stage oldSize newSize)
             else
               pbind (if payload \<noteq> [] then stage_update stage (set_range (nat off) payload) else return ()) (\<lambda>_.
                 if newSize < oldSize then stage_update stage (take (nat newSize))
                 else if newSize > oldSize \<and> payload = [] then
                   stage_update stage (set_range (nat (newSize - 1)) [zero_byte])
                 else return ())) (\<lambda>_.
          pbind (if newSize = 0 then stage_write stage [] else return ()) (\<lambda>_. return e))))"

text \<open>One attempt of \<open>changeInodeRange\<close> on the inode as it was loaded.\<close>

definition change_once ::
  "fs_env \<Rightarrow> fs_ctx \<Rightarrow> nat \<Rightarrow> inodeData \<Rightarrow> string \<Rightarrow> int \<Rightarrow> int \<Rightarrow> unit prog" where
  "change_once env ctx inode d payload off trunc =
     pbind (InodePath ctx inode) (\<lambda>p.
       let oldSize = i_size (d_inode d); writeOffset = (if off = - 1 then oldSize else off);
           newSize = (if trunc \<ge> 0 then trunc
                      else if payload \<noteq> [] then max oldSize (writeOffset + int (length payload)) else oldSize)
       in if int (length payload) > MaxInt64 - writeOffset then fail (ErrOther ''invalid range'')
          else if trunc \<ge> 0 \<and> newSize = oldSize \<or> trunc < 0 \<and> payload = [] then return ()
          else
            pbind (newOriginID env) (\<lambda>token.
            let stage = kb_content (e_keys env) (d_id d) @ '':stage:'' @ token
            in pfinally
                 (pbind (stage_range env stage d payload writeOffset newSize) (\<lambda>e.
                  pbind (nowMs env) (\<lambda>now.
                  pbind (publishStagedFile env ctx p
                           (e\<lparr>d_inode := (d_inode e)\<lparr>i_size := newSize, i_mtime := now, i_atime := now, i_ctime := now\<rparr>\<rparr>)
                           stage False (Some (0, []))) (\<lambda>_. return ()))))
                 (discardStage stage)))"

fun change_attempts ::
  "nat \<Rightarrow> fs_env \<Rightarrow> fs_ctx \<Rightarrow> nat \<Rightarrow> string \<Rightarrow> int \<Rightarrow> int \<Rightarrow> unit prog" where
  "change_attempts 0 env ctx inode payload off trunc = fail ErrWriteConflict"
| "change_attempts (Suc n) env ctx inode payload off trunc =
     pbind (check_generation env ctx) (\<lambda>_.
     pbind (loadInodeByID (FormatUint inode)) (\<lambda>found.
       case found of
         None \<Rightarrow> fail ErrNotFound
       | Some d \<Rightarrow>
           if i_type (d_inode d) \<noteq> ''file'' then fail ErrNotFile
           else
             pbind (Done (checkWriteCondition ctx d False)) (\<lambda>_.
             pcase (change_once env ctx inode d payload off trunc) (\<lambda>r.
               case r of
                 Inr _ \<Rightarrow> return ()
               | Inl e \<Rightarrow>
                   if e \<noteq> ErrWriteConflict \<or> fc_expected ctx \<noteq> None then fail e
                   else change_attempts n env ctx inode payload off trunc))))"

definition changeInodeRange :: "fs_env \<Rightarrow> fs_ctx \<Rightarrow> nat \<Rightarrow> string \<Rightarrow> int \<Rightarrow> int \<Rightarrow> unit prog" where
  "changeInodeRange env ctx inode payload off trunc =
     change_attempts 32 env (ctx\<lparr>fc_ranged := True\<rparr>) inode payload off trunc"

definition WriteInodeAtPath :: "fs_env \<Rightarrow> fs_ctx \<Rightarrow> nat \<Rightarrow> string \<Rightarrow> int \<Rightarrow> unit prog" where
  "WriteInodeAtPath env ctx inode payload off =
     (if off < - 1 \<or> off \<ge> 0 \<and> int (length payload) > MaxInt64 - off then fail (ErrOther ''invalid range'')
      else changeInodeRange env ctx inode payload off (- 1))"

definition WriteInodeAt :: "fs_env \<Rightarrow> fs_ctx \<Rightarrow> nat \<Rightarrow> string \<Rightarrow> int \<Rightarrow> unit prog" where
  "WriteInodeAt env ctx inode payload off = WriteInodeAtPath env ctx inode payload off"

definition TruncateInodeAtPath :: "fs_env \<Rightarrow> fs_ctx \<Rightarrow> nat \<Rightarrow> int \<Rightarrow> unit prog" where
  "TruncateInodeAtPath env ctx inode sz =
     (if sz < 0 then fail (ErrOther ''invalid size'') else changeInodeRange env ctx inode [] 0 sz)"

definition TruncateInode :: "fs_env \<Rightarrow> fs_ctx \<Rightarrow> nat \<Rightarrow> int \<Rightarrow> unit prog" where
  "TruncateInode env ctx inode sz = TruncateInodeAtPath env ctx inode sz"

end
