(* ===== verification/Native_Pool.thy ===== *)
theory Native_Pool
  imports Native_Run Native_Range
begin

text \<open>
  Clients of \<open>Native_FS\<close> and \<open>Native_Range\<close> working on one namespace at the same time: a pool of running
  operations, any of which makes its next round trip. What an operation may rely on between two of
  its own steps is its knowledge: inode numbers it allocated, publication identities it drew, stages
  it wrote and inodes it loaded. \<open>safe\<close> says that every step of a program is
  allowed by what it knows and disturbs nobody else's knowledge; its rules follow the programs. The
  theorem is that the namespace stays linked, typed, stored and counted in every state of the pool.
\<close>

section \<open>Knowledge\<close>

text \<open>\<open>k_own\<close> are all the identities the client has drawn, \<open>k_tokens\<close> those not yet used as a revision.\<close>

record know =
  k_own :: "string set"
  k_fresh :: "string set"
  k_tokens :: "string set"
  k_stages :: "(string \<times> string \<times> string) set"
  k_seen :: "(string \<times> inode) set"

definition stage_key :: "keyBuilder \<Rightarrow> string \<Rightarrow> string \<Rightarrow> string" where
  "stage_key kb x t = kb_content kb x @ '':stage:'' @ t"

text \<open>
  \<open>newOriginID\<close> draws 16 random bytes and writes them in hexadecimal. What the programs rely on is that
  an identity is not empty, has no colon, which is what separates it from the rest of a stage's key,
  and that no two draws agree.
\<close>

definition is_token :: "string \<Rightarrow> bool" where
  "is_token t \<longleftrightarrow> t \<noteq> [] \<and> CHR '':'' \<notin> set t"

definition good_tokens :: "(nat \<Rightarrow> string) \<Rightarrow> bool" where
  "good_tokens tok \<longleftrightarrow> inj tok \<and> (\<forall>k. is_token (tok k))"

lemma stage_key_inject:
  assumes "is_token t" "is_token u" "stage_key kb x t = stage_key kb y u"
  shows "t = u"
proof -
  have "takeWhile (\<lambda>c. c \<noteq> CHR '':'') (rev (stage_key kb z v)) = rev v" if "is_token v" for z v
    using that unfolding stage_key_def is_token_def rev_append append_assoc by (subst takeWhile_append2) auto
  then show ?thesis
    using assms by (metis rev_rev_ident)
qed

definition world :: "(nat \<Rightarrow> string) \<Rightarrow> conf \<Rightarrow> bool" where
  "world tok c \<longleftrightarrow> conf_ok c \<and> (\<forall>j\<ge>ns_tokens (c_ns c). tok j \<notin> c_revs c)"

definition fits :: "(nat \<Rightarrow> string) \<Rightarrow> keyBuilder \<Rightarrow> conf \<Rightarrow> know \<Rightarrow> bool" where
  "fits tok kb c k \<longleftrightarrow>
     k_fresh k \<subseteq> c_fresh c \<and> k_seen k \<subseteq> c_seen c \<and> k_tokens k \<inter> c_revs c = {} \<and>
     (\<forall>j\<ge>ns_tokens (c_ns c). tok j \<notin> k_own k) \<and> (\<forall>t\<in>k_own k. is_token t) \<and>
     k_tokens k \<subseteq> k_own k \<and>
     (\<forall>(x, t, b)\<in>k_stages k. t \<in> k_own k \<and> map_of (ns_stages (c_ns c)) (stage_key kb x t) = Some b)"

text \<open>What a step may do to the database and to the knowledge of its client, as the others see it.\<close>

definition disturbs ::
  "(nat \<Rightarrow> string) \<Rightarrow> keyBuilder \<Rightarrow> conf \<Rightarrow> know \<Rightarrow> conf \<Rightarrow> know \<Rightarrow> bool" where
  "disturbs tok kb c k c' k' \<longleftrightarrow>
     c_fresh c - k_fresh k \<subseteq> c_fresh c' \<and> k_fresh k' \<inter> c_fresh c \<subseteq> k_fresh k \<and> c_seen c \<subseteq> c_seen c' \<and>
     c_revs c \<subseteq> c_revs c' \<and> c_revs c' \<subseteq> c_revs c \<union> k_tokens k \<union> tok ` {ns_tokens (c_ns c)..<ns_tokens (c_ns c')} \<and>
     ns_tokens (c_ns c) \<le> ns_tokens (c_ns c') \<and> k_own k' \<subseteq> k_own k \<union> tok ` {ns_tokens (c_ns c)..<ns_tokens (c_ns c')} \<and>
     (\<forall>s. map_of (ns_stages (c_ns c')) s = map_of (ns_stages (c_ns c)) s \<or>
        (\<exists>x t. s = stage_key kb x t \<and> t \<in> k_own k))"

lemma fitsD:
  assumes "fits tok kb c k"
  shows "k_fresh k \<subseteq> c_fresh c" "k_seen k \<subseteq> c_seen c" "t \<in> k_tokens k \<Longrightarrow> t \<notin> c_revs c"
    "ns_tokens (c_ns c) \<le> j \<Longrightarrow> tok j \<notin> k_own k" "t \<in> k_own k \<Longrightarrow> is_token t"
    "(x, t, b) \<in> k_stages k \<Longrightarrow> t \<in> k_own k \<and> map_of (ns_stages (c_ns c)) (stage_key kb x t) = Some b"
    "k_tokens k \<subseteq> k_own k"
  using assms unfolding fits_def by blast+

lemma disturbsD:
  assumes "disturbs tok kb c k c' k'"
  shows "c_fresh c - k_fresh k \<subseteq> c_fresh c'" "k_fresh k' \<inter> c_fresh c \<subseteq> k_fresh k" "c_seen c \<subseteq> c_seen c'"
    "c_revs c \<subseteq> c_revs c'" "c_revs c' \<subseteq> c_revs c \<union> k_tokens k \<union> tok ` {ns_tokens (c_ns c)..<ns_tokens (c_ns c')}" "ns_tokens (c_ns c) \<le> ns_tokens (c_ns c')"
    "k_own k' \<subseteq> k_own k \<union> tok ` {ns_tokens (c_ns c)..<ns_tokens (c_ns c')}"
    "map_of (ns_stages (c_ns c')) s = map_of (ns_stages (c_ns c)) s \<or> (\<exists>x t. s = stage_key kb x t \<and> t \<in> k_own k)"
  using assms unfolding disturbs_def by blast+

lemma fits_disturbed:
  assumes other: "fits tok kb c h" and step: "disturbs tok kb c k c' k'" and mine: "fits tok kb c k"
    and apart: "k_own k \<inter> k_own h = {}" "k_fresh k \<inter> k_fresh h = {}"
  shows "fits tok kb c' h" "k_own k' \<inter> k_own h = {}" "k_fresh k' \<inter> k_fresh h = {}"
proof -
  note h = fitsD [OF other] and s = disturbsD [OF step]
  have stages: "t \<in> k_own h \<and> map_of (ns_stages (c_ns c')) (stage_key kb x t) = Some b" if "(x, t, b) \<in> k_stages h" for x t b
  proof -
    have t: "t \<in> k_own h"
      using h(6) [OF that] by blast
    have "u \<notin> k_own k" if "stage_key kb x t = stage_key kb y u" for y u
      using stage_key_inject [of t u kb x y] that h(5) [OF t] fitsD(5) [OF mine] t apart(1) by fastforce
    then show ?thesis
      using h(6) [OF that] s(8) [of "stage_key kb x t"] by auto
  qed
  have drawn: "tok j \<notin> k_tokens h" if "ns_tokens (c_ns c) \<le> j" for j
    using h(4) [OF that] h(7) by blast
  have "k_tokens h \<inter> k_tokens k = {}"
    using h(7) fitsD(7) [OF mine] apart(1) by blast
  then have tokens: "k_tokens h \<inter> c_revs c' = {}"
    using h(3) s(5) drawn by auto
  have fresh: "k_fresh h \<subseteq> c_fresh c'"
    using h(1) s(1) apart(2) by blast
  have seen: "k_seen h \<subseteq> c_seen c'"
    using h(2) s(3) by blast
  have later: "tok j \<notin> k_own h" if "ns_tokens (c_ns c') \<le> j" for j
    using h(4) s(6) that by (meson order_trans)
  show "fits tok kb c' h"
    unfolding fits_def using fresh seen tokens later h(5,7) stages by blast
  show "k_own k' \<inter> k_own h = {}"
  proof (rule ccontr)
    assume "k_own k' \<inter> k_own h \<noteq> {}"
    then obtain t where t: "t \<in> k_own k'" "t \<in> k_own h"
      by blast
    then obtain j where "t = tok j" "ns_tokens (c_ns c) \<le> j"
      using s(7) apart(1) by auto
    then show False
      using h(4) t(2) by blast
  qed
  show "k_fresh k' \<inter> k_fresh h = {}"
    using s(2) h(1) apart(2) by blast
qed

section \<open>Safe programs\<close>

inductive safe ::
  "(nat \<Rightarrow> string) \<Rightarrow> keyBuilder \<Rightarrow> know \<Rightarrow> 'a prog \<Rightarrow> (know \<Rightarrow> client_error + 'a \<Rightarrow> bool) \<Rightarrow> bool" for tok kb where
  safe_Done: "Q k r \<Longrightarrow> safe tok kb k (Done r) Q"
| safe_Step: "safe tok kb k (Step g) Q"
  if "\<And>c. world tok c \<Longrightarrow> fits tok kb c k \<Longrightarrow>
    \<exists>c' k'. c_ns c' = snd (g (c_ns c)) \<and> world tok c' \<and> fits tok kb c' k' \<and> disturbs tok kb c k c' k' \<and>
      safe tok kb k' (fst (g (c_ns c))) Q"

inductive_cases safe_DoneE: "safe tok kb k (Done r) Q"
inductive_cases safe_StepE: "safe tok kb k (Step g) Q"

lemma safe_mono: "safe tok kb k p Q \<Longrightarrow> (\<And>k r. Q k r \<Longrightarrow> R k r) \<Longrightarrow> safe tok kb k p R"
proof (induction rule: safe.induct)
  case (safe_Done Q k r)
  then show ?case by (simp add: safe.safe_Done)
next
  case (safe_Step k g Q)
  show ?case
  proof (rule safe.safe_Step)
    fix c
    assume "world tok c" "fits tok kb c k"
    from safe_Step.IH [OF this] safe_Step.prems
    show "\<exists>c' k'. c_ns c' = snd (g (c_ns c)) \<and> world tok c' \<and> fits tok kb c' k' \<and> disturbs tok kb c k c' k' \<and>
      safe tok kb k' (fst (g (c_ns c))) R"
      by blast
  qed
qed

lemma safe_pcase: "safe tok kb k p (\<lambda>k' r. safe tok kb k' (f r) Q) \<Longrightarrow> safe tok kb k (pcase p f) Q"
proof (induction k p "\<lambda>k' r. safe tok kb k' (f r) Q" rule: safe.induct)
  case (safe_Done k r)
  then show ?case by simp
next
  case (safe_Step k g)
  show ?case
    unfolding pcase.simps
  proof (rule safe.safe_Step)
    fix c
    assume "world tok c" "fits tok kb c k"
    from safe_Step.hyps [OF this]
    show "\<exists>c' k'. c_ns c' = snd (map_prod (\<lambda>p. pcase p f) id (g (c_ns c))) \<and> world tok c' \<and> fits tok kb c' k' \<and>
      disturbs tok kb c k c' k' \<and> safe tok kb k' (fst (map_prod (\<lambda>p. pcase p f) id (g (c_ns c)))) Q"
      by (auto simp: fst_map_prod snd_map_prod)
  qed
qed

lemma safe_pbind:
  "safe tok kb k p (\<lambda>k' r. case r of Inl e \<Rightarrow> Q k' (Inl e) | Inr a \<Rightarrow> safe tok kb k' (f a) Q) \<Longrightarrow>
     safe tok kb k (pbind p f) Q"
  unfolding pbind_def by (rule safe_pcase) (erule safe_mono, auto split: sum.splits intro: safe_Done)

lemma safe_pfinally:
  "safe tok kb k p (\<lambda>k' r. safe tok kb k' q (\<lambda>k'' _. Q k'' r)) \<Longrightarrow> safe tok kb k (pfinally p q) Q"
  unfolding pfinally_def by (rule safe_pcase) (erule safe_mono, rule safe_pcase, erule safe_mono, rule safe_Done)

section \<open>The pool\<close>

text \<open>A running operation makes a step, or a new operation of the given kinds starts.\<close>

inductive pool_step :: "unit prog set \<Rightarrow> ns \<times> unit prog list \<Rightarrow> ns \<times> unit prog list \<Rightarrow> bool" for P where
  step: "i < length ps \<Longrightarrow> ps ! i = Step g \<Longrightarrow> g ns = (p, ns') \<Longrightarrow> pool_step P (ns, ps) (ns', ps[i := p])"
| start: "p \<in> P \<Longrightarrow> pool_step P (ns, ps) (ns, ps @ [p])"

definition pool_ok :: "(nat \<Rightarrow> string) \<Rightarrow> keyBuilder \<Rightarrow> ns \<Rightarrow> unit prog list \<Rightarrow> bool" where
  "pool_ok tok kb ns ps \<longleftrightarrow>
     (\<exists>c ks. c_ns c = ns \<and> world tok c \<and> length ks = length ps \<and>
        (\<forall>i<length ps. fits tok kb c (ks ! i) \<and> safe tok kb (ks ! i) (ps ! i) (\<lambda>_ _. True)) \<and>
        (\<forall>i<length ps. \<forall>j<length ps. i \<noteq> j \<longrightarrow>
           k_own (ks ! i) \<inter> k_own (ks ! j) = {} \<and> k_fresh (ks ! i) \<inter> k_fresh (ks ! j) = {}))"

definition knows_nothing :: know where
  "knows_nothing = \<lparr>k_own = {}, k_fresh = {}, k_tokens = {}, k_stages = {}, k_seen = {}\<rparr>"

lemma pool_ok_step:
  assumes ok: "pool_ok tok kb ns ps" and i: "i < length ps" "ps ! i = Step g" "g ns = (p, ns')"
  shows "pool_ok tok kb ns' (ps[i := p])"
proof -
  from ok obtain c ks where c: "c_ns c = ns" "world tok c" "length ks = length ps"
    and all: "\<And>i. i < length ps \<Longrightarrow> fits tok kb c (ks ! i)"
      "\<And>i. i < length ps \<Longrightarrow> safe tok kb (ks ! i) (ps ! i) (\<lambda>_ _. True)"
    and apart: "\<And>i j. i < length ps \<Longrightarrow> j < length ps \<Longrightarrow> i \<noteq> j \<Longrightarrow>
      k_own (ks ! i) \<inter> k_own (ks ! j) = {} \<and> k_fresh (ks ! i) \<inter> k_fresh (ks ! j) = {}"
    unfolding pool_ok_def by blast
  from all(2) [OF i(1)] obtain c' k' where c': "c_ns c' = ns'" "world tok c'" "fits tok kb c' k'"
    "disturbs tok kb c (ks ! i) c' k'" "safe tok kb k' p (\<lambda>_ _. True)"
    using c(1,2) all(1) [OF i(1)] i(3) unfolding i(2) by (auto elim!: safe_StepE)
  note moved = fits_disturbed [OF all(1) c'(4) all(1) [OF i(1)]]
  have "fits tok kb c' (ks[i := k'] ! j) \<and> safe tok kb (ks[i := k'] ! j) (ps[i := p] ! j) (\<lambda>_ _. True)"
    if "j < length ps" for j
    using that c c' all apart [of i j] i(1) moved(1) [of j] by (cases "j = i") auto
  moreover have "k_own (ks[i := k'] ! j) \<inter> k_own (ks[i := k'] ! l) = {} \<and>
      k_fresh (ks[i := k'] ! j) \<inter> k_fresh (ks[i := k'] ! l) = {}" if "j < length ps" "l < length ps" "j \<noteq> l" for j l
    using that c(3) i(1) apart [of j l] apart [of i j] apart [of i l] moved(2,3) [of j] moved(2,3) [of l]
    by (cases "j = i"; cases "l = i") (auto simp: Int_commute)
  ultimately show ?thesis
    unfolding pool_ok_def using c c' by (intro exI [of _ c'] exI [of _ "ks[i := k']"]) simp
qed

lemma pool_ok_start:
  assumes ok: "pool_ok tok kb ns ps" and p: "safe tok kb knows_nothing p (\<lambda>_ _. True)"
  shows "pool_ok tok kb ns (ps @ [p])"
proof -
  have none: "fits tok kb c knows_nothing" "k_own knows_nothing = {}" for c
    by (simp_all add: fits_def knows_nothing_def)
  from ok obtain c ks where c: "c_ns c = ns" "world tok c" "length ks = length ps"
    and all: "\<forall>i<length ps. fits tok kb c (ks ! i) \<and> safe tok kb (ks ! i) (ps ! i) (\<lambda>_ _. True)"
    and apart: "\<forall>i<length ps. \<forall>j<length ps. i \<noteq> j \<longrightarrow>
      k_own (ks ! i) \<inter> k_own (ks ! j) = {} \<and> k_fresh (ks ! i) \<inter> k_fresh (ks ! j) = {}"
    unfolding pool_ok_def by blast
  have 1: "fits tok kb c ((ks @ [knows_nothing]) ! i) \<and>
      safe tok kb ((ks @ [knows_nothing]) ! i) ((ps @ [p]) ! i) (\<lambda>_ _. True)" if "i < Suc (length ps)" for i
    using that all c(3) none p by (cases "i < length ps") (auto simp: nth_append)
  have 2: "k_own ((ks @ [knows_nothing]) ! i) \<inter> k_own ((ks @ [knows_nothing]) ! j) = {} \<and>
      k_fresh ((ks @ [knows_nothing]) ! i) \<inter> k_fresh ((ks @ [knows_nothing]) ! j) = {}"
    if "i < Suc (length ps)" "j < Suc (length ps)" "i \<noteq> j" for i j
    using that apart c(3) none by (auto simp: nth_append knows_nothing_def less_Suc_eq)
  show ?thesis
    unfolding pool_ok_def using c 1 2 by (intro exI [of _ c] exI [of _ "ks @ [knows_nothing]"]) simp
qed

lemma pool_reaches_ok:
  assumes "(pool_step P)\<^sup>*\<^sup>* (ns, []) (ns', ps)" and "\<And>p. p \<in> P \<Longrightarrow> safe tok kb knows_nothing p (\<lambda>_ _. True)"
    and "c_ns c = ns" "world tok c"
  shows "pool_ok tok kb ns' ps"
  using assms(1)
proof (induction "(ns', ps)" arbitrary: ns' ps rule: rtranclp_induct)
  case base
  then show ?case
    using assms(3,4) by (auto simp: pool_ok_def)
next
  case (step y)
  from step(2) obtain ns1 ps1 where y: "y = (ns1, ps1)"
    by (cases y)
  show ?case
    using step(2) step(3) [OF y] unfolding y
    by (cases rule: pool_step.cases) (auto intro: pool_ok_step pool_ok_start assms(2))
qed


end
