(* ===== verification/Native_Safe.thy ===== *)
theory Native_Safe
  imports Native_Pool
begin

text \<open>
  Every program of \<open>Native_FS\<close> and \<open>Native_Range\<close> other than a rename is safe in the sense of
  \<open>Native_Pool\<close>: the rules below follow the definitions one by one, from single commands over the
  guarded mutations to the operations. The premise of a rule is what the program needs to know; its
  last premise says what holds of the knowledge and the result afterwards.
\<close>

named_theorems safe_rules \<open>rules for the programs of the client\<close>

section \<open>Steps that leave the tree alone\<close>

definition same_tree :: "ns \<Rightarrow> ns \<Rightarrow> bool" where
  "same_tree ns ns' \<longleftrightarrow>
     ns_inodes ns' = ns_inodes ns \<and> ns_dirents ns' = ns_dirents ns \<and> ns_content ns' = ns_content ns \<and>
     ns_files ns' = ns_files ns \<and> ns_dirs ns' = ns_dirs ns \<and> ns_links ns' = ns_links ns \<and> ns_bytes ns' = ns_bytes ns \<and>
     ns_next ns' = ns_next ns"

lemma same_tree_views:
  assumes "same_tree ns ns'"
  shows "nodes ns' = nodes ns" "inode_at ns' = inode_at ns" "dirent ns' = dirent ns" "content_at ns' = content_at ns"
    "ns_ok ns' = ns_ok ns" "ns_next ns' = ns_next ns"
proof -
  show v: "nodes ns' = nodes ns" "inode_at ns' = inode_at ns" "dirent ns' = dirent ns" "content_at ns' = content_at ns"
    "ns_next ns' = ns_next ns"
    using assms by (simp_all add: same_tree_def views)
  show "ns_ok ns' = ns_ok ns"
    using assms unfolding ns_ok_def v by (simp add: same_tree_def census_def nsum_def)
qed

lemma conf_ok_same:
  assumes "conf_ok c" "same_tree (c_ns c) ns'"
  shows "conf_ok (c\<lparr>c_ns := ns'\<rparr>)"
  using assms(1) same_tree_views [OF assms(2)] unfolding conf_ok_def by (simp add: numbered_def copy_ok_def)

lemma world_same:
  "world tok c \<Longrightarrow> same_tree (c_ns c) ns' \<Longrightarrow> ns_tokens (c_ns c) \<le> ns_tokens ns' \<Longrightarrow> world tok (c\<lparr>c_ns := ns'\<rparr>)"
  using conf_ok_same [of c ns'] by (auto simp: world_def)

definition quiet :: "ns \<Rightarrow> ns \<Rightarrow> bool" where
  "quiet ns ns' \<longleftrightarrow> same_tree ns ns' \<and> ns_tokens ns' = ns_tokens ns \<and> ns_stages ns' = ns_stages ns"

lemma quiet_refl [simp]: "quiet ns ns"
  by (simp add: quiet_def same_tree_def)

lemma quiet_step:
  assumes "world tok c" "fits tok kb c k" "quiet (c_ns c) ns'"
  shows "world tok (c\<lparr>c_ns := ns'\<rparr>)" "fits tok kb (c\<lparr>c_ns := ns'\<rparr>) k" "disturbs tok kb c k (c\<lparr>c_ns := ns'\<rparr>) k"
  using assms world_same [of tok c ns'] unfolding quiet_def fits_def disturbs_def by simp_all

lemma safe_quiet:
  assumes "\<And>c. world tok c \<Longrightarrow> fits tok kb c k \<Longrightarrow> quiet (c_ns c) (snd (g (c_ns c)))"
    and "\<And>c. world tok c \<Longrightarrow> fits tok kb c k \<Longrightarrow> safe tok kb k (fst (g (c_ns c))) Q"
  shows "safe tok kb k (Step g) Q"
proof (rule safe_Step)
  fix c
  assume c: "world tok c" "fits tok kb c k"
  let ?c = "c\<lparr>c_ns := snd (g (c_ns c))\<rparr>"
  show "\<exists>c' k'. c_ns c' = snd (g (c_ns c)) \<and> world tok c' \<and> fits tok kb c' k' \<and> disturbs tok kb c k c' k' \<and>
      safe tok kb k' (fst (g (c_ns c))) Q"
    using quiet_step [OF c assms(1) [OF c]] assms(2) [OF c] by (intro exI [of _ ?c] exI [of _ k]) simp
qed

lemma safe_query [safe_rules]:
  "(\<And>c. world tok c \<Longrightarrow> fits tok kb c k \<Longrightarrow> Q k (f (c_ns c))) \<Longrightarrow> safe tok kb k (query f) Q"
  unfolding query_def by (rule safe_quiet) (auto intro: safe_Done)

lemma safe_command_quiet:
  "(\<And>ns. quiet ns (snd (f ns))) \<Longrightarrow> (\<And>a. Q k (Inr a)) \<Longrightarrow> safe tok kb k (command f) Q"
  unfolding command_def by (rule safe_quiet) (auto intro: safe_Done split: prod.splits simp: prod.case_eq_if)

lemma quiet_emit [simp]: "quiet ns (emit payload ns)"
  by (simp add: quiet_def same_tree_def emit_def)

lemma safe_publishInvalidate [safe_rules]: "(\<And>r. Q k r) \<Longrightarrow> safe tok kb k (publishInvalidate env kind p) Q"
  unfolding publishInvalidate_def by (auto intro: safe_Done safe_command_quiet)

lemma safe_markRootDirty [safe_rules]: "(\<And>r. Q k r) \<Longrightarrow> safe tok kb k (markRootDirty env ctx) Q"
  unfolding markRootDirty_def
  by (rule safe_quiet) (auto intro: safe_Done simp: quiet_def same_tree_def split: option.splits)

lemma safe_nowMs [safe_rules]: "(\<And>t. Q k (Inr t)) \<Longrightarrow> safe tok kb k (nowMs env) Q"
  unfolding nowMs_def by (rule safe_query)

lemma safe_lookupChildID [safe_rules]: "(\<And>r. Q k r) \<Longrightarrow> safe tok kb k (lookupChildID d n) Q"
  unfolding lookupChildID_def by (rule safe_query)

lemma safe_check_generation [safe_rules]: "(\<And>r. Q k r) \<Longrightarrow> safe tok kb k (check_generation env ctx) Q"
  unfolding check_generation_def by (rule safe_query)

lemma safe_loadContentExternal [safe_rules]: "(\<And>r. Q k r) \<Longrightarrow> safe tok kb k (loadContentExternal env x ref) Q"
  unfolding loadContentExternal_def
  by (auto intro!: safe_query safe_pbind safe_Done split: sum.splits)

lemma safe_selectContentRef [safe_rules]:
  assumes "\<And>e. Q k (Inl e)" and "\<And>ref. Q k (Inr (d\<lparr>d_inode := (d_inode d)\<lparr>i_ref := ref\<rparr>\<rparr>))"
  shows "safe tok kb k (selectContentRef env d) Q"
proof -
  have "Q k (Inr d)"
    using assms(2) [of "i_ref (d_inode d)"] by simp
  then show ?thesis
    using assms unfolding selectContentRef_def preferredContentRef_def
    by (auto intro!: safe_pbind safe_Done simp: Let_def split: sum.splits)
qed

section \<open>Loading\<close>

definition grows :: "know \<Rightarrow> know \<Rightarrow> bool" where
  "grows k k' \<longleftrightarrow>
     k_own k \<subseteq> k_own k' \<and> k_fresh k \<subseteq> k_fresh k' \<and> k_tokens k \<subseteq> k_tokens k' \<and> k_stages k \<subseteq> k_stages k' \<and>
     k_seen k \<subseteq> k_seen k'"

lemma grows_refl [simp]: "grows k k"
  by (simp add: grows_def)

lemma grows_trans: "grows a b \<Longrightarrow> grows b c \<Longrightarrow> grows a c"
  by (auto simp: grows_def)

text \<open>\<open>d\<close> is an inode the client has loaded, apart from what it changed since.\<close>

definition holds :: "know \<Rightarrow> inodeData \<Rightarrow> bool" where
  "holds k d \<longleftrightarrow>
     (\<exists>i. (d_id d, i) \<in> k_seen k \<and> i_revision (d_inode d) = i_revision i \<and> i_type (d_inode d) = i_type i \<and>
        i_parent (d_inode d) = i_parent i \<and> i_name (d_inode d) = i_name i)"

definition exact :: "know \<Rightarrow> inodeData \<Rightarrow> bool" where
  "exact k d \<longleftrightarrow> (\<exists>i. (d_id d, i) \<in> k_seen k \<and> d_inode d = metadata i)"

lemma holds_grows: "holds k d \<Longrightarrow> grows k k' \<Longrightarrow> holds k' d"
  unfolding holds_def grows_def by blast

lemma exact_grows: "exact k d \<Longrightarrow> grows k k' \<Longrightarrow> exact k' d"
  unfolding exact_def grows_def by blast

lemma exact_holds: "exact k d \<Longrightarrow> holds k d"
  by (auto simp: exact_def holds_def metadata_def)

lemma safe_loadInodeByID [safe_rules]:
  assumes "\<And>k' m. grows k k' \<Longrightarrow>
    (\<And>d. m = Some d \<Longrightarrow> exact k' d \<and> d_id d = x) \<Longrightarrow> (m = None \<Longrightarrow> x \<noteq> rootInodeID) \<Longrightarrow> Q k' (Inr m)"
  shows "safe tok kb k (loadInodeByID x) Q"
  unfolding loadInodeByID_def query_def
proof (rule safe_Step)
  fix c
  assume c: "world tok c" "fits tok kb c k"
  let ?m = "inodeFromValues x (inode_at (c_ns c) x)"
  obtain r where "loaded (c_ns c) rootInodeID r"
    using c(1) ns_ok_root conf_okD(1) unfolding world_def by blast
  then have root: "?m = None \<Longrightarrow> x \<noteq> rootInodeID"
    by (auto simp: loaded_def)
  show "\<exists>c' k'. c_ns c' = snd (Done (Inr ?m), c_ns c) \<and> world tok c' \<and> fits tok kb c' k' \<and> disturbs tok kb c k c' k' \<and>
      safe tok kb k' (fst (Done (Inr ?m), c_ns c)) Q"
  proof (cases "inode_at (c_ns c) x")
    case None
    then have "Q k (Inr ?m)"
      using root by (intro assms) (auto simp: inodeFromValues_def)
    then show ?thesis
      using c quiet_step [OF c, of "c_ns c"] by (intro exI [of _ c] exI [of _ k]) (auto intro: safe_Done)
  next
    case (Some i)
    let ?c = "c\<lparr>c_seen := insert (x, i) (c_seen c)\<rparr>" and ?k = "k\<lparr>k_seen := insert (x, i) (k_seen k)\<rparr>"
    have "Q ?k (Inr ?m)"
      using Some root by (intro assms) (auto simp: grows_def exact_def inodeFromValues_def split: if_splits)
    moreover have "world tok ?c"
      using load_keeps [OF _ Some] c(1) by (simp add: world_def)
    moreover have "fits tok kb ?c ?k" "disturbs tok kb c k ?c ?k"
      using c(2) by (auto simp: fits_def disturbs_def)
    ultimately show ?thesis
      by (intro exI [of _ ?c] exI [of _ ?k]) (auto intro: safe_Done)
  qed
qed

lemma safe_loadRootInode [safe_rules]:
  assumes "\<And>k' d. grows k k' \<Longrightarrow> exact k' d \<Longrightarrow> Q k' (Inr (Some d))"
  shows "safe tok kb k loadRootInode Q"
  unfolding loadRootInode_def
proof (rule safe_loadInodeByID)
  fix k' m
  assume "grows k k'" "\<And>d. m = Some d \<Longrightarrow> exact k' d \<and> d_id d = rootInodeID" "m = None \<Longrightarrow> rootInodeID \<noteq> rootInodeID"
  then show "Q k' (Inr m)"
    using assms by (cases m) auto
qed

lemma safe_ensureRoot [safe_rules]:
  "(\<And>k' r. grows k k' \<Longrightarrow> Q k' r) \<Longrightarrow> safe tok kb k (ensureRoot env ctx) Q"
  unfolding ensureRoot_def
  by (intro safe_pbind safe_rules) (auto split: sum.splits intro!: safe_pbind safe_rules safe_Done)

text \<open>A symlink that is followed: the walk starts again at the root.\<close>

lemma safe_follow_link:
  assumes "\<And>e. safe tok kb k (fail e) Q"
    and "\<And>n k' r. left = Suc n \<Longrightarrow> target \<noteq> [] \<Longrightarrow> grows k k' \<Longrightarrow> exact k' r \<Longrightarrow> safe tok kb k' (again n r) Q"
  shows "safe tok kb k (case left of
      0 \<Rightarrow> fail many
    | Suc n \<Rightarrow>
        if target = [] then fail invalid
        else pbind loadRootInode (\<lambda>root. case root of None \<Rightarrow> fail RedisNil | Some r \<Rightarrow> again n r)) Q"
  using assms by (auto intro!: safe_pbind safe_loadRootInode split: nat.splits)

lemma safe_resolve_loop:
  assumes "cs = [] \<Longrightarrow> exact k cur"
    and "\<And>k' r. grows k k' \<Longrightarrow> (\<And>q d. r = Inr (q, d) \<Longrightarrow> exact k' d) \<Longrightarrow> Q k' r"
  shows "safe tok kb k (resolve_loop follow left curPath cur cs) Q"
  using assms
proof (induction follow left curPath cur cs arbitrary: k rule: resolve_loop.induct)
  case (1 follow left curPath cur)
  show ?case
    using 1(1) 1(2) [of k "Inr (curPath, cur)"] by (auto intro: safe_Done)
next
  case (2 follow left curPath cur c cs)
  have child: "safe tok kb k1 (if i_type (d_inode d) = ''symlink'' \<and> (follow \<or> cs \<noteq> []) then
        (case left of
           0 \<Rightarrow> fail (ErrOther ''too many levels of symbolic links'')
         | Suc left' \<Rightarrow>
             if i_target (d_inode d) = [] then fail (ErrOther ''invalid symlink target'')
             else pbind loadRootInode (\<lambda>root. case root of None \<Rightarrow> fail RedisNil | Some r \<Rightarrow>
               resolve_loop follow left' ''/'' r (splitComponents (symlink_path curPath (i_target (d_inode d)) cs))))
      else if cs = [] then return (joinPath curPath c, d)
      else if i_type (d_inode d) \<noteq> ''dir'' then fail ErrNotDir
      else resolve_loop follow left (joinPath curPath c) d cs) Q"
    if k1: "grows k k1" and d: "exact k1 d" for k1 d
  proof -
    have post: "Q k2 r" if "grows k1 k2" "\<And>q d. r = Inr (q, d) \<Longrightarrow> exact k2 d" for k2 r
      using 2(4) [OF grows_trans [OF k1 that(1)]] that(2) by blast
    have err: "safe tok kb k1 (fail e) Q" for e
      using post [of k1 "Inl e"] by (simp add: safe_Done)
    show ?thesis
    proof (split if_split, intro conjI impI)
      assume "i_type (d_inode d) = ''symlink'' \<and> (follow \<or> cs \<noteq> [])"
      then show "safe tok kb k1 (case left of
           0 \<Rightarrow> fail (ErrOther ''too many levels of symbolic links'')
         | Suc left' \<Rightarrow>
             if i_target (d_inode d) = [] then fail (ErrOther ''invalid symlink target'')
             else pbind loadRootInode (\<lambda>root. case root of None \<Rightarrow> fail RedisNil | Some r \<Rightarrow>
               resolve_loop follow left' ''/'' r (splitComponents (symlink_path curPath (i_target (d_inode d)) cs)))) Q"
        using 2(1) post grows_trans by (intro safe_follow_link err) blast
    next
      assume link: "\<not> (i_type (d_inode d) = ''symlink'' \<and> (follow \<or> cs \<noteq> []))"
      show "safe tok kb k1 (if cs = [] then return (joinPath curPath c, d)
          else if i_type (d_inode d) \<noteq> ''dir'' then fail ErrNotDir
          else resolve_loop follow left (joinPath curPath c) d cs) Q"
        using err d 2(2) [OF link, of k1] post post [of k1 "Inr (joinPath curPath c, d)"] by (auto intro: safe_Done)
    qed
  qed
  have err: "Q k1 (Inl e)" if "grows k k1" for k1 e
    using 2(4) [OF that, of "Inl e"] by simp
  show ?case
    unfolding resolve_loop.simps
    by (auto intro!: safe_pbind safe_lookupChildID safe_loadInodeByID safe_Done err child split: sum.splits option.splits
        split del: if_split)
qed

lemma safe_resolvePath [safe_rules]:
  assumes "\<And>k' r. grows k k' \<Longrightarrow> (\<And>q d. r = Inr (q, d) \<Longrightarrow> exact k' d) \<Longrightarrow> Q k' r"
  shows "safe tok kb k (resolvePath env ctx p follow) Q"
  unfolding resolvePath_def
proof (intro safe_pbind safe_ensureRoot, goal_cases)
  case (1 k1 r)
  then show ?case
    using assms [of k1 "Inl _"]
    by (cases r) (auto intro!: safe_pbind safe_loadRootInode safe_resolve_loop assms, blast intro: grows_trans)
qed

lemma safe_loadInode [safe_rules]:
  assumes "\<And>k' r. grows k k' \<Longrightarrow> (\<And>d. r = Inr (Some d) \<Longrightarrow> exact k' d) \<Longrightarrow> Q k' r"
  shows "safe tok kb k (loadInode env ctx p) Q"
  unfolding loadInode_def
  by (intro safe_pcase safe_resolvePath) (auto intro!: safe_Done assms split: sum.splits)

section \<open>Drawing and staging\<close>

definition drawn :: "string \<Rightarrow> know \<Rightarrow> know" where
  "drawn t k = k\<lparr>k_own := insert t (k_own k), k_tokens := insert t (k_tokens k)\<rparr>"

lemma grows_drawn [simp]: "grows k (drawn t k)"
  by (auto simp: grows_def drawn_def)

lemma drawn_simps [simp]:
  "k_own (drawn t k) = insert t (k_own k)" "k_tokens (drawn t k) = insert t (k_tokens k)"
  "k_fresh (drawn t k) = k_fresh k" "k_stages (drawn t k) = k_stages k" "k_seen (drawn t k) = k_seen k"
  by (simp_all add: drawn_def)

lemma safe_newOriginID:
  assumes tok: "good_tokens (e_token env)"
    and post: "\<And>t. (\<And>x u b. (x, u, b) \<in> k_stages k \<Longrightarrow> u \<noteq> t) \<Longrightarrow> Q (drawn t k) (Inr t)"
  shows "safe (e_token env) kb k (newOriginID env) Q"
  unfolding newOriginID_def command_def
proof (rule safe_Step)
  fix c
  assume c: "world (e_token env) c" "fits (e_token env) kb c k"
  let ?n = "ns_tokens (c_ns c)"
  let ?t = "e_token env ?n" and ?ns = "(c_ns c)\<lparr>ns_tokens := ?n + 1\<rparr>"
  let ?c = "c\<lparr>c_ns := ?ns\<rparr>" and ?k = "drawn ?t k"
  have same: "same_tree (c_ns c) ?ns"
    by (simp add: same_tree_def)
  have new: "?t \<notin> c_revs c" "e_token env j = ?t \<Longrightarrow> j = ?n" "is_token ?t" for j
    using c(1) tok by (auto simp: world_def good_tokens_def dest: injD)
  have later: "e_token env j \<notin> insert ?t (k_own k)" if "?n + 1 \<le> j" for j
    using new(2) [of j] fitsD(4) [OF c(2), of j] that by auto
  have "fits (e_token env) kb ?c ?k"
    unfolding fits_def using fitsD(1,2,3,5,6,7) [OF c(2)] new(1,3) later by auto
  moreover have "disturbs (e_token env) kb c k ?c ?k"
    unfolding disturbs_def by auto
  moreover have "Q ?k (Inr ?t)"
    using fitsD(4) [OF c(2), of ?n] fitsD(6) [OF c(2)] by (intro post) auto
  ultimately show "\<exists>c' k'. c_ns c' = snd (case (?t, ?ns) of (a, ns') \<Rightarrow> (return a, ns')) \<and> world (e_token env) c' \<and>
      fits (e_token env) kb c' k' \<and> disturbs (e_token env) kb c k c' k' \<and>
      safe (e_token env) kb k' (fst (case (?t, ?ns) of (a, ns') \<Rightarrow> (return a, ns'))) Q"
    using world_same [OF c(1) same] by (intro exI [of _ ?c] exI [of _ ?k]) (auto intro: safe_Done)
qed

lemma safe_allocInodeID [safe_rules]:
  assumes err: "\<And>k' e. grows k k' \<Longrightarrow> Q k' (Inl e)"
    and post: "\<And>k' x. grows k k' \<Longrightarrow> x \<in> k_fresh k' \<Longrightarrow> Q k' (Inr x)"
  shows "safe tok kb k (allocInodeID env ctx) Q"
  unfolding allocInodeID_def
proof (intro safe_pbind safe_ensureRoot, goal_cases)
  case (1 k1 r)
  let ?f = "\<lambda>ns. (FormatInt (ns_next ns + 1), ns\<lparr>ns_next := ns_next ns + 1\<rparr>)"
  have "safe tok kb k1 (command ?f) Q"
    unfolding command_def
  proof (rule safe_Step)
    fix c
    assume c: "world tok c" "fits tok kb c k1"
    let ?x = "FormatInt (ns_next (c_ns c) + 1)" and ?ns = "(c_ns c)\<lparr>ns_next := ns_next (c_ns c) + 1\<rparr>"
    let ?c = "c\<lparr>c_ns := ?ns, c_fresh := insert ?x (c_fresh c)\<rparr>" and ?k = "k1\<lparr>k_fresh := insert ?x (k_fresh k1)\<rparr>"
    have "?x \<notin> c_fresh c"
      using c(1) conf_okD(3) [of c ?x undefined] by (auto simp: world_def numbered_def)
    then have "fits tok kb ?c ?k" "disturbs tok kb c k1 ?c ?k"
      using c(2) by (auto simp: fits_def disturbs_def)
    moreover have "world tok ?c"
      using c(1) alloc_keeps [of c] by (simp add: world_def)
    moreover have "Q ?k (Inr ?x)"
      using 1 by (intro post) (auto simp: grows_def)
    ultimately show "\<exists>c' k'. c_ns c' = snd (case ?f (c_ns c) of (a, ns') \<Rightarrow> (return a, ns')) \<and> world tok c' \<and>
        fits tok kb c' k' \<and> disturbs tok kb c k1 c' k' \<and>
        safe tok kb k' (fst (case ?f (c_ns c) of (a, ns') \<Rightarrow> (return a, ns'))) Q"
      by (intro exI [of _ ?c] exI [of _ ?k]) (auto intro: safe_Done)
  qed
  then show ?case
    using err [OF 1] by (auto split: sum.splits)
qed

definition mine :: "keyBuilder \<Rightarrow> know \<Rightarrow> string \<Rightarrow> bool" where
  "mine kb k s \<longleftrightarrow> (\<exists>x t. s = stage_key kb x t \<and> t \<in> k_own k)"

definition staged :: "keyBuilder \<Rightarrow> know \<Rightarrow> string \<Rightarrow> int \<Rightarrow> bool" where
  "staged kb k s n \<longleftrightarrow> (\<exists>x t b. s = stage_key kb x t \<and> (x, t, b) \<in> k_stages k \<and> int (length b) = n)"

definition without_stage :: "keyBuilder \<Rightarrow> string \<Rightarrow> know \<Rightarrow> know" where
  "without_stage kb s k = k\<lparr>k_stages := {(x, t, b) \<in> k_stages k. stage_key kb x t \<noteq> s}\<rparr>"

lemma staged_value: "fits tok kb c k \<Longrightarrow> staged kb k s n \<Longrightarrow> \<exists>b. map_of (ns_stages (c_ns c)) s = Some b \<and> int (length b) = n"
  using fitsD(6) unfolding staged_def by metis

lemma staged_mine: "fits tok kb c k \<Longrightarrow> staged kb k s n \<Longrightarrow> mine kb k s"
  using fitsD(6) unfolding staged_def mine_def by metis

lemma staged_grows: "staged kb k s n \<Longrightarrow> grows k k' \<Longrightarrow> staged kb k' s n"
  unfolding staged_def grows_def by blast

lemma mine_own: "mine kb k s \<Longrightarrow> k_own k \<subseteq> k_own k' \<Longrightarrow> mine kb k' s"
  unfolding mine_def by blast

lemma same_tree_stages [simp]: "same_tree ns (ns\<lparr>ns_stages := s\<rparr>)"
  by (simp add: same_tree_def)

lemma safe_discardStage [safe_rules]:
  assumes "mine kb k s" "\<And>k' r. k_own k' = k_own k \<Longrightarrow> Q k' r"
  shows "safe tok kb k (discardStage s) Q"
  unfolding discardStage_def command_def
proof (rule safe_Step)
  fix c
  assume c: "world tok c" "fits tok kb c k"
  let ?ns = "(c_ns c)\<lparr>ns_stages := mdelete s (ns_stages (c_ns c))\<rparr>"
  let ?c = "c\<lparr>c_ns := ?ns\<rparr>" and ?k = "without_stage kb s k"
  have "fits tok kb ?c ?k"
    using c(2) by (auto simp: fits_def without_stage_def)
  moreover have "disturbs tok kb c k ?c ?k"
    using assms(1) by (auto simp: disturbs_def without_stage_def mine_def)
  ultimately show "\<exists>c' k'. c_ns c' = snd (case ((), ?ns) of (a, ns') \<Rightarrow> (return a, ns')) \<and> world tok c' \<and>
      fits tok kb c' k' \<and> disturbs tok kb c k c' k' \<and> safe tok kb k' (fst (case ((), ?ns) of (a, ns') \<Rightarrow> (return a, ns'))) Q"
    using world_same [OF c(1), of ?ns] assms(2) [of ?k]
    by (intro exI [of _ ?c] exI [of _ ?k]) (auto simp: without_stage_def intro: safe_Done)
qed

lemma safe_stage:
  assumes t: "t \<in> k_own k" "\<And>y u v. (y, u, v) \<in> k_stages k \<Longrightarrow> u \<noteq> t"
    and post: "Q (k\<lparr>k_stages := insert (x, t, b) (k_stages k)\<rparr>) (Inr (stage_key kb x t))"
  shows "safe tok kb k (command (\<lambda>ns. (stage_key kb x t, ns\<lparr>ns_stages := mset_key (stage_key kb x t) b (ns_stages ns)\<rparr>))) Q"
  unfolding command_def
proof (rule safe_Step)
  fix c
  assume c: "world tok c" "fits tok kb c k"
  let ?s = "stage_key kb x t" and ?k = "k\<lparr>k_stages := insert (x, t, b) (k_stages k)\<rparr>"
  let ?f = "\<lambda>ns. (?s, ns\<lparr>ns_stages := mset_key ?s b (ns_stages ns)\<rparr>)"
  let ?c = "c\<lparr>c_ns := snd (?f (c_ns c))\<rparr>"
  have "stage_key kb y u \<noteq> ?s" if "(y, u, v) \<in> k_stages k" for y u v
    using stage_key_inject [of u t kb y x] fitsD(5,6) [OF c(2)] t that by metis
  then have "fits tok kb ?c ?k"
    using c(2) t(1) by (auto simp: fits_def)
  moreover have "disturbs tok kb c k ?c ?k"
    using t(1) by (auto simp: disturbs_def)
  ultimately show "\<exists>c' k'. c_ns c' = snd (case ?f (c_ns c) of (a, ns') \<Rightarrow> (return a, ns')) \<and> world tok c' \<and>
      fits tok kb c' k' \<and> disturbs tok kb c k c' k' \<and> safe tok kb k' (fst (case ?f (c_ns c) of (a, ns') \<Rightarrow> (return a, ns'))) Q"
    using world_same [OF c(1), of "snd (?f (c_ns c))"] post
    by (intro exI [of _ ?c] exI [of _ ?k]) (auto intro: safe_Done)
qed

lemma safe_stageFullFile:
  assumes env: "good_tokens (e_token env)" and d: "i_size (d_inode d) = int (length (d_content d))"
    and post: "\<And>k' s. grows k k' \<Longrightarrow> staged (e_keys env) k' s (i_size (d_inode d)) \<Longrightarrow> mine (e_keys env) k' s \<Longrightarrow> Q k' (Inr s)"
  shows "safe (e_token env) (e_keys env) k (stageFullFile env d) Q"
  unfolding stageFullFile_def
proof (intro safe_pbind safe_newOriginID [OF env], goal_cases)
  case (1 t)
  let ?s = "stage_key (e_keys env) (d_id d) t"
  let ?k = "(drawn t k)\<lparr>k_stages := insert (d_id d, t, d_content d) (k_stages (drawn t k))\<rparr>"
  have "staged (e_keys env) ?k ?s (i_size (d_inode d))" "mine (e_keys env) ?k ?s"
    unfolding staged_def mine_def using d by force+
  then have "Q ?k (Inr ?s)"
    by (intro post) (auto simp: grows_def)
  then have "safe (e_token env) (e_keys env) (drawn t k)
      (command (\<lambda>ns. (?s, ns\<lparr>ns_stages := mset_key ?s (d_content d) (ns_stages ns)\<rparr>))) Q"
    using 1 by (intro safe_stage) auto
  then show ?case
    using d by (cases "d_content d = []") (simp_all add: stage_key_def Let_def)
qed

section \<open>Guarded mutations\<close>

text \<open>A script whose effect the client is entitled to.\<close>

definition allowed ::
  "(nat \<Rightarrow> string) \<Rightarrow> keyBuilder \<Rightarrow> know \<Rightarrow> (ns \<Rightarrow> script_error + int \<times> ns) \<Rightarrow> bool" where
  "allowed tok kb k script \<longleftrightarrow>
     (\<forall>c code ns'. world tok c \<longrightarrow> fits tok kb c k \<longrightarrow> script (c_ns c) = Inr (code, ns') \<longrightarrow>
        (\<exists>c' k'. c_ns c' = ns' \<and> world tok c' \<and> fits tok kb c' k' \<and> disturbs tok kb c k c' k' \<and> k_own k \<subseteq> k_own k'))"

lemma unchanged:
  assumes "world tok c" "fits tok kb c k"
  shows "\<exists>c' k'. c_ns c' = c_ns c \<and> world tok c' \<and> fits tok kb c' k' \<and> disturbs tok kb c k c' k' \<and> k_own k \<subseteq> k_own k'"
  using quiet_step [OF assms quiet_refl] by (intro exI [of _ c] exI [of _ k]) (simp add: assms)

lemma eval_step:
  assumes "allowed tok kb k script" and ok: "\<And>k' code. k_own k \<subseteq> k_own k' \<Longrightarrow> Q k' (Inr code)"
    and err: "\<And>e. Q k (Inl (script_failure e))" and c: "world tok c" "fits tok kb c k"
  shows "\<exists>c' k'. c_ns c' = snd (eval_script script (c_ns c)) \<and> world tok c' \<and> fits tok kb c' k' \<and>
    disturbs tok kb c k c' k' \<and> safe tok kb k' (fst (eval_script script (c_ns c))) Q"
proof (cases "script (c_ns c)")
  case (Inl e)
  then show ?thesis
    using quiet_step [OF c quiet_refl] err [of e] c
    by (intro exI [of _ c] exI [of _ k]) (simp add: eval_script_def safe_Done)
next
  case (Inr cn)
  obtain code ns' where cn: "cn = (code, ns')"
    by (cases cn)
  from assms(1) c Inr cn obtain c' k' where "c_ns c' = ns'" "world tok c'" "fits tok kb c' k'"
    "disturbs tok kb c k c' k'" "k_own k \<subseteq> k_own k'"
    unfolding allowed_def by blast
  then show ?thesis
    using ok Inr cn by (intro exI [of _ c'] exI [of _ k']) (simp add: eval_script_def safe_Done)
qed

lemma safe_watched:
  assumes body: "\<And>c. world tok c \<Longrightarrow> fits tok kb c k \<Longrightarrow>
      \<exists>c' k'. c_ns c' = snd (body (c_ns c)) \<and> world tok c' \<and> fits tok kb c' k' \<and> disturbs tok kb c k c' k' \<and>
        safe tok kb k' (fst (body (c_ns c))) Q"
    and err: "\<And>e. Q k (Inl e)"
  shows "safe tok kb k (watched env ctx body) Q"
  unfolding watched_def
proof (rule safe_Step)
  fix c
  assume c: "world tok c" "fits tok kb c k"
  have quit: "\<exists>c' k'. c_ns c' = c_ns c \<and> world tok c' \<and> fits tok kb c' k' \<and> disturbs tok kb c k c' k' \<and>
      safe tok kb k' (fail e) Q" for e
    using quiet_step [OF c quiet_refl] err [of e] c by (intro exI [of _ c] exI [of _ k]) (simp add: safe_Done)
  show "\<exists>c' k'. c_ns c' = snd (case tx_guard (ns_reader (e_keys env)) (e_keys env) (fc_op ctx) (c_ns c) of
        Inl e \<Rightarrow> (fail e, c_ns c) | Inr _ \<Rightarrow> if e_raced env (c_ns c) then (fail ErrTxFailed, c_ns c) else body (c_ns c)) \<and>
      world tok c' \<and> fits tok kb c' k' \<and> disturbs tok kb c k c' k' \<and>
      safe tok kb k' (fst (case tx_guard (ns_reader (e_keys env)) (e_keys env) (fc_op ctx) (c_ns c) of
        Inl e \<Rightarrow> (fail e, c_ns c) | Inr _ \<Rightarrow> if e_raced env (c_ns c) then (fail ErrTxFailed, c_ns c) else body (c_ns c))) Q"
    using body [OF c] quit by (auto split: sum.splits)
qed

lemma safe_retry_tx:
  assumes body: "\<And>c. world tok c \<Longrightarrow> fits tok kb c k \<Longrightarrow>
      \<exists>c' k'. c_ns c' = snd (body (c_ns c)) \<and> world tok c' \<and> fits tok kb c' k' \<and> disturbs tok kb c k c' k' \<and>
        safe tok kb k' (fst (body (c_ns c))) (\<lambda>k'' r. r \<noteq> Inl ErrTxFailed \<and> Q k'' r)"
    and err: "\<And>e. Q k (Inl e)"
  shows "safe tok kb k (retry_tx n env ctx body) Q"
proof (induction n)
  case 0
  show ?case
    by (simp add: safe_Done err)
next
  case (Suc n)
  let ?Q = "\<lambda>k' r. if r = Inl ErrTxFailed then k' = k else Q k' r"
  have "safe tok kb k (watched env ctx body) ?Q"
  proof (rule safe_watched)
    fix c
    assume "world tok c" "fits tok kb c k"
    from body [OF this] show "\<exists>c' k'. c_ns c' = snd (body (c_ns c)) \<and> world tok c' \<and> fits tok kb c' k' \<and>
        disturbs tok kb c k c' k' \<and> safe tok kb k' (fst (body (c_ns c))) ?Q"
      using safe_mono [of tok kb _ _ _ ?Q] by fastforce
  qed (simp add: err)
  then show ?case
    unfolding retry_tx.simps
    by (intro safe_pcase) (erule safe_mono, auto simp: Suc.IH intro: safe_Done split: sum.splits if_splits)
qed

lemma script_failure_neq [simp]: "script_failure e \<noteq> ErrTxFailed"
  by (cases e) (simp_all add: script_failure_def)

lemma safe_runMutationScript:
  assumes "allowed tok kb k script" and "\<And>k' code. k_own k \<subseteq> k_own k' \<Longrightarrow> Q k' (Inr code)" and "\<And>e. Q k (Inl e)"
  shows "safe tok kb k (runMutationScript env ctx script) Q"
  unfolding runMutationScript_def
  using eval_step [OF assms(1)] assms(2,3) by (auto intro!: safe_Step safe_retry_tx)

lemma safe_prepared:
  assumes "allowed tok kb k script" and "\<And>k' r. k_own k \<subseteq> k_own k' \<Longrightarrow> Q k' r"
  shows "safe tok kb k (prepared_attempts n env ctx script) Q"
proof (induction n)
  case 0
  show ?case
    using assms(2) by (simp add: safe_Done)
next
  case (Suc n)
  show ?case
    unfolding prepared_attempts.simps prepareHistory_def
    by (intro safe_pcase safe_runMutationScript [OF assms(1)])
      (auto intro!: safe_Done safe_pbind safe_query assms(2) Suc.IH split: sum.splits)
qed

lemma safe_runPreparedMutation:
  "allowed tok kb k script \<Longrightarrow> (\<And>k' r. k_own k \<subseteq> k_own k' \<Longrightarrow> Q k' r) \<Longrightarrow>
     safe tok kb k (runPreparedMutation env ctx script) Q"
  unfolding runPreparedMutation_def by (rule safe_prepared)


section \<open>The scripts are allowed\<close>

lemma script_idle:
  "publishFileScript a cap ns = Inr (code, ns') \<Longrightarrow> code \<notin> {1, 3} \<Longrightarrow> ns' = ns"
  "createMetadataScript x i pl cap ns = Inr (code, ns') \<Longrightarrow> code \<notin> {1, 3} \<Longrightarrow> ns' = ns"
  "deleteInodeScript x i gen lease now pl cap ns = Inr (code, ns') \<Longrightarrow> code \<notin> {1, 3} \<Longrightarrow> ns' = ns"
  "updateInodeScript x i f gen lease token pl cap ns = Inr (code, ns') \<Longrightarrow> code \<notin> {1, 3} \<Longrightarrow> ns' = ns"
  by (auto simp: publishFileScript_def createMetadataScript_def deleteInodeScript_def updateInodeScript_def Let_def
      split: option.splits if_splits)

lemma ns_tokens_views [simp]:
  "ns_tokens (put_inode x i ns) = ns_tokens ns" "ns_tokens (put_dirent d n x ns) = ns_tokens ns"
  "ns_tokens (del_dirent d n ns) = ns_tokens ns" "ns_tokens (touch_times d t ns) = ns_tokens ns"
  "ns_tokens (drop_inode x ns) = ns_tokens ns" "ns_tokens (count_kind k z ns) = ns_tokens ns"
  "ns_tokens (move_stage st sz x ns) = ns_tokens ns" "ns_tokens (emit pl ns) = ns_tokens ns"
  by (simp_all add: put_inode_def put_dirent_def del_dirent_def touch_times_def drop_inode_def count_kind_def
      move_stage_def emit_def)

lemma ns_stages_views [simp]:
  "ns_stages (put_inode x i ns) = ns_stages ns" "ns_stages (put_dirent d n x ns) = ns_stages ns"
  "ns_stages (del_dirent d n ns) = ns_stages ns" "ns_stages (touch_times d t ns) = ns_stages ns"
  "ns_stages (drop_inode x ns) = ns_stages ns" "ns_stages (count_kind k z ns) = ns_stages ns"
  "ns_stages (move_stage st sz x ns) = mdelete st (ns_stages ns)" "ns_stages (emit pl ns) = ns_stages ns"
  by (simp_all add: put_inode_def put_dirent_def del_dirent_def touch_times_def drop_inode_def count_kind_def
      move_stage_def emit_def)

lemma commit_views [simp]:
  "ns_tokens (publish_commit a ns) = ns_tokens ns" "ns_stages (publish_commit a ns) = mdelete (pb_stage a) (ns_stages ns)"
  "ns_tokens (create_commit x i pl ns) = ns_tokens ns" "ns_stages (create_commit x i pl ns) = ns_stages ns"
  "ns_tokens (delete_commit x i now pl ns) = ns_tokens ns" "ns_stages (delete_commit x i now pl ns) = ns_stages ns"
  "ns_tokens (update_commit x f token pl ns) = ns_tokens ns" "ns_stages (update_commit x f token pl ns) = ns_stages ns"
  by (simp_all add: publish_commit_def create_commit_def delete_commit_def update_commit_def Let_def)

text \<open>A commit gives the published inode a drawn revision and uses up its number, its revision and its stage.\<close>

lemma commit_step:
  assumes c: "world tok c" "fits tok kb c k" and ok: "conf_ok (c\<lparr>c_ns := ns', c_fresh := c_fresh c - X, c_revs := R \<union> c_revs c\<rparr>)"
    and ns': "ns_tokens ns' = ns_tokens (c_ns c)" "ns_stages ns' = mdelete s (ns_stages (c_ns c)) \<or> ns_stages ns' = ns_stages (c_ns c)"
    and k: "X \<subseteq> k_fresh k" "R \<subseteq> k_tokens k" "ns_stages ns' \<noteq> ns_stages (c_ns c) \<Longrightarrow> mine kb k s"
  shows "\<exists>c' k'. c_ns c' = ns' \<and> world tok c' \<and> fits tok kb c' k' \<and> disturbs tok kb c k c' k' \<and> k_own k \<subseteq> k_own k'"
proof -
  let ?c = "c\<lparr>c_ns := ns', c_fresh := c_fresh c - X, c_revs := R \<union> c_revs c\<rparr>"
  let ?k = "(without_stage kb s k)\<lparr>k_fresh := k_fresh k - X, k_tokens := k_tokens k - R\<rparr>"
  have "tok j \<notin> R" if "ns_tokens (c_ns c) \<le> j" for j
    using fitsD(4) [OF c(2) that] fitsD(7) [OF c(2)] k(2) by blast
  then have "world tok ?c"
    using c(1) ok ns'(1) by (auto simp: world_def)
  moreover have "fits tok kb ?c ?k"
    using fitsD [OF c(2)] ns' k by (auto simp: fits_def without_stage_def)
  moreover have "map_of (ns_stages ns') y = map_of (ns_stages (c_ns c)) y \<or> (\<exists>x t. y = stage_key kb x t \<and> t \<in> k_own k)" for y
    using ns'(2) k(3) by (cases "ns_stages ns' = ns_stages (c_ns c)") (auto simp: mine_def)
  then have "disturbs tok kb c k ?c ?k"
    using ns'(1) k(1,2) by (auto simp: disturbs_def without_stage_def)
  ultimately show ?thesis
    by (intro exI [of _ ?c] exI [of _ ?k]) (simp add: without_stage_def)
qed

lemma allowed_publish:
  assumes a: "pb_revision a \<in> k_tokens k" "i_type (pb_inode a) = ''file''" "staged kb k (pb_stage a) (i_size (pb_inode a))"
    and who: "if pb_create a then pb_id a \<in> k_fresh k
      else \<exists>i. (pb_id a, i) \<in> k_seen k \<and> i_type i = ''file'' \<and> i_revision (pb_inode a) = i_revision i"
  shows "allowed tok kb k (\<lambda>ns. publishFileScript a (cap ns) ns)"
  unfolding allowed_def
proof (intro allI impI)
  fix c code ns'
  assume c: "world tok c" "fits tok kb c k" and run: "publishFileScript a (cap (c_ns c)) (c_ns c) = Inr (code, ns')"
  show "\<exists>c' k'. c_ns c' = ns' \<and> world tok c' \<and> fits tok kb c' k' \<and> disturbs tok kb c k c' k' \<and> k_own k \<subseteq> k_own k'"
  proof (cases "code \<in> {1, 3}")
    case False
    then show ?thesis
      using script_idle(1) [OF run] unchanged [OF c] by simp
  next
    case True
    have ok: "conf_ok c"
      using c(1) by (simp add: world_def)
    let ?X = "if pb_create a then {pb_id a} else {}"
    have "conf_ok (c\<lparr>c_ns := ns', c_fresh := c_fresh c - {pb_id a}, c_revs := insert (pb_revision a) (c_revs c)\<rparr>)"
    proof (rule publish_keeps [OF ok run True])
      show "pb_revision a \<notin> c_revs c"
        using fitsD(3) [OF c(2) a(1)] .
      show "int (length b) = i_size (pb_inode a)" if "map_of (ns_stages (c_ns c)) (pb_stage a) = Some b" for b
        using staged_value [OF c(2) a(3)] that by auto
      show "if pb_create a then pb_id a \<in> c_fresh c
          else \<exists>i. (pb_id a, i) \<in> c_seen c \<and> i_type i = ''file'' \<and> i_revision (pb_inode a) = i_revision i"
        using who fitsD(1,2) [OF c(2)] by (cases "pb_create a") (simp_all, blast+)
    qed (rule a(2))
    moreover have "c_fresh c - {pb_id a} = c_fresh c - ?X"
      using who fitsD(2) [OF c(2)] conf_okD(3) [OF ok] by (cases "pb_create a") (simp_all, blast)
    ultimately show ?thesis
      using publishFileScript_commits [OF run True] a(1) who staged_mine [OF c(2) a(3)]
      by (intro commit_step [OF c, where X = ?X and R = "{pb_revision a}" and s = "pb_stage a"]) auto
  qed
qed


lemma conf_same [simp]: "c\<lparr>c_ns := ns', c_fresh := c_fresh c, c_revs := R\<rparr> = c\<lparr>c_ns := ns', c_revs := R\<rparr>"
  by simp

lemma allowed_delete:
  assumes "holds k d"
  shows "allowed tok kb k (\<lambda>ns. deleteInodeScript (d_id d) (d_inode d) gen lease now pl (cap ns) ns)"
  unfolding allowed_def
proof (intro allI impI)
  fix c code ns'
  assume c: "world tok c" "fits tok kb c k"
    and run: "deleteInodeScript (d_id d) (d_inode d) gen lease now pl (cap (c_ns c)) (c_ns c) = Inr (code, ns')"
  show "\<exists>c' k'. c_ns c' = ns' \<and> world tok c' \<and> fits tok kb c' k' \<and> disturbs tok kb c k c' k' \<and> k_own k \<subseteq> k_own k'"
  proof (cases "code \<in> {1, 3}")
    case False
    then show ?thesis
      using script_idle(3) [OF run] unchanged [OF c] by simp
  next
    case True
    have "conf_ok (c\<lparr>c_ns := ns'\<rparr>)"
      using delete_keeps [OF _ run True] c(1) by (simp add: world_def)
    then show ?thesis
      using deleteInodeScript_commits [OF run True]
      by (intro commit_step [OF c, where X = "{}" and R = "{}"]) auto
  qed
qed

lemma update_script_cong:
  assumes "i_revision i = i_revision j" "i_parent i = i_parent j" "i_name i = i_name j"
  shows "updateInodeScript x i f gen lease t pl cap ns = updateInodeScript x j f gen lease t pl cap ns"
  unfolding updateInodeScript_def assms ..

lemma allowed_update:
  assumes i: "(d_id d, i) \<in> k_seen k" "i_revision (d_inode d) = i_revision i" "i_parent (d_inode d) = i_parent i"
      "i_name (d_inode d) = i_name i"
    and f: "metadata_only i f" and t: "t \<in> k_tokens k"
  shows "allowed tok kb k (\<lambda>ns. updateInodeScript (d_id d) (d_inode d) f gen lease t pl (cap ns) ns)"
  unfolding allowed_def
proof (intro allI impI)
  fix c code ns'
  assume c: "world tok c" "fits tok kb c k"
    and "updateInodeScript (d_id d) (d_inode d) f gen lease t pl (cap (c_ns c)) (c_ns c) = Inr (code, ns')"
  then have run: "updateInodeScript (d_id d) i f gen lease t pl (cap (c_ns c)) (c_ns c) = Inr (code, ns')"
    using update_script_cong [OF i(2-4)] by simp
  show "\<exists>c' k'. c_ns c' = ns' \<and> world tok c' \<and> fits tok kb c' k' \<and> disturbs tok kb c k c' k' \<and> k_own k \<subseteq> k_own k'"
  proof (cases "code \<in> {1, 3}")
    case False
    then show ?thesis
      using script_idle(4) [OF run] unchanged [OF c] by simp
  next
    case True
    have "(d_id d, i) \<in> c_seen c" "t \<notin> c_revs c"
      using fitsD(2,3) [OF c(2)] i(1) t by blast+
    then have "conf_ok (c\<lparr>c_ns := ns', c_revs := insert t (c_revs c)\<rparr>)"
      using update_keeps [OF _ _ f _ run True] c(1) by (simp add: world_def)
    then show ?thesis
      using updateInodeScript_commits [OF run True] t
      by (intro commit_step [OF c, where X = "{}" and R = "{t}"]) auto
  qed
qed


section \<open>Publishing, deleting and updating\<close>

lemma safe_checked:
  "(\<And>e. Q k (Inl e)) \<Longrightarrow> (\<And>a. safe tok kb k (f a) Q) \<Longrightarrow> safe tok kb k (pbind (Done r) f) Q"
  by (rule safe_pbind, rule safe_Done) (auto split: sum.splits)

lemma safe_draw:
  assumes "good_tokens (e_token env)"
    and "\<And>t. (\<And>x u b. (x, u, b) \<in> k_stages k \<Longrightarrow> u \<noteq> t) \<Longrightarrow> safe (e_token env) kb (drawn t k) (f t) Q"
  shows "safe (e_token env) kb k (pbind (newOriginID env) f) Q"
  using assms by (intro safe_pbind safe_newOriginID) auto

lemma safe_publishStagedFile:
  assumes env: "good_tokens (e_token env)" and d: "i_type (d_inode d) = ''file''"
    and stage: "staged (e_keys env) k s (i_size (d_inode d))"
    and who: "if creating then d_id d \<in> k_fresh k else holds k d"
    and post: "\<And>k' r. k_own k \<subseteq> k_own k' \<Longrightarrow> Q k' r"
  shows "safe (e_token env) (e_keys env) k (publishStagedFile env ctx p d s creating chunks) Q"
  unfolding publishStagedFile_def Let_def
proof (intro safe_checked safe_draw [OF env] safe_pcase, goal_cases)
  case (3 _ _ t)
  have target: "if creating then d_id d \<in> k_fresh k
      else \<exists>i. (d_id d, i) \<in> k_seen k \<and> i_type i = ''file'' \<and> i_revision (d_inode d) = i_revision i"
    using who d unfolding holds_def by (auto split: if_splits)
  have own: "k_own k \<subseteq> k_own k'" if "k_own (drawn t k) \<subseteq> k_own k'" for k'
    using that by auto
  show ?case
    using d staged_grows [OF stage, of "drawn t k"] target
    by (intro safe_runPreparedMutation allowed_publish)
      (auto intro!: safe_Done safe_pbind safe_query post dest!: own split: sum.splits option.splits)
qed (simp_all add: post)

lemma safe_deletePublishedInode [safe_rules]:
  assumes env: "good_tokens (e_token env)" and d: "holds k d" and post: "\<And>k' r. Q k' r"
  shows "safe (e_token env) (e_keys env) k (deletePublishedInode env ctx p d) Q"
  unfolding deletePublishedInode_def
proof (intro safe_checked safe_draw [OF env] safe_pbind, goal_cases)
  case (3 _ _ t)
  show ?case
    using holds_grows [OF d grows_drawn]
    by (intro safe_nowMs, simp, intro safe_pbind safe_runPreparedMutation allowed_delete)
      (auto intro!: safe_Done post split: sum.splits option.splits)
qed (simp_all add: post)

lemma safe_updatePublishedInode:
  assumes env: "good_tokens (e_token env)"
    and d: "(d_id d, i) \<in> k_seen k" "i_revision (d_inode d) = i_revision i" "i_parent (d_inode d) = i_parent i"
      "i_name (d_inode d) = i_name i"
    and f: "metadata_only i f" and post: "\<And>k' r. Q k' r"
  shows "safe (e_token env) (e_keys env) k (updatePublishedInode env ctx p d f) Q"
  unfolding updatePublishedInode_def
proof (intro safe_checked safe_draw [OF env] safe_pbind, goal_cases)
  case (3 _ _ t)
  show ?case
    using d f by (intro safe_runPreparedMutation allowed_update [where i = i])
      (auto intro!: safe_Done post split: sum.splits)
qed (simp_all add: post)

lemma metadata_only_write:
  assumes "i_type d = i_type i" "i_size d = i_size i" "i_parent d = i_parent i" "i_name d = i_name i"
  shows "metadata_only i (write_fields False None d)"
  using assms by (simp add: metadata_only_def write_fields_def)

text \<open>A change of the attributes of an inode as it was loaded.\<close>

definition same_place :: "inode \<Rightarrow> inode \<Rightarrow> bool" where
  "same_place i j \<longleftrightarrow>
     i_revision i = i_revision j \<and> i_parent i = i_parent j \<and> i_name i = i_name j \<and> i_type i = i_type j \<and> i_size i = i_size j"

lemma safe_saveInodeAtPath:
  assumes env: "good_tokens (e_token env)" and d: "exact k d" "d_id e = d_id d" "same_place (d_inode e) (d_inode d)"
    and post: "\<And>k' r. Q k' r"
  shows "safe (e_token env) (e_keys env) k (saveInodeAtPath env ctx p e) Q"
proof -
  obtain i where i: "(d_id e, i) \<in> k_seen k" "d_inode d = metadata i"
    using d(1,2) by (auto simp: exact_def)
  have "same_place (d_inode e) i"
    using d(3) i(2) by (simp add: same_place_def metadata_def)
  then show ?thesis
    unfolding saveInodeAtPath_def
    by (auto intro!: safe_Done post safe_updatePublishedInode [OF env i(1)] metadata_only_write simp: same_place_def)
qed

lemma safe_saveInodeMeta:
  assumes "good_tokens (e_token env)" "exact k d" "d_id e = d_id d" "same_place (d_inode e) (d_inode d)" "\<And>k' r. Q k' r"
  shows "safe (e_token env) (e_keys env) k (saveInodeMeta env ctx p e) Q"
  unfolding saveInodeMeta_def
  by (auto intro!: safe_Done safe_saveInodeAtPath [OF assms(1-4)] assms(5))

lemma safe_saveInode:
  assumes env: "good_tokens (e_token env)" and d: "holds k d" "i_type (d_inode d) = ''file''"
    and size: "i_size (d_inode d) = int (length (d_content d))" and post: "\<And>k' r. Q k' r"
  shows "safe (e_token env) (e_keys env) k (saveInode env ctx p d) Q"
proof -
  have "safe (e_token env) (e_keys env) k (pbind (stageFullFile env e) (\<lambda>stage.
      pfinally (publishStagedFile env ctx p e stage False None) (discardStage stage))) Q"
    if e: "e = d\<lparr>d_inode := (d_inode d)\<lparr>i_ref := ref\<rparr>\<rparr>" for e ref
  proof (intro safe_pbind safe_stageFullFile [OF env], goal_cases)
    case 1
    then show ?case
      using size e by simp
  next
    case (2 k' s)
    have "holds k' e"
      using holds_grows [OF d(1) 2(1)] e by (simp add: holds_def)
    then show ?case
      using 2 e d(2) mine_own [OF 2(3)]
      by (auto intro!: safe_pfinally safe_publishStagedFile [OF env] safe_discardStage post)
  qed
  then show ?thesis
    unfolding saveInode_def using d(2)
    by (auto intro!: safe_Done post safe_pbind safe_selectContentRef split: sum.splits)
qed

section \<open>Creating\<close>

text \<open>The transaction of \<open>createInodeUnderParent\<close> draws the revision it publishes.\<close>

lemma create_step:
  assumes env: "good_tokens (e_token env)" and c: "world (e_token env) c" "fits (e_token env) kb c k"
    and x: "x \<in> k_fresh k" and i: "i_type i \<in> {''dir'', ''symlink''}" "i_revision i = e_token env (ns_tokens (c_ns c))"
    and run: "createMetadataScript x i pl cap ((c_ns c)\<lparr>ns_tokens := ns_tokens (c_ns c) + 1\<rparr>) = Inr (code, ns')"
  shows "\<exists>c' k'. c_ns c' = ns' \<and> world (e_token env) c' \<and> fits (e_token env) kb c' k' \<and> disturbs (e_token env) kb c k c' k'"
proof -
  let ?n = "ns_tokens (c_ns c)" and ?t = "i_revision i"
  let ?c = "c\<lparr>c_ns := (c_ns c)\<lparr>ns_tokens := ?n + 1\<rparr>\<rparr>"
  have ok: "conf_ok ?c"
    using conf_ok_same [of c "(c_ns c)\<lparr>ns_tokens := ?n + 1\<rparr>"] c(1) by (simp add: world_def same_tree_def)
  have t: "?t \<notin> c_revs c" "e_token env j = ?t \<Longrightarrow> j = ?n" "is_token ?t" "?t \<notin> k_own k" for j
    using c(1) env fitsD(4) [OF c(2), of ?n] unfolding i(2) by (auto simp: world_def good_tokens_def dest: injD)
  define X R where "X = (if code \<in> {1, 3} then {x} else {})" and "R = (if code \<in> {1, 3} then {?t} else {})"
  let ?c' = "c\<lparr>c_ns := ns', c_fresh := c_fresh c - X, c_revs := R \<union> c_revs c\<rparr>"
  let ?k' = "k\<lparr>k_own := insert ?t (k_own k), k_fresh := k_fresh k - X\<rparr>"
  have ns': "ns_tokens ns' = ?n + 1" "ns_stages ns' = ns_stages (c_ns c)"
    using createMetadataScript_commits [OF run] script_idle(2) [OF run] by (cases "code \<in> {1, 3}", auto)+
  have "conf_ok ?c'"
    using create_keeps [OF ok, of x i pl cap code ns'] run script_idle(2) [OF run] ok t(1) i(1) x fitsD(1) [OF c(2)]
    by (cases "code \<in> {1, 3}") (auto simp: X_def R_def)
  moreover have "e_token env j \<notin> R \<union> c_revs c" "e_token env j \<notin> insert ?t (k_own k)" if "?n + 1 \<le> j" for j
    using that t(2) [of j] c(1) fitsD(4) [OF c(2), of j] by (auto simp: world_def R_def)
  ultimately have "world (e_token env) ?c'" "fits (e_token env) kb ?c' ?k'"
    using fitsD [OF c(2)] ns' t by (auto simp: world_def fits_def R_def)
  moreover have "disturbs (e_token env) kb c k ?c' ?k'"
    using ns' x i(2) by (auto simp: disturbs_def X_def R_def)
  ultimately show ?thesis
    by (intro exI [of _ ?c'] exI [of _ ?k']) simp
qed


lemma safe_create_tx:
  assumes env: "good_tokens (e_token env)" and x: "d_id d \<in> k_fresh k" and i: "i_type (d_inode d) \<in> {''dir'', ''symlink''}"
    and post: "\<And>k' r. Q k' r"
  shows "safe (e_token env) kb k (retry_tx n env ctx (create_tx env d childPath)) Q"
proof (rule safe_retry_tx, goal_cases)
  case (1 c)
  let ?after = "(d_inode d)\<lparr>i_revision := e_token env (ns_tokens (c_ns c)), i_path := childPath\<rparr>"
  let ?ns = "(c_ns c)\<lparr>ns_tokens := ns_tokens (c_ns c) + 1\<rparr>"
  let ?Q = "\<lambda>k'' r. r \<noteq> Inl ErrTxFailed \<and> Q k'' r"
  have quit: "\<exists>c' k'. c_ns c' = c_ns c \<and> world (e_token env) c' \<and> fits (e_token env) kb c' k' \<and>
      disturbs (e_token env) kb c k c' k' \<and> safe (e_token env) kb k' (fail e) ?Q" if "e \<noteq> ErrTxFailed" for e
    using unchanged [OF 1] that post by (fastforce intro: safe_Done)
  have draw: "\<exists>c' k'. c_ns c' = ?ns \<and> world (e_token env) c' \<and> fits (e_token env) kb c' k' \<and>
      disturbs (e_token env) kb c k c' k'"
    using safe_newOriginID [OF env, of k "\<lambda>_ _. True" kb] 1
    unfolding newOriginID_def command_def by (fastforce elim!: safe_StepE)
  have leaf: "safe (e_token env) kb k' (Done r) ?Q" if "r \<noteq> Inl ErrTxFailed" for k' r
    using that post by (simp add: safe_Done)
  show ?case
  proof (cases "createMetadataScript (d_id d) ?after (e_payload env ''inode'' [childPath]) (e_capture env (c_ns c)) ?ns")
    case (Inl e)
    have "\<exists>c' k'. c_ns c' = ?ns \<and> world (e_token env) c' \<and> fits (e_token env) kb c' k' \<and>
        disturbs (e_token env) kb c k c' k' \<and> safe (e_token env) kb k' (fail (script_failure e)) ?Q"
      using draw leaf [of "Inl (script_failure e)"] by auto
    then show ?thesis
      using Inl quit by (simp add: create_tx_def Let_def)
  next
    case (Inr cn)
    obtain code ns' where cn: "cn = (code, ns')"
      by (cases cn)
    have "\<exists>c' k'. c_ns c' = ns' \<and> world (e_token env) c' \<and> fits (e_token env) kb c' k' \<and> disturbs (e_token env) kb c k c' k'"
      using create_step [OF env 1 x, of ?after _ "e_capture env (c_ns c)" code ns'] i Inr cn by simp
    then have "\<exists>c' k'. c_ns c' = ns' \<and> world (e_token env) c' \<and> fits (e_token env) kb c' k' \<and>
        disturbs (e_token env) kb c k c' k' \<and> safe (e_token env) kb k' (if code = - 1 then fail ErrWriteConflict
          else return (d\<lparr>d_inode := (d_inode d)\<lparr>i_revision := i_revision ?after\<rparr>\<rparr>)) ?Q"
      using leaf by auto
    then show ?thesis
      using Inr cn quit by (simp add: create_tx_def Let_def)
  qed
qed (rule post)

lemma safe_createInodeUnderParent:
  assumes env: "good_tokens (e_token env)" and i: "i_type i \<in> {''dir'', ''symlink''}" and post: "\<And>k' r. Q k' r"
  shows "safe (e_token env) (e_keys env) k (createInodeUnderParent env ctx childPath parent name i content) Q"
proof -
  have notfile: "i_type i \<noteq> ''file''"
    using i by auto
  have rest: "safe (e_token env) (e_keys env) k'
      (pbind (publishInvalidate env ''dir'' (parentOf childPath)) (\<lambda>_.
       pbind (publishInvalidate env ''inode'' childPath) (\<lambda>_. return d))) Q" for k' and d :: inodeData
    by (intro safe_pbind safe_publishInvalidate) (auto split: sum.splits intro!: safe_pbind safe_publishInvalidate safe_Done post)
  have new: "safe (e_token env) (e_keys env) k' (retry_tx 16 env ctx (create_tx env d childPath)) Q'"
    if "d_id d \<in> k_fresh k'" "i_type (d_inode d) = i_type i" "\<And>k' r. Q' k' r" for k' d and Q' :: "know \<Rightarrow> client_error + inodeData \<Rightarrow> bool"
    using that i by (intro safe_create_tx [OF env]) auto
  show ?thesis
    unfolding createInodeUnderParent_def Let_def
    by (auto intro!: safe_Done post safe_checked safe_pcase safe_lookupChildID safe_pbind safe_allocInodeID new rest
        simp: notfile split: sum.splits)
qed

lemma safe_ensure_loop:
  assumes env: "good_tokens (e_token env)" and post: "\<And>k' r. Q k' r"
  shows "safe (e_token env) (e_keys env) k (ensure_loop env ctx curPath cur parts) Q"
proof (induction parts arbitrary: k curPath cur)
  case Nil
  show ?case
    by (simp add: safe_Done post)
next
  case (Cons part parts)
  show ?case
    unfolding ensure_loop.simps Let_def
    by (intro safe_pcase safe_lookupChildID)
      (auto intro!: safe_Done post safe_pbind safe_loadInodeByID safe_nowMs safe_createInodeUnderParent [OF env] Cons.IH
        simp: new_inode_def split: sum.splits option.splits)
qed

lemma safe_ensureParents:
  assumes env: "good_tokens (e_token env)" and post: "\<And>k' r. Q k' r"
  shows "safe (e_token env) (e_keys env) k (ensureParents env ctx p) Q"
  unfolding ensureParents_def
  by (auto intro!: safe_Done post safe_pcase safe_resolvePath safe_pbind safe_ensureRoot safe_loadRootInode
      safe_ensure_loop [OF env] split: sum.splits)

lemma safe_createInodeAtPath:
  assumes env: "good_tokens (e_token env)" and i: "i_type i \<in> {''dir'', ''symlink''}" and post: "\<And>k' r. Q k' r"
  shows "safe (e_token env) (e_keys env) k (createInodeAtPath env ctx p i parents) Q"
  unfolding createInodeAtPath_def Let_def
  by (auto intro!: safe_Done post safe_pbind safe_ensureParents [OF env] safe_resolvePath
      safe_createInodeUnderParent [OF env i] split: sum.splits)

lemma safe_claimed:
  assumes "\<And>k' r. k_own k \<subseteq> k_own k' \<Longrightarrow> Q k' r"
  shows "safe tok kb k (claimed env ctx p parent exclusive r) Q"
  unfolding claimed_def
  by (auto intro!: safe_Done safe_pbind safe_publishInvalidate safe_lookupChildID safe_loadInodeByID assms
      simp: grows_def split: sum.splits option.splits)

lemma safe_createFileIfMissing:
  assumes env: "good_tokens (e_token env)" and post: "\<And>k' r. Q k' r"
  shows "safe (e_token env) (e_keys env) k (createFileIfMissing env ctx p content mode exclusive) Q"
proof -
  have publish: "safe (e_token env) (e_keys env) k1 (pbind (stageFullFile env d) (\<lambda>stage. pfinally
      (pcase (publishStagedFile env ctx q d stage True None) (claimed env ctx q parent exclusive)) (discardStage stage))) Q"
    if "d_id d \<in> k_fresh k1" "i_type (d_inode d) = ''file''" "i_size (d_inode d) = int (length (d_content d))" for k1 d q parent
  proof (intro safe_pbind safe_stageFullFile [OF env that(3)], simp, goal_cases)
    case (1 k2 s)
    have "d_id d \<in> k_fresh k2"
      using 1(1) that(1) by (auto simp: grows_def)
    then show ?case
      using that(2) 1(2) mine_own [OF 1(3)] post
      by (intro safe_pfinally safe_pcase safe_publishStagedFile [OF env] safe_claimed safe_discardStage) auto
  qed
  show ?thesis
    unfolding createFileIfMissing_def Let_def
    by (auto intro!: safe_Done post safe_checked safe_pbind [OF safe_resolvePath] safe_pbind [OF safe_allocInodeID]
        safe_pbind [OF safe_nowMs] safe_pbind [OF safe_selectContentRef] publish simp: new_inode_def split: sum.splits)
qed

section \<open>The operations\<close>

lemmas safe_then =
  safe_pbind [OF safe_resolvePath] safe_pbind [OF safe_nowMs] safe_pbind [OF safe_publishInvalidate]
  safe_pbind [OF safe_loadContentExternal] safe_pbind [OF safe_check_generation] safe_pbind [OF safe_loadInodeByID]
  safe_pbind [OF safe_loadInode] safe_pbind [OF safe_markRootDirty]

lemma safe_anyway: "safe tok kb k p (\<lambda>_ _. True) \<Longrightarrow> (\<And>k' r. Q k' r) \<Longrightarrow> safe tok kb k p Q"
  by (erule safe_mono) simp

lemma safe_overwrite:
  assumes env: "good_tokens (e_token env)" and d: "holds k d" "i_type (d_inode d) = ''file''"
  shows "safe (e_token env) (e_keys env) k (overwrite env ctx resolved d content) (\<lambda>_ _. True)"
proof -
  have "holds k (d\<lparr>d_content := content, d_inode := (d_inode d)\<lparr>i_size := n, i_mtime := t, i_atime := t\<rparr>\<rparr>)" for n t
    using d(1) by (simp add: holds_def)
  then show ?thesis
    unfolding overwrite_def
    using d(2) by (auto intro!: safe_then safe_pbind [OF safe_saveInode [OF env]] safe_markRootDirty split: sum.splits)
qed

lemma safe_createFile:
  assumes env: "good_tokens (e_token env)"
  shows "safe (e_token env) (e_keys env) k (createFile env ctx p content mode) (\<lambda>_ _. True)"
proof -
  have "safe (e_token env) (e_keys env) k' (pbind (if \<not> created \<and> content \<noteq> [] then
      pbind (loadContentExternal env x ref) (\<lambda>published. if published \<noteq> content then fail ErrWriteConflict else return ())
      else return ()) (\<lambda>_. markRootDirty env ctx)) (\<lambda>_ _. True)" for k' created x ref
    by (auto intro!: safe_pbind safe_loadContentExternal safe_Done safe_markRootDirty split: sum.splits)
  then show ?thesis
    unfolding createFile_def
    by (intro safe_pbind [OF safe_createFileIfMissing [OF env]]) (auto split: sum.splits)
qed

lemma safe_CreateFile:
  assumes env: "good_tokens (e_token env)"
  shows "safe (e_token env) (e_keys env) k (CreateFile env ctx p mode exclusive) (\<lambda>_ _. True)"
  unfolding CreateFile_def Let_def
  by (auto intro!: safe_pbind [OF safe_createFileIfMissing [OF env]] safe_pbind [OF safe_ensureParents [OF env]] safe_then
      safe_Done safe_checked split: sum.splits)

lemma safe_writeFile:
  assumes env: "good_tokens (e_token env)"
  shows "safe (e_token env) (e_keys env) k (writeFile env ctx p data appendMode) (\<lambda>_ _. True)"
  unfolding writeFile_def Let_def
  by (auto intro!: safe_pcase safe_resolvePath safe_Done safe_pbind [OF safe_ensureParents [OF env]] safe_createFile [OF env]
      safe_then safe_overwrite [OF env] exact_holds split: sum.splits)

lemma safe_writeFileWithMode:
  assumes env: "good_tokens (e_token env)"
  shows "safe (e_token env) (e_keys env) k (writeFileWithMode env ctx p data mode) (\<lambda>_ _. True)"
proof -
  have "safe (e_token env) (e_keys env) k' (overwrite env ctx q (d\<lparr>d_inode := (d_inode d)\<lparr>i_mode := mode\<rparr>\<rparr>) data) (\<lambda>_ _. True)"
    if "exact k' d" "i_type (d_inode d) = ''file''" for k' d q
    using exact_holds [OF that(1)] that(2) by (intro safe_overwrite [OF env]) (auto simp: holds_def)
  then show ?thesis
    unfolding writeFileWithMode_def Let_def
    by (auto intro!: safe_pcase safe_resolvePath safe_Done safe_pbind [OF safe_ensureParents [OF env]] safe_createFile [OF env]
        split: sum.splits)
qed

lemma safe_FS_Truncate:
  assumes env: "good_tokens (e_token env)"
  shows "safe (e_token env) (e_keys env) k (FS_Truncate env ctx p sz) (\<lambda>_ _. True)"
  unfolding FS_Truncate_def
  by (auto intro!: safe_then safe_Done safe_checked safe_overwrite [OF env] exact_holds split: sum.splits)

text \<open>A metadata change: the inode as it was loaded, with other attributes.\<close>

lemma safe_attributes:
  assumes env: "good_tokens (e_token env)" and d: "exact k d" "same_place (g (d_inode d)) (d_inode d)"
  shows "safe (e_token env) (e_keys env) k (pbind (saveInodeMeta env ctx q (d\<lparr>d_inode := g (d_inode d)\<rparr>)) (\<lambda>_.
    pbind (publishInvalidate env ''inode'' q) (\<lambda>_. markRootDirty env ctx))) (\<lambda>_ _. True)"
  using d by (auto intro!: safe_pbind [OF safe_saveInodeMeta [OF env d(1)]] safe_then safe_markRootDirty split: sum.splits)

lemma safe_Touch:
  assumes env: "good_tokens (e_token env)"
  shows "safe (e_token env) (e_keys env) k (Touch env ctx p) (\<lambda>_ _. True)"
proof -
  have "safe (e_token env) (e_keys env) k' (pbind (nowMs env) (\<lambda>now.
      pbind (saveInodeMeta env ctx q (d\<lparr>d_inode := (d_inode d)\<lparr>i_mtime := now, i_atime := now\<rparr>\<rparr>)) (\<lambda>_.
      pbind (publishInvalidate env ''inode'' q) (\<lambda>_. markRootDirty env ctx)))) (\<lambda>_ _. True)"
    if "exact k' d" for k' d q
    using safe_attributes [OF env that, where g = "\<lambda>i. i\<lparr>i_mtime := _, i_atime := _\<rparr>"]
    by (auto intro!: safe_then simp: same_place_def)
  then show ?thesis
    unfolding Touch_def Let_def
    by (auto intro!: safe_pcase safe_resolvePath safe_Done safe_pbind [OF safe_ensureParents [OF env]]
        safe_pbind [OF safe_anyway [OF safe_CreateFile [OF env]]] split: sum.splits)
qed

lemma safe_Chmod:
  assumes env: "good_tokens (e_token env)"
  shows "safe (e_token env) (e_keys env) k (Chmod env ctx p mode) (\<lambda>_ _. True)"
  unfolding Chmod_def announce_def
  using safe_attributes [OF env, where g = "\<lambda>i. i\<lparr>i_mode := mode\<rparr>"]
  by (auto intro!: safe_then simp: same_place_def split: sum.splits)

lemma safe_Chown:
  assumes env: "good_tokens (e_token env)"
  shows "safe (e_token env) (e_keys env) k (Chown env ctx p uid gid) (\<lambda>_ _. True)"
  unfolding Chown_def announce_def
  using safe_attributes [OF env, where g = "\<lambda>i. i\<lparr>i_uid := uid, i_gid := gid\<rparr>"]
  by (auto intro!: safe_then simp: same_place_def split: sum.splits)

lemma safe_Utimens:
  assumes env: "good_tokens (e_token env)"
  shows "safe (e_token env) (e_keys env) k (Utimens env ctx p atimeMs mtimeMs) (\<lambda>_ _. True)"
  unfolding Utimens_def announce_def Let_def
  using safe_attributes [OF env, where g = "\<lambda>i. let i = (if atimeMs \<ge> 0 then i\<lparr>i_atime := atimeMs\<rparr> else i)
    in if mtimeMs \<ge> 0 then i\<lparr>i_mtime := mtimeMs\<rparr> else i"]
  by (auto intro!: safe_then simp: same_place_def Let_def split: sum.splits)

lemma safe_SetAttrs:
  assumes env: "good_tokens (e_token env)"
  shows "safe (e_token env) (e_keys env) k (SetAttrs env ctx p upd) (\<lambda>_ _. True)"
proof -
  have save: "safe (e_token env) (e_keys env) k'
      (updatePublishedInode env ctx q (d\<lparr>d_inode := apply_attrs upd (d_inode d)\<rparr>) (apply_attrs upd)) Q"
    if d: "exact k' d" and post: "\<And>k' r. Q k' r" for k' q d and Q :: "know \<Rightarrow> client_error + inodeData \<Rightarrow> bool"
  proof -
    obtain i where i: "(d_id d, i) \<in> k_seen k'" "d_inode d = metadata i"
      using d unfolding exact_def by blast
    have "metadata_only i (apply_attrs upd)"
      by (auto simp: metadata_only_def apply_attrs_def node_of_def)
    then show ?thesis
      using i post by (intro safe_updatePublishedInode [OF env, where i = i]) (auto simp: apply_attrs_def metadata_def)
  qed
  show ?thesis
    unfolding SetAttrs_def announce_def
    by (auto intro!: safe_then safe_Done safe_pbind [OF save] safe_markRootDirty split: sum.splits)
qed


end
