(* ===== verification/Native_Concurrent.thy ===== *)
theory Native_Concurrent
  imports Native_Safe
begin

text \<open>
The operations of the client as one type of requests, and the clients of a workspace as a pool of
requests in flight (theory \<open>Native_Pool\<close>).  The requests are those that a mount, the sync engine and
the control plane send through \<open>mount/internal/client\<close>: look-ups, listings, reads, creations, writes,
changes of attributes and removals.  \<open>Rename\<close>, the byte ranges of an open handle and the transfer of
chunks are programs of the model too, but not among the requests here: \<open>Rename\<close> does not keep the tree
when its destination goes through a symlink, and the other two publish contents whose length the
scripts take from the client.
\<close>

datatype fs_op =
    OpStat string
  | OpCat string
  | OpLs string
  | OpLsLong string
  | OpReadlink string
  | OpInfo
  | OpInodePath nat
  | OpStatInode nat
  | OpReadInodeAt nat int int
  | OpCreateFile string nat bool
  | OpEcho string string
  | OpEchoCreate string string nat
  | OpEchoAppend string string
  | OpTouch string
  | OpTruncate string int
  | OpMkdir string nat
  | OpRm string
  | OpLn string string
  | OpChmod string nat
  | OpChown string nat nat
  | OpUtimens string int int
  | OpSetAttrs string AttrUpdate

definition quietly :: "'a prog \<Rightarrow> unit prog" where
  "quietly p = pbind p (\<lambda>_. return ())"

fun program :: "fs_env \<Rightarrow> fs_ctx \<Rightarrow> fs_op \<Rightarrow> unit prog" where
  "program env ctx (OpStat p) = quietly (Stat env ctx p)"
| "program env ctx (OpCat p) = quietly (Cat env ctx p)"
| "program env ctx (OpLs p) = quietly (Ls env ctx p)"
| "program env ctx (OpLsLong p) = quietly (LsLong env ctx p)"
| "program env ctx (OpReadlink p) = quietly (Readlink env ctx p)"
| "program env ctx OpInfo = quietly Info"
| "program env ctx (OpInodePath x) = quietly (InodePath ctx x)"
| "program env ctx (OpStatInode x) = quietly (StatInode env ctx x)"
| "program env ctx (OpReadInodeAt x off sz) = quietly (ReadInodeAt env ctx x off sz)"
| "program env ctx (OpCreateFile p mode exclusive) = quietly (CreateFile env ctx p mode exclusive)"
| "program env ctx (OpEcho p data) = Echo env ctx p data"
| "program env ctx (OpEchoCreate p data mode) = EchoCreate env ctx p data mode"
| "program env ctx (OpEchoAppend p data) = EchoAppend env ctx p data"
| "program env ctx (OpTouch p) = Touch env ctx p"
| "program env ctx (OpTruncate p n) = FS_Truncate env ctx p n"
| "program env ctx (OpMkdir p mode) = MkdirMode env ctx p mode"
| "program env ctx (OpRm p) = Rm env ctx p"
| "program env ctx (OpLn target p) = Ln env ctx target p"
| "program env ctx (OpChmod p mode) = Chmod env ctx p mode"
| "program env ctx (OpChown p uid gid) = Chown env ctx p uid gid"
| "program env ctx (OpUtimens p atime mtime) = Utimens env ctx p atime mtime"
| "program env ctx (OpSetAttrs p upd) = SetAttrs env ctx p upd"

section \<open>Every request is safe\<close>

lemma safe_quietly: "safe tok kb k p (\<lambda>_ _. True) \<Longrightarrow> safe tok kb k (quietly p) (\<lambda>_ _. True)"
  unfolding quietly_def by (intro safe_pbind) (auto elim!: safe_anyway intro!: safe_Done split: sum.splits)

lemma safe_Stat: "safe (e_token env) (e_keys env) k (Stat env ctx p) (\<lambda>_ _. True)"
  unfolding Stat_def by (auto intro!: safe_pcase safe_resolvePath safe_Done split: sum.splits)

lemma safe_cat_attempts: "safe (e_token env) (e_keys env) k (cat_attempts n env ctx p) (\<lambda>_ _. True)"
proof (induction n arbitrary: k)
  case (Suc n)
  have "safe (e_token env) (e_keys env) k' (pcase (loadContentExternal env x ref) (\<lambda>content.
      if ref = RefArray then
        pbind (query (\<lambda>ns. Inr (revision_of ns x))) (\<lambda>revision.
          if revision \<noteq> rev then cat_attempts n env ctx p else Done content)
      else Done content)) (\<lambda>_ _. True)" for k' x ref rev
    using Suc by (auto intro!: safe_pcase safe_loadContentExternal safe_pbind safe_query safe_Done)
  then show ?case
    by (auto intro!: safe_then safe_Done split: sum.splits)
qed (auto intro: safe_Done)

lemma safe_LsLong: "safe (e_token env) (e_keys env) k (LsLong env ctx p) (\<lambda>_ _. True)"
  unfolding LsLong_def listDirChildren_def
  by (intro safe_then(1)) (auto intro!: safe_pbind safe_query safe_Done split: sum.splits)

lemma safe_Ls: "safe (e_token env) (e_keys env) k (Ls env ctx p) (\<lambda>_ _. True)"
  unfolding Ls_def by (auto intro!: safe_pbind [OF safe_anyway [OF safe_LsLong]] safe_Done split: sum.splits)

lemma safe_Readlink: "safe (e_token env) (e_keys env) k (Readlink env ctx p) (\<lambda>_ _. True)"
  unfolding Readlink_def by (auto intro!: safe_then safe_Done split: sum.splits)

lemma safe_StatInode: "safe (e_token env) (e_keys env) k (StatInode env ctx x) (\<lambda>_ _. True)"
  unfolding StatInode_def by (auto intro!: safe_then safe_Done split: sum.splits)

lemma safe_read_inode_range: "(\<And>k' r. Q k' r) \<Longrightarrow> safe tok kb k (read_inode_range env d off cnt) Q"
  unfolding read_inode_range_def arrays_needed_def Let_def
  by (auto intro!: safe_pbind safe_loadContentExternal safe_query safe_Done split: sum.splits)

lemma safe_read_attempts: "safe (e_token env) (e_keys env) k (read_attempts n env ctx x off cnt) (\<lambda>_ _. True)"
proof (induction n arbitrary: k)
  case (Suc n)
  have again: "safe (e_token env) (e_keys env) k' (pbind (loadInodeByID x) (\<lambda>current.
      case current of
        None \<Rightarrow> fail ErrNotFound
      | Some e \<Rightarrow>
          if i_revision (d_inode e) \<noteq> rev then read_attempts n env ctx x off cnt
          else pbind (Done result) (\<lambda>bytes. pbind (check_generation env ctx) (\<lambda>_. return bytes)))) (\<lambda>_ _. True)"
    for k' rev result
    using Suc by (auto intro!: safe_then safe_checked safe_Done split: option.splits sum.splits)
  have "safe (e_token env) (e_keys env) k' (pcase (read_inode_range env d off cnt) (\<lambda>result.
      pbind (loadInodeByID x) (\<lambda>current.
        case current of
          None \<Rightarrow> fail ErrNotFound
        | Some e \<Rightarrow>
            if i_revision (d_inode e) \<noteq> rev then read_attempts n env ctx x off cnt
            else pbind (Done result) (\<lambda>bytes. pbind (check_generation env ctx) (\<lambda>_. return bytes))))) (\<lambda>_ _. True)"
    for k' d rev
    by (intro safe_pcase safe_read_inode_range again)
  then show ?case
    by (auto intro!: safe_then safe_Done split: option.splits sum.splits)
qed (auto intro: safe_Done)

lemma safe_MkdirMode:
  assumes env: "good_tokens (e_token env)"
  shows "safe (e_token env) (e_keys env) k (MkdirMode env ctx p mode) (\<lambda>_ _. True)"
proof -
  have "safe (e_token env) (e_keys env) k' (pbind (createDir env ctx q mode) (\<lambda>_. markRootDirty env ctx)) (\<lambda>_ _. True)" for k' q
    unfolding createDir_def createDirNoParents_def
    by (auto intro!: safe_pbind safe_ensureParents [OF env] safe_nowMs safe_createInodeAtPath [OF env] safe_markRootDirty safe_Done
        simp: new_inode_def split: sum.splits)
  then show ?thesis
    unfolding MkdirMode_def Let_def
    by (auto intro!: safe_ensureRoot safe_pbind [OF safe_ensureParents [OF env]] safe_then safe_Done split: sum.splits option.splits)
qed

lemma safe_Rm:
  assumes env: "good_tokens (e_token env)"
  shows "safe (e_token env) (e_keys env) k (Rm env ctx p) (\<lambda>_ _. True)"
  unfolding Rm_def Let_def
  by (auto intro!: safe_then safe_pbind [OF safe_deletePublishedInode [OF env]] safe_publishInvalidate exact_holds safe_Done
      split: sum.splits)

lemma safe_Ln:
  assumes env: "good_tokens (e_token env)"
  shows "safe (e_token env) (e_keys env) k (Ln env ctx target p) (\<lambda>_ _. True)"
proof -
  have create: "safe (e_token env) (e_keys env) k' (pbind (createInodeAtPath env ctx q
      ((new_inode ''symlink'' m n now)\<lparr>i_target := target\<rparr>) False) (\<lambda>_. markRootDirty env ctx)) (\<lambda>_ _. True)" for k' q m n now
    by (intro safe_pbind safe_createInodeAtPath [OF env])
      (auto intro!: safe_markRootDirty simp: new_inode_def split: sum.splits)
  show ?thesis
    unfolding Ln_def Let_def
    by (auto intro!: safe_pbind [OF safe_ensureParents [OF env]] safe_then create safe_Done split: sum.splits)
qed

lemma safe_program:
  assumes env: "good_tokens (e_token env)"
  shows "safe (e_token env) (e_keys env) k (program env ctx op) (\<lambda>_ _. True)"
proof (cases op)
  case (OpReadInodeAt x off cnt)
  then show ?thesis
    by (auto simp: ReadInodeAt_def intro!: safe_quietly safe_read_attempts safe_Done)
qed (simp_all add: Cat_def Echo_def EchoCreate_def EchoAppend_def Info_def InodePath_def safe_quietly safe_query
    safe_Stat safe_cat_attempts safe_Ls safe_LsLong safe_Readlink safe_StatInode safe_CreateFile safe_writeFile
    safe_writeFileWithMode safe_Touch safe_FS_Truncate safe_MkdirMode safe_Rm safe_Ln safe_Chmod safe_Chown
    safe_Utimens safe_SetAttrs env)


section \<open>Clients of one workspace\<close>

text \<open>All clients of a workspace build their keys from the same name and draw their identities from one source.\<close>

definition requests :: "(nat \<Rightarrow> string) \<Rightarrow> keyBuilder \<Rightarrow> unit prog set" where
  "requests tok kb = {program env ctx op | env ctx op. e_token env = tok \<and> e_keys env = kb}"

lemma start_world: "good_tokens tok \<Longrightarrow> world tok (start_conf now)"
  using start_conf_ok by (auto simp: world_def start_conf_def good_tokens_def is_token_def)

lemma requests_safe: "good_tokens tok \<Longrightarrow> p \<in> requests tok kb \<Longrightarrow> safe tok kb k p (\<lambda>_ _. True)"
  unfolding requests_def using safe_program by blast

text \<open>A request that nobody interrupts is a run of the pool.\<close>

lemma pool_runs:
  "i < length ps \<Longrightarrow> ps ! i = p \<Longrightarrow> (pool_step P)\<^sup>*\<^sup>* (ns, ps) (snd (run p ns), ps[i := Done (fst (run p ns))])"
proof (induction p arbitrary: ns ps)
  case (Done r)
  then show ?case
    using list_update_id [of ps i] by simp
next
  case (Step g)
  obtain q ns1 where g: "g ns = (q, ns1)"
    by fastforce
  have "pool_step P (ns, ps) (ns1, ps[i := q])"
    using pool_step.step [OF Step.prems] g by blast
  moreover have "(pool_step P)\<^sup>*\<^sup>* (ns1, ps[i := q]) (snd (run q ns1), (ps[i := q])[i := Done (fst (run q ns1))])"
    using Step.IH [of "ps[i := q]" ns ns1] Step.prems(1) g by simp
  ultimately show ?case
    using g by (simp add: run_Step converse_rtranclp_into_rtranclp)
qed



lemma sample_tokens: "good_tokens (e_token sample_env)"
proof -
  have "FormatInt (int k) \<noteq> [] \<and> CHR '':'' \<notin> set (FormatInt (int k))" for k
    using decimal_digits [of "CHR '':''" k] decimal.simps [of k] by (auto simp: FormatInt_def)
  then show ?thesis
    by (auto simp: good_tokens_def is_token_def sample_env_def inj_def)
qed

text \<open>Two clients of a new workspace: one makes the directory \<open>/a\<close>, the other then writes \<open>/a/f\<close>.\<close>

definition sample_mkdir :: "unit prog" where
  "sample_mkdir = program sample_env sample_ctx (OpMkdir ''/a'' 493)"

definition sample_write :: "unit prog" where
  "sample_write = program sample_env sample_ctx (OpEcho ''/a/f'' ''hi'')"

lemma sample_pool:
  "(pool_step (requests (e_token sample_env) (e_keys sample_env)))\<^sup>*\<^sup>* (ns, [])
     (snd (run sample_write (snd (run sample_mkdir ns))),
      [Done (fst (run sample_mkdir ns)), Done (fst (run sample_write (snd (run sample_mkdir ns))))])"
proof -
  let ?P = "requests (e_token sample_env) (e_keys sample_env)"
  let ?r1 = "run sample_mkdir ns"
  let ?r2 = "run sample_write (snd ?r1)"
  have P: "sample_mkdir \<in> ?P" "sample_write \<in> ?P"
    unfolding requests_def sample_mkdir_def sample_write_def by blast+
  have "(pool_step ?P)\<^sup>*\<^sup>* (ns, []) (ns, [sample_mkdir, sample_write])"
    using pool_step.start [OF P(1), of ns "[]"] pool_step.start [OF P(2), of ns "[sample_mkdir]"]
    by (simp add: converse_rtranclp_into_rtranclp)
  also have "(pool_step ?P)\<^sup>*\<^sup>* (ns, [sample_mkdir, sample_write]) (snd ?r1, [Done (fst ?r1), sample_write])"
    using pool_runs [of 0 "[sample_mkdir, sample_write]" sample_mkdir ?P ns] by simp
  also have "(pool_step ?P)\<^sup>*\<^sup>* (snd ?r1, [Done (fst ?r1), sample_write]) (snd ?r2, [Done (fst ?r1), Done (fst ?r2)])"
    using pool_runs [of 1 "[Done (fst ?r1), sample_write]" sample_write ?P "snd ?r1"] by simp
  finally show ?thesis .
qed



end
