(* ===== verification/Native_Tree.thy ===== *)
theory Native_Tree
  imports Native_Run
begin

text \<open>
  Path resolution in a tree that grows: a path that resolves still resolves to the same inode after
  entries were added, and a path with one more component resolves to what the directory has under
  that name.
\<close>

section \<open>The components of a rebuilt path\<close>

lemma split_on_sep: "split_on c (a @ c # b) = split_on c a @ split_on c b"
  by (induction a) (auto split: list.splits)

lemma clean_comps_snoc: "plain_comp c \<Longrightarrow> clean_comps rooted acc (cs @ [c]) = clean_comps rooted acc cs @ [c]"
  by (induction rooted acc cs rule: clean_comps.induct) (auto simp: plain_comp_def split: list.splits)

lemma path_Clean_rooted:
  assumes "HasPrefix s ''/''"
  shows "path_Clean s = abs_path (clean_comps True [] (split_on slash s))"
    "list_all plain_comp (clean_comps True [] (split_on slash s))"
proof -
  have "s \<noteq> []"
    using assms by (auto simp: HasPrefix_def)
  then show "path_Clean s = abs_path (clean_comps True [] (split_on slash s))"
    using assms by (simp add: path_Clean_def abs_path_def)
  show "list_all plain_comp (clean_comps True [] (split_on slash s))"
    using clean_comps_rooted_plain [of "[]" "split_on slash s"] by (auto simp: list_all_iff dest: split_on_parts)
qed

lemma normalizePath_rooted:
  assumes "HasPrefix s ''/''"
  shows "splitComponents (normalizePath s) = clean_comps True [] (split_on slash s)"
    "splitComponents (normalizePath (path_Clean s)) = clean_comps True [] (split_on slash s)"
proof -
  let ?cs = "clean_comps True [] (split_on slash s)"
  have plain: "\<forall>c\<in>set ?cs. plain_comp c"
    using path_Clean_rooted(2) [OF assms] by (simp add: list_all_iff)
  have "normalizePath s = abs_path ?cs"
    using assms path_Clean_rooted(1) [OF assms] by (auto simp: normalizePath_def abs_path_def HasPrefix_def)
  then show "splitComponents (normalizePath s) = ?cs"
    using splitComponents_abs_path [OF plain] by simp
  show "splitComponents (normalizePath (path_Clean s)) = ?cs"
    using splitComponents_abs_path [OF plain] normalizePath_canonical [OF plain] path_Clean_rooted(1) [OF assms] by simp
qed

lemma symlink_comps:
  shows "\<exists>s. \<forall>cs. plain_path cs \<longrightarrow> splitComponents (symlink_path (abs_path ps) t cs) = clean_comps True [] (split_on slash s @ cs)"
proof -
  define s where "s = (if HasPrefix t ''/'' then t else path_Join [abs_path ps, t])"
  have rooted: "HasPrefix s ''/''"
    by (auto simp: s_def path_Join_def path_Clean_def abs_path_def HasPrefix_def)
  have path: "symlink_path (abs_path ps) t cs =
      normalizePath (if join_with slash cs \<noteq> [] then path_Join [s, join_with slash cs] else s)" for cs
    unfolding symlink_path_def Let_def s_def by (rule refl)
  have "splitComponents (symlink_path (abs_path ps) t cs) = clean_comps True [] (split_on slash s @ cs)" if "plain_path cs" for cs
  proof (cases "cs = []")
    case True
    then show ?thesis
      using normalizePath_rooted(1) [OF rooted] by (simp add: path)
  next
    case False
    then have rem: "join_with slash cs \<noteq> []" "split_on slash (join_with slash cs) = cs"
      using that join_with_eq_Nil [of cs] split_join [of cs slash] by (auto simp: plain_comp_def)
    obtain r where s: "s = slash # r"
      using rooted by (cases s) (auto simp: HasPrefix_def)
    then have "symlink_path (abs_path ps) t cs = normalizePath (path_Clean (s @ slash # join_with slash cs))"
      using rem(1) by (simp add: path path_Join_def)
    then show ?thesis
      using normalizePath_rooted(2) [of "s @ slash # join_with slash cs"] rem(2) s split_on_sep [of slash s "join_with slash cs"]
      by (simp add: HasPrefix_def)
  qed
  then show ?thesis
    by blast
qed

lemma symlink_comps_snoc:
  assumes "plain_path cs" "plain_comp c"
  shows "splitComponents (symlink_path (abs_path ps) t (cs @ [c])) = splitComponents (symlink_path (abs_path ps) t cs) @ [c]"
proof -
  obtain s where "\<And>cs. plain_path cs \<Longrightarrow> splitComponents (symlink_path (abs_path ps) t cs) = clean_comps True [] (split_on slash s @ cs)"
    using symlink_comps by blast
  then show ?thesis
    using assms clean_comps_snoc [OF assms(2), of True "[]" "split_on slash s @ cs"] by simp
qed

section \<open>A growing tree\<close>

definition grown :: "ns \<Rightarrow> ns \<Rightarrow> bool" where
  "grown ns ns' \<longleftrightarrow>
     (\<forall>d n x. dirent ns d n = Some x \<longrightarrow> dirent ns' d n = Some x) \<and>
     (\<forall>x i. inode_at ns x = Some i \<longrightarrow> (\<exists>i'. inode_at ns' x = Some i' \<and> i_type i' = i_type i \<and> i_target i' = i_target i))"

lemma grown_refl [simp]: "grown ns ns"
  by (simp add: grown_def)



lemma grown_entry: "grown ns ns' \<Longrightarrow> dirent ns d n = Some x \<Longrightarrow> dirent ns' d n = Some x"
  by (simp add: grown_def)

lemma grown_inode:
  assumes "grown ns ns'" "inodeFromValues x (inode_at ns x) = Some d"
  shows "\<exists>d'. inodeFromValues x (inode_at ns' x) = Some d' \<and> d_id d' = d_id d \<and>
    i_type (d_inode d') = i_type (d_inode d) \<and> i_target (d_inode d') = i_target (d_inode d)"
proof -
  obtain i where i: "inode_at ns x = Some i" "i_type i \<noteq> []" "d = \<lparr>d_id = x, d_inode = metadata i, d_content = []\<rparr>"
    using assms(2) by (auto simp: inodeFromValues_def split: option.splits if_splits)
  then obtain i' where "inode_at ns' x = Some i'" "i_type i' = i_type i" "i_target i' = i_target i"
    using assms(1) unfolding grown_def by blast
  then show ?thesis
    using i by (simp add: inodeFromValues_def metadata_def)
qed

lemma resolve_grown:
  assumes "grown ns ns'" and "run (resolve_loop follow left curPath cur cs) ns = (Inr (q, d), ns)"
    and "d_id cur' = d_id cur" and "cs = [] \<Longrightarrow> loaded ns' (d_id cur') cur'"
  shows "\<exists>d'. run (resolve_loop follow left curPath cur' cs) ns' = (Inr (q, d'), ns') \<and> d_id d' = d_id d \<and> loaded ns' (d_id d) d'"
  using assms(2-)
proof (induction follow left curPath cur cs arbitrary: cur' rule: resolve_loop.induct)
  case (1 follow left curPath cur)
  then show ?case
    by simp
next
  case (2 follow left curPath cur c cs)
  note run = 2(3) [unfolded run_resolve_Cons]
  obtain y e where y: "dirent ns (d_id cur) c = Some y" "inodeFromValues y (inode_at ns y) = Some e"
    using run by (auto split: option.splits)
  obtain e' where e': "inodeFromValues y (inode_at ns' y) = Some e'" "d_id e' = d_id e"
    "i_type (d_inode e') = i_type (d_inode e)" "i_target (d_inode e') = i_target (d_inode e)"
    using grown_inode [OF assms(1) y(2)] by blast
  have y': "dirent ns' (d_id cur') c = Some y"
    using grown_entry [OF assms(1) y(1)] 2(4) by simp
  have load: "loaded ns' (d_id e') e'"
    using e'(1) loadedD(1) [of ns' y e'] by (auto simp: loaded_def)
  show ?case
  proof (cases "i_type (d_inode e) = ''symlink'' \<and> (follow \<or> cs \<noteq> [])")
    case True
    then obtain left' r where left: "left = Suc left'" "i_target (d_inode e) \<noteq> []" "loaded ns rootInodeID r"
      and goes_on: "run (resolve_loop follow left' ''/'' r
        (splitComponents (symlink_path curPath (i_target (d_inode e)) cs))) ns = (Inr (q, d), ns)"
      using run y by (auto simp: loaded_def split: option.splits nat.splits if_splits)
    obtain r' where r': "inodeFromValues rootInodeID (inode_at ns' rootInodeID) = Some r'" "d_id r' = d_id r"
      using grown_inode [OF assms(1)] left(3) unfolding loaded_def by blast
    have "loaded ns' (d_id r') r'"
      using r'(1) loadedD(1) [of ns' rootInodeID r'] by (auto simp: loaded_def)
    then show ?thesis
      using 2(1) [OF True left(1) left(2) goes_on r'(2)] True left y' e' r' by (simp add: run_resolve_Cons)
  next
    case False
    show ?thesis
    proof (cases "cs = []")
      case True
      then show ?thesis
        using run y y' e' load False by (auto simp: run_resolve_Cons split: if_splits)
    next
      case more: False
      then have goes_on: "run (resolve_loop follow left (joinPath curPath c) e cs) ns = (Inr (q, d), ns)"
        and dir: "\<not> i_type (d_inode e) \<noteq> ''dir''"
        using run y False by (auto split: if_splits)
      show ?thesis
        using 2(2) [OF False more dir goes_on e'(2) load] more False dir y' e' by (simp add: run_resolve_Cons)
    qed
  qed
qed


lemma grown_trans:
  assumes "grown a b" "grown b c"
  shows "grown a c"
proof -
  have "\<exists>i'. inode_at c x = Some i' \<and> i_type i' = i_type i \<and> i_target i' = i_target i" if x: "inode_at a x = Some i" for x i
  proof -
    obtain j where "inode_at b x = Some j" "i_type j = i_type i" "i_target j = i_target i"
      using assms(1) x unfolding grown_def by blast
    then show ?thesis
      using assms(2) unfolding grown_def by metis
  qed
  then show ?thesis
    using assms unfolding grown_def by blast
qed

text \<open>One more component.\<close>

lemma resolve_snoc:
  assumes "run (resolve_loop True left curPath cur cs) ns = (Inr (q, d), ns)"
    and "curPath = abs_path ps" "plain_path cs" "plain_comp c" "plain_path ps"
    and "i_type (d_inode d) = ''dir''" "dirent ns (d_id d) c = Some y" "inodeFromValues y (inode_at ns y) = Some e"
      "i_type (d_inode e) \<noteq> ''symlink''"
  shows "run (resolve_loop True left curPath cur (cs @ [c])) ns = (Inr (joinPath q c, e), ns)"
  using assms(1-3,5)
proof (induction True left curPath cur cs arbitrary: ps rule: resolve_loop.induct)
  case (1 left curPath cur)
  then show ?case
    using assms(6-9) by (simp add: run_resolve_Cons)
next
  case (2 left curPath cur b cs)
  note run = 2(3) [unfolded run_resolve_Cons]
  obtain z h where z: "dirent ns (d_id cur) b = Some z" "inodeFromValues z (inode_at ns z) = Some h"
    using run by (auto split: option.splits)
  show ?case
  proof (cases "i_type (d_inode h) = ''symlink''")
    case True
    then obtain left' r where left: "left = Suc left'" "i_target (d_inode h) \<noteq> []" "loaded ns rootInodeID r"
      and goes_on: "run (resolve_loop True left' ''/'' r
        (splitComponents (symlink_path curPath (i_target (d_inode h)) cs))) ns = (Inr (q, d), ns)"
      using run z by (auto simp: loaded_def split: option.splits nat.splits if_splits)
    have "run (resolve_loop True left' ''/'' r
        (splitComponents (symlink_path curPath (i_target (d_inode h)) cs) @ [c])) ns = (Inr (joinPath q c, e), ns)"
      using 2(1) [OF _ left(1) left(2) goes_on, of "[]"] True symlink_path_plain by (simp add: abs_path_def)
    then show ?thesis
      using True left z symlink_comps_snoc [of cs c ps] 2(4,5) assms(4) by (simp add: run_resolve_Cons loaded_def)
  next
    case False
    show ?thesis
    proof (cases "cs = []")
      case True
      then show ?thesis
        using run z False assms(6-9) by (auto simp: run_resolve_Cons)
    next
      case more: False
      then have goes_on: "run (resolve_loop True left (joinPath curPath b) h cs) ns = (Inr (q, d), ns)"
        and dir: "\<not> i_type (d_inode h) \<noteq> ''dir''"
        using run z False by (auto split: if_splits)
      have "plain_path (ps @ [b])" "joinPath curPath b = abs_path (ps @ [b])"
        using 2(4-6) joinPath_abs_path by auto
      then show ?thesis
        using 2(2) [OF _ more dir goes_on, of "ps @ [b]"] more False dir z 2(5) by (simp add: run_resolve_Cons)
    qed
  qed
qed


end
