(* ===== verification/Native_Effects.thy ===== *)
theory Native_Effects
  imports Native_Concurrent Native_Tree
begin

text \<open>
  The effect of the requests when their client works alone: what a write that reports success leaves
  in the database, and what a read then returns. That the namespace stays consistent is taken over
  from \<open>Native_Concurrent\<close>; here are the contents and the names.
\<close>

declare resolve_loop.simps(2) [simp del]

section \<open>Consistent namespaces\<close>

definition consistent :: "(nat \<Rightarrow> string) \<Rightarrow> ns \<Rightarrow> bool" where
  "consistent tok ns \<longleftrightarrow> (\<exists>c. c_ns c = ns \<and> world tok c)"

lemma consistentD:
  assumes "consistent tok ns"
  shows "ns_ok ns" "ns_tokens ns \<le> j \<Longrightarrow> inode_at ns x = Some i \<Longrightarrow> i_revision i \<noteq> tok j"
    "ns_next ns < m \<Longrightarrow> inode_at ns (FormatInt m) = None"
proof -
  obtain c where c: "c_ns c = ns" "conf_ok c" "\<forall>j\<ge>ns_tokens ns. tok j \<notin> c_revs c"
    using assms by (auto simp: consistent_def world_def)
  show "ns_ok ns"
    using conf_okD(1) [OF c(2)] c(1) by simp
  have "\<And>x v. nodes ns x = Some v \<Longrightarrow> numbered ns x \<and> nd_rev v \<in> c_revs c"
    using c(1,2) unfolding conf_ok_def by blast
  from this [of _ "node_of _"] have node: "numbered ns x \<and> i_revision i \<in> c_revs c" if "inode_at ns x = Some i" for x i
    using that by (auto simp: nodes_def)
  then show "ns_tokens ns \<le> j \<Longrightarrow> inode_at ns x = Some i \<Longrightarrow> i_revision i \<noteq> tok j"
    using c(3) by metis
  show "inode_at ns (FormatInt m) = None" if "ns_next ns < m"
  proof (rule ccontr)
    assume "inode_at ns (FormatInt m) \<noteq> None"
    then have "numbered ns (FormatInt m)"
      using node by blast
    then show False
      using that by (auto simp: numbered_def)
  qed
qed

lemma safe_run:
  assumes "safe tok kb k p Q" "world tok c" "fits tok kb c k"
  shows "\<exists>c'. c_ns c' = snd (run p (c_ns c)) \<and> world tok c'"
  using assms
proof (induction arbitrary: c rule: safe.induct)
  case (safe_Done Q k r)
  then show ?case by auto
next
  case (safe_Step k g Q)
  obtain p ns' where g: "g (c_ns c) = (p, ns')"
    by fastforce
  then show ?case
    using safe_Step.IH [OF safe_Step.prems] by (auto simp: run_Step)
qed

lemma fits_nothing [simp]: "fits tok kb c knows_nothing"
  by (simp add: fits_def knows_nothing_def)

lemma consistent_run:
  assumes "consistent tok ns" "safe tok kb knows_nothing p Q"
  shows "consistent tok (snd (run p ns))"
  using assms safe_run [OF assms(2)] unfolding consistent_def by (metis fits_nothing)

section \<open>Commands that leave the tree alone\<close>

definition calm :: "ns \<Rightarrow> ns \<Rightarrow> bool" where
  "calm ns ns' \<longleftrightarrow>
     inode_at ns' = inode_at ns \<and> dirent ns' = dirent ns \<and> content_at ns' = content_at ns \<and>
     ns_generation ns' = ns_generation ns \<and> ns_leases ns' = ns_leases ns"

lemma calm_refl [simp]: "calm ns ns"
  by (simp add: calm_def)

lemma calm_trans: "calm a b \<Longrightarrow> calm b c \<Longrightarrow> calm a c"
  by (simp add: calm_def)

lemma calm_sym: "calm a b \<Longrightarrow> calm b a"
  by (simp add: calm_def)

lemma calm_emit [simp]: "calm ns (emit payload ns)"
  by (simp add: calm_def emit_def views)

lemma calm_simps [simp]:
  "calm ns (ns\<lparr>ns_stages := s\<rparr>)" "calm ns (ns\<lparr>ns_tokens := n\<rparr>)" "calm ns (ns\<lparr>ns_dirty := b\<rparr>)" "calm ns (ns\<lparr>ns_next := m\<rparr>)"
  by (simp_all add: calm_def views)

lemma run_publishInvalidate: "\<exists>ns'. run (publishInvalidate env kind p) ns = (Inr (), ns') \<and> calm ns ns'"
  by (cases "e_disabled env \<or> p = []") (auto simp: publishInvalidate_def run_simps)

lemma calm_markRootDirty: "calm ns (snd (run (markRootDirty env ctx) ns))"
  by (auto simp: markRootDirty_def run_Step split: option.splits)

lemma gen_ok_cong: "ns_generation ns' = ns_generation ns \<Longrightarrow> ns_leases ns' = ns_leases ns \<Longrightarrow> gen_ok env ctx ns' = gen_ok env ctx ns"
  by (simp add: gen_ok_def checkGeneration_def ns_reader_def Let_def split: option.splits)

section \<open>Scripts\<close>

lemma run_retry:
  assumes "run (retry_tx n env ctx (eval_script script)) ns = (r, ns')"
  shows "case r of Inl e \<Rightarrow> ns' = ns | Inr code \<Rightarrow> script ns = Inr (code, ns')"
  using assms
  by (induction n) (auto simp: run_simps watched_def eval_script_def split: sum.splits if_splits prod.splits)

lemma run_mutation:
  assumes "run (runMutationScript env ctx script) ns = (r, ns')"
  shows "case r of Inl e \<Rightarrow> ns' = ns | Inr code \<Rightarrow> script ns = Inr (code, ns')"
  using assms run_retry [of 16 env ctx script ns r ns']
  by (auto simp: runMutationScript_def run_simps eval_script_def split: sum.splits if_splits prod.splits)

lemma run_prepared:
  assumes "run (runPreparedMutation env ctx script) ns = (r, ns')"
  shows "case r of Inl e \<Rightarrow> ns' = ns | Inr code \<Rightarrow> script ns = Inr (code, ns')"
proof -
  have "case r of Inl e \<Rightarrow> ns' = ns | Inr code \<Rightarrow> script ns = Inr (code, ns')"
    if "run (prepared_attempts n env ctx script) ns = (r, ns')" for n
    using that
  proof (induction n)
    case (Suc n)
    obtain r1 ns1 where first: "run (runMutationScript env ctx script) ns = (r1, ns1)"
      by fastforce
    show ?case
      using Suc run_mutation [OF first]
      by (auto simp: run_simps first prepareHistory_def split: sum.splits if_splits)
  qed auto
  then show ?thesis
    using assms by (simp add: runPreparedMutation_def)
qed

section \<open>Publishing a file\<close>

text \<open>The file \<open>x\<close> holds these bytes behind this content reference.\<close>

definition has_bytes :: "ns \<Rightarrow> string \<Rightarrow> string \<Rightarrow> string \<Rightarrow> bool" where
  "has_bytes ns x ref data \<longleftrightarrow>
     (\<exists>i. inode_at ns x = Some i \<and> i_type i = ''file'' \<and> i_size i = int (length data) \<and> i_ref i = ref) \<and>
     content_at ns x = (if data = [] then None else Some data)"

lemma calm_grown: "calm ns ns' \<Longrightarrow> grown ns ns'"
  unfolding calm_def grown_def by auto

lemma calm_has_bytes: "calm ns ns' \<Longrightarrow> has_bytes ns' x ref data = has_bytes ns x ref data"
  unfolding calm_def has_bytes_def by simp

lemma publish_commit_inodes:
  "inode_at (publish_commit a ns) =
     (let m = (inode_at ns)(pb_id a \<mapsto> (write_fields (pb_ranged a) (pb_chunks a) (pb_inode a) (stored_or_blank ns (pb_id a)))
                \<lparr>i_revision := pb_revision a, i_inline := []\<rparr>);
          d = i_parent (pb_inode a); ts = i_mtime (pb_inode a)
      in if pb_create a
         then m(d \<mapsto> (case m d of None \<Rightarrow> blank_inode | Some i \<Rightarrow> i)\<lparr>i_mtime := ts, i_ctime := ts\<rparr>) else m)"
  by (rule ext) (simp add: publish_commit_def Let_def touch_times_def put_inode_def inode_at_def put_dirent_def emit_def
      move_stage_def stored_or_blank_def split: option.splits)

lemma publish_commit_guards:
  "ns_generation (publish_commit a ns) = ns_generation ns" "ns_leases (publish_commit a ns) = ns_leases ns"
  by (simp_all add: publish_commit_def Let_def touch_times_def put_inode_def put_dirent_def emit_def move_stage_def)

lemma publish_script_commits:
  assumes "publishFileScript a cap ns = Inr (code, ns')" "code_error e code = None"
    and "revision_of ns (pb_id a) \<noteq> pb_revision a"
  shows "ns' = publish_commit a ns" "map_of (ns_stages ns) (pb_stage a) \<noteq> None" "type_of ns (i_parent (pb_inode a)) = ''dir''"
    "dirent ns (i_parent (pb_inode a)) (i_name (pb_inode a)) = (if pb_create a then None else Some (pb_id a))"
  using assms
  by (auto simp: publishFileScript_def Let_def script_guard_def code_error_def rbind_def split: if_splits option.splits sum.splits)

text \<open>Publication as the others see it: the tree has grown at most by the new name, and the file has its bytes.\<close>

lemma published:
  assumes "publishFileScript a cap ns = Inr (code, ns')" "code_error e code = None"
    and "revision_of ns (pb_id a) \<noteq> pb_revision a" "ns_ok ns"
    and new: "i_type (pb_inode a) = ''file''" "i_ref (pb_inode a) \<noteq> []" "map_of (ns_stages ns) (pb_stage a) = Some data"
      "i_size (pb_inode a) = int (length data)"
    and old: "if pb_create a then inode_at ns (pb_id a) = None
      else \<exists>i. inode_at ns (pb_id a) = Some i \<and> i_type i = ''file''"
  shows "grown ns ns'" "has_bytes ns' (pb_id a) (i_ref (pb_inode a)) data"
    "dirent ns' (i_parent (pb_inode a)) (i_name (pb_inode a)) = Some (pb_id a)"
    "ns_generation ns' = ns_generation ns" "ns_leases ns' = ns_leases ns"
proof -
  let ?x = "pb_id a" and ?d = "i_parent (pb_inode a)"
  note c = publish_script_commits [OF assms(1-3)]
  have parent: "\<exists>j. inode_at ns ?d = Some j \<and> i_type j = ''dir''"
    using c(3) by (auto simp: type_of_def split: option.splits)
  then have apart: "?d \<noteq> ?x"
    using old by (auto split: if_splits)
  have views: "dirent ns' = (if pb_create a then (dirent ns)(?d := (dirent ns ?d)(i_name (pb_inode a) \<mapsto> ?x)) else dirent ns)"
    "content_at ns' = content_at (move_stage (pb_stage a) (i_size (pb_inode a)) ?x ns)"
    using publish_commit_views [of ns a] parent unfolding c(1) nodes_def by auto
  have "dirent ns' d n = Some y" if "dirent ns d n = Some y" for d n y
    using that c(4) by (auto simp: views)
  moreover have "\<exists>i'. inode_at ns' y = Some i' \<and> i_type i' = i_type i \<and> i_target i' = i_target i" if "inode_at ns y = Some i" for y i
    using that old parent apart
    by (auto simp: c(1) publish_commit_inodes Let_def write_fields_def stored_or_blank_def new(1) split: if_splits)
  ultimately show "grown ns ns'"
    unfolding grown_def by blast
  show "has_bytes ns' ?x (i_ref (pb_inode a)) data"
    unfolding has_bytes_def views
    using new apart by (auto simp: c(1) publish_commit_inodes Let_def write_fields_def)
  show "dirent ns' ?d (i_name (pb_inode a)) = Some ?x"
    using c(4) by (simp add: views)
  show "ns_generation ns' = ns_generation ns" "ns_leases ns' = ns_leases ns"
    by (simp_all add: c(1) publish_commit_guards)
qed


lemma run_newOriginID [run_simps]:
  "run (newOriginID env) ns = (Inr (e_token env (ns_tokens ns)), ns\<lparr>ns_tokens := ns_tokens ns + 1\<rparr>)"
  by (simp add: newOriginID_def run_simps)

lemma publishStagedFile_effect:
  assumes run: "run (publishStagedFile env ctx p d stage creating None) ns = (Inr d', ns')"
    and ok: "consistent (e_token env) ns" "good_tokens (e_token env)"
    and new: "i_type (d_inode d) = ''file''" "i_ref (d_inode d) \<noteq> []" "map_of (ns_stages ns) stage = Some data"
      "i_size (d_inode d) = int (length data)"
    and old: "if creating then inode_at ns (d_id d) = None else \<exists>i. inode_at ns (d_id d) = Some i \<and> i_type i = ''file''"
  shows "grown ns ns' \<and> has_bytes ns' (d_id d) (i_ref (d_inode d)) data \<and>
    dirent ns' (i_parent (d_inode d)) (i_name (d_inode d)) = Some (d_id d) \<and>
    ns_generation ns' = ns_generation ns \<and> ns_leases ns' = ns_leases ns"
proof -
  let ?t = "e_token env (ns_tokens ns)" and ?ns = "ns\<lparr>ns_tokens := Suc (ns_tokens ns)\<rparr>"
  define a where "a = \<lparr>pb_id = d_id d, pb_inode = (d_inode d)\<lparr>i_path := p\<rparr>, pb_revision = ?t, pb_create = creating,
     pb_gen = managed_generation ctx, pb_lease = lease_of ctx, pb_stage = stage, pb_ranged = fc_ranged ctx,
     pb_chunks = None, pb_payload = e_payload env ''inode'' [p]\<rparr>"
  have token: "?t \<noteq> []"
    using ok(2) by (simp add: good_tokens_def is_token_def)
  have same: "inode_at ?ns = inode_at ns" "ns_ok ?ns"
    using same_tree_views [of ns ?ns] consistentD(1) [OF ok(1)] by (simp_all add: same_tree_def)
  have fresh: "revision_of ?ns (d_id d) \<noteq> ?t"
    using consistentD(2) [OF ok(1), of "ns_tokens ns" "d_id d"] token by (auto simp: revision_of_def same split: option.splits)
  obtain r ns1 where script: "run (runPreparedMutation env ctx (\<lambda>ns. publishFileScript a (e_capture env ns) ns)) ?ns = (r, ns1)"
    by fastforce
  have "\<exists>code. publishFileScript a (e_capture env ?ns) ?ns = Inr (code, ns') \<and>
      code_error (ErrOther ''staged file expired before publication'') code = None"
    using run run_prepared [OF script] script fresh
    by (auto simp: publishStagedFile_def run_simps Let_def a_def [symmetric] split: sum.splits if_splits option.splits)
  then obtain code where "publishFileScript a (e_capture env ?ns) ?ns = Inr (code, ns')"
    "code_error (ErrOther ''staged file expired before publication'') code = None"
    by blast
  from published [OF this, of data] fresh same new old have "grown ?ns ns'" "has_bytes ns' (d_id d) (i_ref (d_inode d)) data"
    "dirent ns' (i_parent (d_inode d)) (i_name (d_inode d)) = Some (d_id d)"
    "ns_generation ns' = ns_generation ?ns" "ns_leases ns' = ns_leases ?ns"
    by (simp_all add: a_def)
  then show ?thesis
    using grown_trans [OF calm_grown [of ns ?ns]] by simp
qed


section \<open>Writing whole files\<close>

definition known_ref :: "fs_env \<Rightarrow> string \<Rightarrow> bool" where
  "known_ref env ref \<longleftrightarrow> ref = RefExternal \<or> ref = RefArray \<and> e_arrays env = Inr True"

text \<open>The server answers whether it has arrays, and every content is stored in a way it can read.\<close>

definition backends :: "fs_env \<Rightarrow> ns \<Rightarrow> bool" where
  "backends env ns \<longleftrightarrow>
     (\<exists>b. e_arrays env = Inr b) \<and> (\<forall>x i. inode_at ns x = Some i \<longrightarrow> i_ref i = [] \<or> known_ref env (i_ref i))"

definition wrote :: "fs_env \<Rightarrow> ns \<Rightarrow> string \<Rightarrow> string \<Rightarrow> ns \<Rightarrow> bool" where
  "wrote env ns x data ns' \<longleftrightarrow>
     grown ns ns' \<and> (\<exists>ref. known_ref env ref \<and> has_bytes ns' x ref data) \<and>
     ns_generation ns' = ns_generation ns \<and> ns_leases ns' = ns_leases ns"

lemma wrote_calm:
  assumes "calm ns ns1" "wrote env ns1 x data ns2" "calm ns2 ns3"
  shows "wrote env ns x data ns3"
proof -
  have "grown ns ns3"
    using assms grown_trans [OF calm_grown [OF assms(1)] grown_trans [OF _ calm_grown [OF assms(3)]]] by (simp add: wrote_def)
  then show ?thesis
    using assms calm_has_bytes [OF assms(3)] unfolding wrote_def by (auto simp: calm_def)
qed

lemma consistent_same: "consistent tok ns \<Longrightarrow> same_tree ns ns' \<Longrightarrow> ns_tokens ns \<le> ns_tokens ns' \<Longrightarrow> consistent tok ns'"
  unfolding consistent_def using world_same by (metis conf.select_convs(1) conf.surjective conf.update_convs(1))

lemma run_stageFullFile:
  assumes "i_size (d_inode d) = int (length (d_content d))"
  shows "\<exists>s ns1. run (stageFullFile env d) ns = (Inr s, ns1) \<and> calm ns ns1 \<and> same_tree ns ns1 \<and>
    ns_tokens ns1 = ns_tokens ns + 1 \<and> map_of (ns_stages ns1) s = Some (d_content d)"
  using assms by (auto simp: stageFullFile_def run_simps Let_def calm_def same_tree_def views)

lemma run_selectContentRef:
  assumes "e_arrays env = Inr b" "i_ref (d_inode d) = [] \<or> known_ref env (i_ref (d_inode d))" "i_type (d_inode d) = ''file''"
  shows "\<exists>ref. known_ref env ref \<and> run (selectContentRef env d) ns = (Inr (d\<lparr>d_inode := (d_inode d)\<lparr>i_ref := ref\<rparr>\<rparr>), ns)"
proof -
  let ?pref = "if b then RefArray else RefExternal" and ?ref = "i_ref (d_inode d)"
  let ?new = "if ?ref = [] \<or> ?ref = RefExternal \<and> ?pref = RefArray then ?pref else ?ref"
  have "known_ref env ?new"
    using assms(1,2) by (auto simp: known_ref_def RefExternal_def RefArray_def)
  moreover have "run (selectContentRef env d) ns = (Inr (d\<lparr>d_inode := (d_inode d)\<lparr>i_ref := ?new\<rparr>\<rparr>), ns)"
    using assms(1,3) by (simp add: selectContentRef_def preferredContentRef_def run_simps Let_def)
  ultimately show ?thesis
    by blast
qed

lemma known_ref_simps: "known_ref env ref \<Longrightarrow> ref \<noteq> []"
  by (auto simp: known_ref_def RefExternal_def RefArray_def)

lemma stage_publish_effect:
  assumes "run (stageFullFile env d) ns = (Inr s, ns1)" "run (publishStagedFile env ctx p d s creating None) ns1 = (Inr d', ns2)"
    and ok: "consistent (e_token env) ns" "good_tokens (e_token env)"
    and d: "i_type (d_inode d) = ''file''" "known_ref env (i_ref (d_inode d))" "i_size (d_inode d) = int (length (d_content d))"
    and old: "if creating then inode_at ns (d_id d) = None else \<exists>i. inode_at ns (d_id d) = Some i \<and> i_type i = ''file''"
  shows "wrote env ns (d_id d) (d_content d) ns2 \<and> dirent ns2 (i_parent (d_inode d)) (i_name (d_inode d)) = Some (d_id d)"
proof -
  have 1: "calm ns ns1" "ns_tokens ns1 = ns_tokens ns + 1" "map_of (ns_stages ns1) s = Some (d_content d)" "same_tree ns ns1"
    using run_stageFullFile [OF d(3), of env ns] assms(1) by auto
  have same: "inode_at ns1 = inode_at ns"
    using 1(1) unfolding calm_def by blast
  have ok1: "consistent (e_token env) ns1"
    using consistent_same [OF ok(1) 1(4)] 1(2) by simp
  have "grown ns1 ns2 \<and> has_bytes ns2 (d_id d) (i_ref (d_inode d)) (d_content d) \<and>
      dirent ns2 (i_parent (d_inode d)) (i_name (d_inode d)) = Some (d_id d) \<and>
      ns_generation ns2 = ns_generation ns1 \<and> ns_leases ns2 = ns_leases ns1"
    using publishStagedFile_effect [OF assms(2) ok1 ok(2) d(1) _ 1(3) d(3)] known_ref_simps [OF d(2)] old same by simp
  then show ?thesis
    using wrote_calm [OF 1(1) _ calm_refl] d(2) unfolding wrote_def by blast
qed

lemma run_saveInode:
  assumes "run (saveInode env ctx p e) ns = (Inr d', ns')" "run (selectContentRef env e) ns = (Inr f, ns)"
    and "i_type (d_inode f) = ''file''" "run (stageFullFile env f) ns = (Inr s, ns1)"
  shows "\<exists>ns2. run (publishStagedFile env ctx p f s False None) ns1 = (Inr d', ns2) \<and> calm ns2 ns'"
  using assms
  by (auto simp: saveInode_def run_simps discardStage_def split: if_splits prod.splits sum.splits)

lemma run_overwrite:
  assumes "run (overwrite env ctx resolved d content) ns = (Inr u, ns')"
  shows "\<exists>d' ns1. run (saveInode env ctx resolved (d\<lparr>d_content := content, d_inode := (d_inode d)
    \<lparr>i_size := int (length content), i_mtime := e_clock env ns, i_atime := e_clock env ns\<rparr>\<rparr>)) ns = (Inr d', ns1) \<and> calm ns1 ns'"
proof -
  let ?e = "d\<lparr>d_content := content, d_inode := (d_inode d)
    \<lparr>i_size := int (length content), i_mtime := e_clock env ns, i_atime := e_clock env ns\<rparr>\<rparr>"
  obtain r ns1 where save: "run (saveInode env ctx resolved ?e) ns = (r, ns1)"
    by fastforce
  obtain d' where d': "r = Inr d'"
    using assms save by (cases r) (auto simp: overwrite_def nowMs_def run_simps)
  obtain ns2 where 2: "run (publishInvalidate env ''content'' resolved) ns1 = (Inr (), ns2)" "calm ns1 ns2"
    using run_publishInvalidate by blast
  have "run (markRootDirty env ctx) ns2 = (Inr u, ns')"
    using assms save d' 2 by (simp add: overwrite_def nowMs_def run_simps)
  then have "calm ns1 ns'"
    using calm_trans [OF 2(2) calm_markRootDirty] by (metis snd_conv)
  then show ?thesis
    using save d' by blast
qed

lemma overwrite_effect:
  assumes run: "run (overwrite env ctx resolved d content) ns = (Inr u, ns')"
    and ok: "consistent (e_token env) ns" "good_tokens (e_token env)" "backends env ns"
    and d: "loaded ns x d" "i_type (d_inode d) = ''file''"
  shows "wrote env ns x content ns'"
proof -
  obtain i where i: "inode_at ns x = Some i" "d_inode d = metadata i" "d_id d = x"
    using loadedD(1,2) [OF d(1)] by blast
  define e where "e = d\<lparr>d_content := content, d_inode := (d_inode d)
    \<lparr>i_size := int (length content), i_mtime := e_clock env ns, i_atime := e_clock env ns\<rparr>\<rparr>"
  obtain b where b: "e_arrays env = Inr b" "i_ref i = [] \<or> known_ref env (i_ref i)"
    using ok(3) i(1) unfolding backends_def by blast
  obtain ref where ref: "known_ref env ref" "run (selectContentRef env e) ns = (Inr (e\<lparr>d_inode := (d_inode e)\<lparr>i_ref := ref\<rparr>\<rparr>), ns)"
    using run_selectContentRef [OF b(1), of e ns] b(2) d(2) i(2) by (auto simp: e_def metadata_def)
  let ?e = "e\<lparr>d_inode := (d_inode e)\<lparr>i_ref := ref\<rparr>\<rparr>"
  have e: "i_type (d_inode ?e) = ''file''" "known_ref env (i_ref (d_inode ?e))" "d_content ?e = content" "d_id ?e = x"
    "i_size (d_inode ?e) = int (length (d_content ?e))"
    using d(2) i ref(1) by (simp_all add: e_def)
  obtain s ns1 where stage: "run (stageFullFile env ?e) ns = (Inr s, ns1)"
    using run_stageFullFile [OF e(5)] by blast
  obtain d' ns2 where publish: "run (publishStagedFile env ctx resolved ?e s False None) ns1 = (Inr d', ns2)"
    and ns': "calm ns2 ns'"
    using run_overwrite [OF run] run_saveInode [OF _ ref(2) e(1) stage] calm_trans unfolding e_def by blast
  show ?thesis
    using stage_publish_effect [OF stage publish ok(1,2) e(1,2,5)] i(1) d(2) i(2) e(3,4) wrote_calm [OF calm_refl _ ns']
    by (simp add: metadata_def)
qed


section \<open>Reading back\<close>

lemma resolvePath_normalized: "resolvePath env ctx (normalizePath p) follow = resolvePath env ctx p follow"
proof -
  have "normalizePath (normalizePath p) = normalizePath p"
    using normalizePath_abs_path [of p] normalizePath_canonical by metis
  then show ?thesis
    unfolding resolvePath_def by metis
qed

lemma TrimSpace_refs [simp]: "TrimSpace RefArray = RefArray" "TrimSpace RefExternal = RefExternal"
  by (simp_all add: TrimSpace_def RefArray_def RefExternal_def is_space_def)

lemma refs_differ [simp]: "RefArray \<noteq> RefExternal" "RefExternal \<noteq> RefArray"
  by (simp_all add: RefArray_def RefExternal_def)

lemma resolvePath_grown:
  assumes "ns_ok ns" "grown ns ns'" "ns_generation ns' = ns_generation ns" "ns_leases ns' = ns_leases ns"
    and run: "run (resolvePath env ctx p follow) ns = (Inr (q, d), ns1)"
  shows "\<exists>d'. run (resolvePath env ctx p follow) ns' = (Inr (q, d'), ns') \<and> d_id d' = d_id d \<and> loaded ns' (d_id d) d'"
proof -
  obtain r where r: "loaded ns rootInodeID r"
    using ns_ok_root [OF assms(1)] by blast
  obtain r' where r': "loaded ns' rootInodeID r'" "d_id r' = d_id r"
    using grown_inode [OF assms(2)] r unfolding loaded_def by blast
  have gen: "gen_ok env ctx ns' = gen_ok env ctx ns"
    using gen_ok_cong assms(3,4) by blast
  have "ns1 = ns"
    using run_resolvePath_reads [OF assms(1)] run by (metis snd_conv)
  then have "run (resolve_loop follow maxSymlinkDepth ''/'' r (splitComponents (normalizePath p))) ns = (Inr (q, d), ns)"
    and ok: "gen_ok env ctx ns = Inr ()"
    using run run_resolvePath [OF r] by (auto split: sum.splits)
  from resolve_grown [OF assms(2) this(1) r'(2)] r' loadedD(1) [OF r'(1)] show ?thesis
    by (auto simp: run_resolvePath [OF r'(1)] gen ok)
qed

lemma run_Cat:
  assumes "run (resolvePath env ctx p True) ns = (Inr (q, d), ns)" "loaded ns x d" "has_bytes ns x ref data" "known_ref env ref"
  shows "run (Cat env ctx p) ns = (Inr data, ns)"
proof -
  obtain i where i: "inode_at ns x = Some i" "i_type i = ''file''" "i_size i = int (length data)" "i_ref i = ref"
    using assms(3) unfolding has_bytes_def by blast
  have d: "d_id d = x" "i_type (d_inode d) = ''file''" "i_ref (d_inode d) = ref" "i_revision (d_inode d) = revision_of ns x"
    using loadedD(1,2,5) [OF assms(2)] i by (auto simp: metadata_def)
  have content: "map_of (ns_content ns) x = (if data = [] then None else Some data)"
    using assms(3) unfolding has_bytes_def content_at_def by simp
  have "run (loadContentExternal env x ref) ns = (Inr data, ns)"
    using assms(4) i(1,3) content
    by (auto simp: known_ref_def loadContentExternal_def isExternalContentRef_def run_simps content_bytes_def Let_def size_of_def)
  then show ?thesis
    using assms(1) d by (simp add: Cat_def numeral_eq_Suc run_simps)
qed

lemma wrote_then_cat:
  assumes "ns_ok ns" "run (resolvePath env ctx p True) ns = (Inr (q, d), ns1)" "wrote env ns (d_id d) data ns'"
  shows "run (Cat env ctx p) ns' = (Inr data, ns')"
proof -
  obtain ref where w: "grown ns ns'" "known_ref env ref" "has_bytes ns' (d_id d) ref data"
    "ns_generation ns' = ns_generation ns" "ns_leases ns' = ns_leases ns"
    using assms(3) unfolding wrote_def by blast
  show ?thesis
    using resolvePath_grown [OF assms(1) w(1,4,5) assms(2)] run_Cat w(2,3) by metis
qed


section \<open>Making directories\<close>

lemma create_commit_views:
  "inode_at (create_commit x after payload ns) =
     (let m = (inode_at ns)(x \<mapsto> (write_fields False None after (stored_or_blank ns x))\<lparr>i_revision := i_revision after\<rparr>);
          d = i_parent after; ts = i_ctime after
      in m(d \<mapsto> (case m d of None \<Rightarrow> blank_inode | Some i \<Rightarrow> i)\<lparr>i_mtime := ts, i_ctime := ts\<rparr>))"
  "dirent (create_commit x after payload ns) =
     (dirent ns)(i_parent after := (dirent ns (i_parent after))(i_name after \<mapsto> x))"
  "ns_generation (create_commit x after payload ns) = ns_generation ns"
  "ns_leases (create_commit x after payload ns) = ns_leases ns"
  by (auto simp: create_commit_def Let_def touch_times_def put_inode_def put_dirent_def inode_at_def dirent_def children_def
      emit_def stored_or_blank_def fun_eq_iff split: option.splits)

lemma run_create_tx:
  assumes "run (retry_tx n env ctx (create_tx env d p)) ns = (Inr d', ns')"
  shows "create_tx env d p ns = (return d', ns')"
  using assms
proof (induction n)
  case (Suc n)
  then show ?case
    by (auto simp: run_simps watched_def create_tx_def Let_def script_failure_def
        split: sum.splits if_splits prod.splits script_error.splits)
qed simp

lemma create_tx_commits:
  assumes "create_tx env d p ns = (return d', ns')"
  shows "d_id d' = d_id d \<and> i_type (d_inode d') = i_type (d_inode d) \<and> dirent ns (i_parent (d_inode d)) (i_name (d_inode d)) = None \<and>
    type_of ns (i_parent (d_inode d)) = ''dir'' \<and>
    ns' = create_commit (d_id d) ((d_inode d)\<lparr>i_revision := e_token env (ns_tokens ns), i_path := p\<rparr>)
      (e_payload env ''inode'' [p]) (ns\<lparr>ns_tokens := ns_tokens ns + 1\<rparr>)"
  using assms
  by (auto simp: create_tx_def Let_def createMetadataScript_def rbind_def dirent_def children_def type_of_def inode_at_def
      split: sum.splits if_splits prod.splits option.splits)

lemma create_commit_grows:
  assumes "inode_at ns x = None" "\<And>n. dirent ns x n = None" "type_of ns (i_parent after) = ''dir''"
    and "dirent ns (i_parent after) (i_name after) = None"
  shows "grown ns (create_commit x after payload ns) \<and>
    ns_generation (create_commit x after payload ns) = ns_generation ns \<and>
    ns_leases (create_commit x after payload ns) = ns_leases ns \<and>
    dirent (create_commit x after payload ns) (i_parent after) (i_name after) = Some x \<and>
    type_of (create_commit x after payload ns) x = i_type after \<and> (\<forall>n. dirent (create_commit x after payload ns) x n = None)"
proof -
  obtain j where j: "inode_at ns (i_parent after) = Some j"
    using assms(3) by (cases "inode_at ns (i_parent after)") (auto simp: type_of_def)
  have "i_parent after \<noteq> x"
    using assms(1) j by auto
  then show ?thesis
    using assms(1,2,4) j
    by (auto simp: grown_def create_commit_views Let_def type_of_def write_fields_def split: if_splits)
qed

text \<open>A new directory: its parent has the name, and it has no entries itself.\<close>

lemma made_directory:
  assumes "run (createInodeUnderParent env ctx p cur name i []) ns = (Inr child, ns')" "i_type i = ''dir''"
    and ok: "consistent (e_token env) ns"
  shows "grown ns ns' \<and> ns_generation ns' = ns_generation ns \<and> ns_leases ns' = ns_leases ns \<and>
    i_type (d_inode child) = ''dir'' \<and> dirent ns' (d_id cur) name = Some (d_id child) \<and> type_of ns' (d_id child) = ''dir'' \<and>
    (\<forall>n. dirent ns' (d_id child) n = None)"
proof -
  let ?x = "FormatInt (ns_next ns + 1)" and ?ns = "ns\<lparr>ns_next := ns_next ns + 1\<rparr>"
  let ?d = "\<lparr>d_id = ?x, d_inode = i\<lparr>i_parent := d_id cur, i_name := name\<rparr>, d_content = []\<rparr>"
  obtain r where r: "loaded ns rootInodeID r"
    using ns_ok_root [OF consistentD(1) [OF ok]] by blast
  have alloc: "run (allocInodeID env ctx) ns = (case gen_ok env ctx ns of Inl e \<Rightarrow> (Inl e, ns) | Inr _ \<Rightarrow> (Inr ?x, ?ns))"
    using run_ensureRoot [OF r] by (simp add: allocInodeID_def run_simps split: sum.splits)
  obtain ns2 where tx: "run (retry_tx 16 env ctx (create_tx env ?d p)) ?ns = (Inr child, ns2)" and calm: "calm ns2 ns'"
  proof -
    obtain q ns2 where 2: "run (retry_tx 16 env ctx (create_tx env ?d p)) ?ns = (q, ns2)"
      by fastforce
    obtain ns3 where 3: "run (publishInvalidate env ''dir'' (parentOf p)) ns2 = (Inr (), ns3)" "calm ns2 ns3"
      using run_publishInvalidate by blast
    obtain ns4 where 4: "run (publishInvalidate env ''inode'' p) ns3 = (Inr (), ns4)" "calm ns3 ns4"
      using run_publishInvalidate by blast
    have "q = Inr child \<and> ns' = ns4"
      using assms(1,2) 2 3(1) 4(1)
      by (auto simp: createInodeUnderParent_def run_simps alloc Let_def split: if_splits sum.splits option.splits)
    then show ?thesis
      using that 2 calm_trans [OF 3(2) 4(2)] by blast
  qed
  let ?after = "(d_inode ?d)\<lparr>i_revision := e_token env (ns_tokens ns), i_path := p\<rparr>"
  define m where "m = ?ns\<lparr>ns_tokens := ns_tokens ns + 1\<rparr>"
  have m: "calm ns m"
    unfolding m_def by (rule calm_trans [of _ ?ns]) simp_all
  have c: "d_id child = ?x" "i_type (d_inode child) = ''dir''" "dirent ns (d_id cur) name = None" "type_of ns (d_id cur) = ''dir''"
    "ns2 = create_commit ?x ?after (e_payload env ''inode'' [p]) m"
    using create_tx_commits [OF run_create_tx [OF tx]] assms(2)
    by (auto simp: m_def dirent_def children_def type_of_def inode_at_def)
  have new: "inode_at ns ?x = None" "dirent ns ?x n = None" for n
    using consistentD(3) [OF ok, of "ns_next ns + 1"] links_entryD [OF ns_okD(2) [OF consistentD(1) [OF ok]], of ?x n]
    by (cases "dirent ns ?x n"; auto simp: nodes_def)+
  have "grown m ns2 \<and> ns_generation ns2 = ns_generation m \<and> ns_leases ns2 = ns_leases m \<and>
      dirent ns2 (d_id cur) name = Some ?x \<and> type_of ns2 ?x = ''dir'' \<and> (\<forall>n. dirent ns2 ?x n = None)"
    using create_commit_grows [of m ?x ?after "e_payload env ''inode'' [p]", folded c(5)] c(3,4) new assms(2) m by (simp add: calm_def type_of_def)
  then have "grown ns ns2 \<and> ns_generation ns2 = ns_generation ns \<and> ns_leases ns2 = ns_leases ns \<and>
      dirent ns2 (d_id cur) name = Some ?x \<and> type_of ns2 ?x = ''dir'' \<and> (\<forall>n. dirent ns2 ?x n = None)"
    using grown_trans [OF calm_grown [OF m]] m by (simp add: calm_def)
  then show ?thesis
    using calm calm_grown [OF calm] grown_trans c(1,2) by (auto simp: calm_def type_of_def)
qed


end
