(* ===== verification/Native_Write.thy ===== *)
theory Native_Write
  imports Native_Effects
begin

text \<open>
  Writing a file and reading it back: \<open>ensureParents\<close> makes the directories that are missing,
  \<open>createFileIfMissing\<close> claims the name, \<open>overwrite\<close> replaces the bytes of a file that is there, and
  \<open>Cat\<close> then returns the bytes that were written.
\<close>

section \<open>A path of directories\<close>

fun dwalk :: "ns \<Rightarrow> string \<Rightarrow> string list \<Rightarrow> string option" where
  "dwalk ns x [] = Some x"
| "dwalk ns x (c # cs) =
     (case dirent ns x c of None \<Rightarrow> None | Some y \<Rightarrow> if type_of ns y = ''dir'' then dwalk ns y cs else None)"

lemma dwalk_calm: "calm ns ns' \<Longrightarrow> dwalk ns' x cs = dwalk ns x cs"
  by (induction cs arbitrary: x) (auto simp: calm_def type_of_def split: option.splits)

lemma grown_type: "grown ns ns' \<Longrightarrow> type_of ns x = t \<Longrightarrow> t \<noteq> [] \<Longrightarrow> type_of ns' x = t"
  unfolding grown_def type_of_def by (fastforce split: option.splits)

lemma resolve_dwalk:
  assumes "dwalk ns (d_id cur) cs = Some z" "loaded ns (d_id cur) cur"
  shows "\<exists>q d. run (resolve_loop follow left curPath cur cs) ns = (Inr (q, d), ns) \<and> d_id d = z \<and> loaded ns z d"
  using assms
proof (induction cs arbitrary: curPath cur)
  case (Cons c cs)
  obtain y where y: "dirent ns (d_id cur) c = Some y" "type_of ns y = ''dir''" "dwalk ns y cs = Some z"
    using Cons.prems(1) by (auto split: option.splits if_splits)
  obtain d where d: "loaded ns y d" "d_id d = y" "i_type (d_inode d) = ''dir''"
  proof -
    obtain i where "inode_at ns y = Some i" "i_type i = ''dir''"
      using y(2) by (auto simp: type_of_def split: option.splits)
    then show ?thesis
      using that by (auto simp: loaded_def inodeFromValues_def metadata_def)
  qed
  obtain q e where e: "run (resolve_loop follow left (joinPath curPath c) d cs) ns = (Inr (q, e), ns)" "d_id e = z" "loaded ns z e"
    using Cons.IH [of d "joinPath curPath c"] y(3) d(1,2) by blast
  have "inodeFromValues y (inode_at ns y) = Some d"
    using d(1) by (simp add: loaded_def)
  then have "run (resolve_loop follow left curPath cur (c # cs)) ns = (Inr (q, e), ns)"
    unfolding run_resolve_Cons using y(1) d(3) e(1) by (cases "cs = []") simp_all
  then show ?case
    using e(2,3) by blast
qed simp

lemma resolvePath_dwalk:
  assumes "ns_ok ns" "gen_ok env ctx ns = Inr ()" "dwalk ns rootInodeID (splitComponents (normalizePath p)) = Some z"
  shows "\<exists>q d. run (resolvePath env ctx p follow) ns = (Inr (q, d), ns) \<and> d_id d = z"
proof -
  obtain r where r: "loaded ns rootInodeID r"
    using ns_ok_root [OF assms(1)] by blast
  show ?thesis
    using resolve_dwalk [of ns r "splitComponents (normalizePath p)" z follow maxSymlinkDepth "''/''"] assms(2,3) r loadedD(1) [OF r]
    by (auto simp: run_resolvePath [OF r])
qed

section \<open>Missing parents\<close>

lemma ensure_loop_effect:
  assumes "run (ensure_loop env ctx curPath cur parts) ns = (Inr u, ns')"
    and "consistent (e_token env) ns" "good_tokens (e_token env)"
  shows "grown ns ns' \<and> ns_generation ns' = ns_generation ns \<and> ns_leases ns' = ns_leases ns \<and>
    (\<exists>z. dwalk ns' (d_id cur) parts = Some z \<and> (calm ns ns' \<or> (\<forall>n. dirent ns' z n = None)))"
  using assms(1,2)
proof (induction parts arbitrary: curPath cur ns)
  case Nil
  then show ?case by auto
next
  case (Cons part parts)
  show ?case
  proof (cases "dirent ns (d_id cur) part")
    case (Some y)
    then obtain d where d: "loaded ns y d" "i_type (d_inode d) = ''dir''" "d_id d = y" "type_of ns y = ''dir''"
      and goes_on: "run (ensure_loop env ctx (joinPath curPath part) d parts) ns = (Inr u, ns')"
      using Cons.prems(1) loadedD(1,4)
      by (auto simp: run_simps Let_def loaded_def split: option.splits if_splits)
    note rest = Cons.IH [OF goes_on Cons.prems(2)]
    then have "dirent ns' (d_id cur) part = Some y" "type_of ns' y = ''dir''"
      using grown_entry [OF _ Some, of ns'] grown_type [of ns ns' y, OF _ d(4)] by blast+
    then show ?thesis
      using rest d(3) by simp
  next
    case None
    define i where "i = new_inode ''dir'' 493 0 (e_clock env ns)"
    let ?create = "createInodeUnderParent env ctx (joinPath curPath part) cur part i []"
    have i: "i_type i = ''dir''"
      by (simp add: i_def new_inode_def)
    obtain child ns1 where made: "run ?create ns = (Inr child, ns1)"
      and goes_on: "run (ensure_loop env ctx (joinPath curPath part) child parts) ns1 = (Inr u, ns')"
      using Cons.prems(1) None by (auto simp: run_simps Let_def nowMs_def i_def split: sum.splits prod.splits)
    have ok1: "consistent (e_token env) ns1"
      using consistent_run [OF Cons.prems(2) safe_createInodeUnderParent [OF assms(3), where Q = "\<lambda>_ _. True"],
          of i ctx "joinPath curPath part" cur part "[]"] made i by simp
    note m = made_directory [OF made i Cons.prems(2)] and rest = Cons.IH [OF goes_on ok1]
    then obtain z where z: "dwalk ns' (d_id child) parts = Some z" "calm ns1 ns' \<or> (\<forall>n. dirent ns' z n = None)"
      by blast
    have "\<forall>n. dirent ns' z n = None"
    proof (cases "calm ns1 ns'")
      case True
      then have "dwalk ns1 (d_id child) parts = Some z"
        using z(1) dwalk_calm by metis
      then have "parts = []" "z = d_id child"
        using m by (cases parts; auto)+
      then show ?thesis
        using m True by (simp add: calm_def)
    qed (use z(2) in blast)
    moreover have "dirent ns' (d_id cur) part = Some (d_id child)" "type_of ns' (d_id child) = ''dir''"
      using m rest grown_entry [of ns1 ns'] grown_type [of ns1 ns' "d_id child" "''dir''"] by simp_all
    ultimately have "dwalk ns' (d_id cur) (part # parts) = Some z \<and> (\<forall>n. dirent ns' z n = None)"
      using z(1) by simp
    then show ?thesis
      using m rest grown_trans [of ns ns1 ns'] by metis
  qed
qed

lemma ensureParents_effect:
  assumes run: "run (ensureParents env ctx (abs_path (cs @ [c]))) ns = (Inr u, ns')"
    and ok: "consistent (e_token env) ns" "good_tokens (e_token env)" and plain: "plain_path cs" "plain_comp c"
  shows "grown ns ns' \<and> ns_generation ns' = ns_generation ns \<and> ns_leases ns' = ns_leases ns \<and>
    (calm ns ns' \<or> (\<exists>z. dwalk ns' rootInodeID cs = Some z \<and> (\<forall>n. dirent ns' z n = None)))"
proof -
  obtain r where r: "loaded ns rootInodeID r" "d_id r = rootInodeID"
    using ns_ok_root [OF consistentD(1) [OF ok(1)]] loadedD(1) by blast
  have parent: "parentOf (abs_path (cs @ [c])) = abs_path cs"
    using parentOf_abs_path plain by blast
  show ?thesis
  proof (cases "ctx_parents (fc_op ctx) = [] \<and> abs_path cs \<noteq> ''/''")
    case True
    then have "run (ensure_loop env ctx ''/'' r (splitComponents (abs_path cs))) ns = (Inr u, ns')"
      using run r(1) run_ensureRoot [OF r(1), of env ctx]
      by (auto simp: ensureParents_def parent run_simps loaded_def split: sum.splits)
    then show ?thesis
      using ensure_loop_effect [OF _ ok] r(2) splitComponents_abs_path [of cs] plain(1) by fastforce
  next
    case False
    have "ns' = ns"
      using run False run_ensureRoot [OF r(1), of env ctx] run_resolvePath_reads [OF consistentD(1) [OF ok(1)], of env ctx]
      by (auto simp: ensureParents_def parent run_simps split: sum.splits if_splits prod.splits) (metis snd_conv)+
    then show ?thesis
      by simp
  qed
qed

lemma ensureParents_gen:
  assumes "run (ensureParents env ctx p) ns = (Inr u, ns')" "ns_ok ns"
  shows "gen_ok env ctx ns = Inr ()"
proof -
  obtain r where "loaded ns rootInodeID r"
    using ns_ok_root [OF assms(2)] by blast
  then show ?thesis
    using assms(1) run_ensureRoot [of ns r env ctx] run_resolvePath [of ns r env ctx]
    by (auto simp: ensureParents_def run_simps split: sum.splits if_splits prod.splits)
qed

section \<open>New files\<close>

lemma publishFileScript_refuses:
  assumes "publishFileScript a cap ns = Inr (code, ns')" "code_error e code \<noteq> None"
  shows "ns' = ns"
  using assms
  by (auto simp: publishFileScript_def Let_def script_guard_def code_error_def rbind_def split: if_splits option.splits sum.splits)

lemma publishStagedFile_refuses:
  assumes "run (publishStagedFile env ctx p d stage creating chunks) ns = (Inl e, ns')"
  shows "calm ns ns'"
proof -
  let ?ns = "ns\<lparr>ns_tokens := Suc (ns_tokens ns)\<rparr>"
  define a where "a = \<lparr>pb_id = d_id d, pb_inode = (d_inode d)\<lparr>i_path := p\<rparr>, pb_revision = e_token env (ns_tokens ns),
     pb_create = creating, pb_gen = managed_generation ctx, pb_lease = lease_of ctx, pb_stage = stage,
     pb_ranged = fc_ranged ctx, pb_chunks = chunks, pb_payload = e_payload env ''inode'' [p]\<rparr>"
  obtain r ns1 where script: "run (runPreparedMutation env ctx (\<lambda>ns. publishFileScript a (e_capture env ns) ns)) ?ns = (r, ns1)"
    by fastforce
  have "ns' = ns \<or> ns' = ?ns"
    using assms run_prepared [OF script] script publishFileScript_refuses [of a "e_capture env ?ns" ?ns]
    by (auto simp: publishStagedFile_def run_simps Let_def a_def [symmetric] split: sum.splits if_splits option.splits)
  then show ?thesis
    by auto
qed


lemma claimed_outcome:
  assumes "run (claimed env ctx p parent False r) ns = (Inr (d, created), ns')"
  shows "calm ns ns'" "created \<longleftrightarrow> (\<exists>e. r = Inr e)" "created \<Longrightarrow> r = Inr d"
    "\<not> created \<Longrightarrow> dirent ns parent (baseName p) = Some (d_id d) \<and> loaded ns (d_id d) d \<and> i_type (d_inode d) = ''file''"
proof -
  have "calm ns ns' \<and> (created \<longleftrightarrow> (\<exists>e. r = Inr e)) \<and> (created \<longrightarrow> r = Inr d) \<and>
      (\<not> created \<longrightarrow> dirent ns parent (baseName p) = Some (d_id d) \<and> loaded ns (d_id d) d \<and> i_type (d_inode d) = ''file'')"
  proof (cases r)
    case (Inl e)
    then show ?thesis
      using assms loadedD(1)
      by (auto simp: claimed_def run_simps loaded_def split: if_splits option.splits)
  next
    case (Inr e)
    obtain ns1 where 1: "run (publishInvalidate env ''dir'' (parentOf p)) ns = (Inr (), ns1)" "calm ns ns1"
      using run_publishInvalidate by blast
    obtain ns2 where 2: "run (publishInvalidate env ''inode'' p) ns1 = (Inr (), ns2)" "calm ns1 ns2"
      using run_publishInvalidate by blast
    show ?thesis
      using assms 1 2 Inr calm_trans [OF 1(2) 2(2)] by (auto simp: claimed_def run_simps)
  qed
  then show "calm ns ns'" "created \<longleftrightarrow> (\<exists>e. r = Inr e)" "created \<Longrightarrow> r = Inr d"
    "\<not> created \<Longrightarrow> dirent ns parent (baseName p) = Some (d_id d) \<and> loaded ns (d_id d) d \<and> i_type (d_inode d) = ''file''"
    by blast+
qed

text \<open>The steps of a successful \<open>createFileIfMissing\<close>, from the parent to the publication.\<close>

lemma run_createFileIfMissing:
  assumes run: "run (createFileIfMissing env ctx p content mode False) ns = (Inr (d, created), ns')"
    and ok: "ns_ok ns" and p: "normalizePath p = p" and b: "e_arrays env = Inr b"
  shows "\<exists>q parent e s ns1 r ns2 ns3.
    run (resolvePath env ctx (parentOf p) True) ns = (Inr (q, parent), ns) \<and> i_type (d_inode parent) = ''dir'' \<and>
    d_id e = FormatInt (ns_next ns + 1) \<and> d_content e = content \<and> i_type (d_inode e) = ''file'' \<and>
    i_size (d_inode e) = int (length content) \<and> known_ref env (i_ref (d_inode e)) \<and>
    i_parent (d_inode e) = d_id parent \<and> i_name (d_inode e) = baseName p \<and>
    run (stageFullFile env e) (ns\<lparr>ns_next := ns_next ns + 1\<rparr>) = (Inr s, ns1) \<and>
    run (publishStagedFile env ctx p e s True None) ns1 = (r, ns2) \<and>
    run (claimed env ctx p (d_id parent) False r) ns2 = (Inr (d, created), ns3) \<and> calm ns3 ns'"
proof -
  let ?ns = "ns\<lparr>ns_next := ns_next ns + 1\<rparr>"
  obtain r where r: "loaded ns rootInodeID r"
    using ns_ok_root [OF ok] by blast
  have alloc: "run (allocInodeID env ctx) ns =
      (case gen_ok env ctx ns of Inl e \<Rightarrow> (Inl e, ns) | Inr _ \<Rightarrow> (Inr (FormatInt (ns_next ns + 1)), ?ns))"
    using run_ensureRoot [OF r] by (simp add: allocInodeID_def run_simps split: sum.splits)
  obtain rq nsq where resolve: "run (resolvePath env ctx (parentOf p) True) ns = (rq, nsq)"
    by fastforce
  have nsq: "nsq = ns"
    using run_resolvePath_reads [OF ok, of env ctx "parentOf p" True] resolve by simp
  obtain q parent where rq: "rq = Inr (q, parent)"
    using run resolve by (cases rq) (auto simp: createFileIfMissing_def Let_def p run_simps split: if_splits)
  define e where "e = \<lparr>d_id = FormatInt (ns_next ns + 1), d_inode = (new_inode ''file'' mode (int (length content)) (e_clock env ?ns))
    \<lparr>i_parent := d_id parent, i_name := baseName p\<rparr>, d_content = content\<rparr>"
  obtain ref where ref: "known_ref env ref" "run (selectContentRef env e) ?ns = (Inr (e\<lparr>d_inode := (d_inode e)\<lparr>i_ref := ref\<rparr>\<rparr>), ?ns)"
    using run_selectContentRef [OF b, of e ?ns] by (auto simp: e_def new_inode_def blank_inode_def)
  let ?e = "e\<lparr>d_inode := (d_inode e)\<lparr>i_ref := ref\<rparr>\<rparr>"
  have e: "i_type (d_inode ?e) = ''file''" "d_id ?e = FormatInt (ns_next ns + 1)" "i_size (d_inode ?e) = int (length (d_content ?e))"
    "d_content ?e = content" "i_parent (d_inode ?e) = d_id parent" "i_name (d_inode ?e) = baseName p"
    by (simp_all add: e_def new_inode_def)
  obtain s ns1 where stage: "run (stageFullFile env ?e) ?ns = (Inr s, ns1)"
    using run_stageFullFile [OF e(3)] by blast
  obtain pr ns2 where publish: "run (publishStagedFile env ctx p ?e s True None) ns1 = (pr, ns2)"
    by fastforce
  obtain cr ns3 where claim: "run (claimed env ctx p (d_id parent) False pr) ns2 = (cr, ns3)"
    by fastforce
  have "i_type (d_inode parent) = ''dir'' \<and> cr = Inr (d, created) \<and> calm ns3 ns'"
    using run resolve rq nsq alloc ref(2) stage publish claim
    by (auto simp: createFileIfMissing_def Let_def p run_simps nowMs_def discardStage_def e_def [symmetric]
        split: if_splits sum.splits)
  then show ?thesis
    using resolve rq nsq e ref(1) stage publish claim
    by (intro exI [of _ q] exI [of _ parent] exI [of _ ?e] exI [of _ s] exI [of _ ns1] exI [of _ pr] exI [of _ ns2] exI [of _ ns3]) auto
qed


lemma resolvePath_snoc:
  assumes "loaded ns rootInodeID r" "run (resolvePath env ctx (abs_path cs) True) ns = (Inr (q, parent), ns)"
    and "plain_path cs" "plain_comp c" "i_type (d_inode parent) = ''dir''" "dirent ns (d_id parent) c = Some y"
    and "loaded ns y e" "i_type (d_inode e) \<noteq> ''symlink''"
  shows "run (resolvePath env ctx (abs_path (cs @ [c])) True) ns = (Inr (joinPath q c, e), ns)"
proof -
  have comps: "splitComponents (normalizePath (abs_path ds)) = ds" if "plain_path ds" for ds
    using normalizePath_canonical [OF that] splitComponents_abs_path [OF that] by simp
  have plain: "plain_path (cs @ [c])"
    using assms(3,4) by simp
  have loop: "run (resolve_loop True maxSymlinkDepth ''/'' r cs) ns = (Inr (q, parent), ns)" and gen: "gen_ok env ctx ns = Inr ()"
    using assms(2) run_resolvePath [OF assms(1)] comps [OF assms(3)] by (auto split: sum.splits)
  have "run (resolve_loop True maxSymlinkDepth ''/'' r (cs @ [c])) ns = (Inr (joinPath q c, e), ns)"
    using resolve_snoc [OF loop, of "[]"] assms(3-8) by (simp add: abs_path_def loaded_def)
  then show ?thesis
    using run_resolvePath [OF assms(1)] comps [OF plain] gen by simp
qed

lemma consistent_alloc: "consistent tok ns \<Longrightarrow> consistent tok (ns\<lparr>ns_next := ns_next ns + 1\<rparr>)"
proof -
  assume "consistent tok ns"
  then obtain c where "c_ns c = ns" "world tok c"
    unfolding consistent_def by blast
  then show ?thesis
    using alloc_keeps [of c] unfolding consistent_def world_def
    by (intro exI [of _ "c\<lparr>c_ns := ns\<lparr>ns_next := ns_next ns + 1\<rparr>, c_fresh := insert (FormatInt (ns_next ns + 1)) (c_fresh c)\<rparr>"]) simp
qed

text \<open>A file that was published under a name of a directory is found there.\<close>

lemma named_then_cat:
  assumes ok: "ns_ok ns" and parent: "run (resolvePath env ctx (abs_path cs) True) ns = (Inr (q, parent), ns)" "i_type (d_inode parent) = ''dir''"
    and w': "wrote env ns x content ns'" "dirent ns' (d_id parent) c = Some x"
    and p: "p = abs_path (cs @ [c])" "plain_path cs" "plain_comp c"
  shows "run (Cat env ctx p) ns' = (Inr content, ns')"
proof -
  have grown: "grown ns ns'" "ns_generation ns' = ns_generation ns" "ns_leases ns' = ns_leases ns"
    using w'(1) by (simp_all add: wrote_def)
  obtain ref f where f: "known_ref env ref" "has_bytes ns' x ref content" "loaded ns' x f" "i_type (d_inode f) = ''file''"
    using w'(1) by (auto simp: wrote_def has_bytes_def loaded_def inodeFromValues_def metadata_def)
  obtain parent' where parent': "run (resolvePath env ctx (abs_path cs) True) ns' = (Inr (q, parent'), ns')" "d_id parent' = d_id parent"
    "loaded ns' (d_id parent) parent'"
    using resolvePath_grown [OF ok grown parent(1)] by blast
  have "type_of ns (d_id parent) = ''dir''"
    using resolvePath_found [OF ok parent(1)] loadedD(4) parent(2) by (auto simp: found_at_def)
  then have dir: "i_type (d_inode parent') = ''dir''"
    using grown_type [OF grown(1)] loadedD(4) [OF parent'(3)] by auto
  obtain root where root: "loaded ns' rootInodeID root"
    using ns_ok_root [OF ok] grown_inode [OF grown(1)] unfolding loaded_def by blast
  have "run (resolvePath env ctx p True) ns' = (Inr (joinPath q c, f), ns')"
    unfolding p(1) using resolvePath_snoc [OF root parent'(1) p(2,3) dir _ f(3)] parent'(2) w'(2) f(4) by simp
  then show ?thesis
    using run_Cat f(1-3) by blast
qed

lemma created_then_cat:
  assumes run: "run (createFileIfMissing env ctx p content mode False) ns = (Inr (d, True), ns1)" and calm: "calm ns1 ns'"
    and ok: "consistent (e_token env) ns" "good_tokens (e_token env)" "e_arrays env = Inr b"
    and p: "p = abs_path (cs @ [c])" "plain_path cs" "plain_comp c"
  shows "run (Cat env ctx p) ns' = (Inr content, ns')"
proof -
  have path: "normalizePath p = p" "parentOf p = abs_path cs" "baseName p = c"
    using normalizePath_canonical [of "cs @ [c]"] parentOf_abs_path [OF p(2,3)] baseName_abs_path [OF p(2,3)] p by auto
  from run_createFileIfMissing [OF run consistentD(1) [OF ok(1)] path(1) ok(3)] obtain q parent e s ns2 r ns3 ns4 where
    parent: "run (resolvePath env ctx (abs_path cs) True) ns = (Inr (q, parent), ns)" "i_type (d_inode parent) = ''dir''"
    and e: "d_id e = FormatInt (ns_next ns + 1)" "d_content e = content" "i_type (d_inode e) = ''file''"
      "i_size (d_inode e) = int (length content)" "known_ref env (i_ref (d_inode e))"
      "i_parent (d_inode e) = d_id parent" "i_name (d_inode e) = c"
    and stage: "run (stageFullFile env e) (ns\<lparr>ns_next := ns_next ns + 1\<rparr>) = (Inr s, ns2)"
    and publish: "run (publishStagedFile env ctx p e s True None) ns2 = (r, ns3)"
    and claim: "run (claimed env ctx p (d_id parent) False r) ns3 = (Inr (d, True), ns4)" "calm ns4 ns1"
    unfolding path by blast
  let ?ns = "ns\<lparr>ns_next := ns_next ns + 1\<rparr>"
  have r: "r = Inr d"
    using claimed_outcome(3) [OF claim(1)] by simp
  have c: "calm ns3 ns'"
    using claimed_outcome(1) [OF claim(1)] claim(2) calm calm_trans by blast
  have new: "inode_at ?ns (d_id e) = None"
    using consistentD(3) [OF ok(1), of "ns_next ns + 1"] by (simp add: e(1) inode_at_def)
  have w: "wrote env ?ns (d_id e) content ns3" "dirent ns3 (d_id parent) c = Some (d_id e)"
    using stage_publish_effect [OF stage publish [unfolded r] consistent_alloc [OF ok(1)] ok(2) e(3) e(5)] e new by simp_all
  have w': "wrote env ns (d_id e) content ns'" "dirent ns' (d_id parent) c = Some (d_id e)"
    using wrote_calm [OF calm_simps(4) w(1) c] w(2) c by (simp_all add: calm_def)
  show ?thesis
    using named_then_cat [OF consistentD(1) [OF ok(1)] parent w' p] .
qed


lemma not_created:
  assumes run: "run (createFileIfMissing env ctx p content mode False) ns = (Inr (d, False), ns')"
    and ok: "consistent (e_token env) ns" "e_arrays env = Inr b"
    and p: "p = abs_path (cs @ [c])" "plain_path cs" "plain_comp c"
  shows "\<exists>q parent. run (resolvePath env ctx (abs_path cs) True) ns = (Inr (q, parent), ns) \<and>
    dirent ns (d_id parent) c \<noteq> None \<and> (\<exists>q d. run (resolvePath env ctx p True) ns = (Inr (q, d), ns))"
proof -
  have path: "normalizePath p = p" "parentOf p = abs_path cs" "baseName p = c"
    using normalizePath_canonical [of "cs @ [c]"] parentOf_abs_path [OF p(2,3)] baseName_abs_path [OF p(2,3)] p by auto
  from run_createFileIfMissing [OF run consistentD(1) [OF ok(1)] path(1) ok(2)] obtain q parent e s ns1 r ns2 ns3 where
    parent: "run (resolvePath env ctx (abs_path cs) True) ns = (Inr (q, parent), ns)" "i_type (d_inode parent) = ''dir''"
    and e: "i_size (d_inode e) = int (length (d_content e))"
    and stage: "run (stageFullFile env e) (ns\<lparr>ns_next := ns_next ns + 1\<rparr>) = (Inr s, ns1)"
    and publish: "run (publishStagedFile env ctx p e s True None) ns1 = (r, ns2)"
    and claim: "run (claimed env ctx p (d_id parent) False r) ns2 = (Inr (d, False), ns3)"
    unfolding path by (metis (no_types, lifting))
  obtain err where r: "r = Inl err"
    using claimed_outcome(2) [OF claim] by (cases r) auto
  have "calm (ns\<lparr>ns_next := ns_next ns + 1\<rparr>) ns1"
    using run_stageFullFile [OF e] stage by (metis prod.inject)
  then have calm: "calm ns ns2"
    using publishStagedFile_refuses [OF publish [unfolded r]] calm_trans calm_simps(4) by blast
  have found: "dirent ns (d_id parent) c = Some (d_id d)" "loaded ns (d_id d) d" "i_type (d_inode d) = ''file''"
    using claimed_outcome(4) [OF claim] calm by (simp_all add: path calm_def loaded_def)
  obtain root where root: "loaded ns rootInodeID root"
    using ns_ok_root [OF consistentD(1) [OF ok(1)]] by blast
  show ?thesis
    using resolvePath_snoc [OF root parent(1) p(2,3) parent(2) found(1,2)] found(1,3) parent(1) p(1) by auto
qed

section \<open>Reading what was written\<close>

lemma Cat_normalized: "Cat env ctx (normalizePath p) = Cat env ctx p"
proof -
  have "cat_attempts n env ctx (normalizePath p) = cat_attempts n env ctx p" for n
  proof (induction n)
    case (Suc n)
    show ?case
      unfolding cat_attempts.simps resolvePath_normalized Suc by (rule refl)
  qed simp
  then show ?thesis
    by (simp add: Cat_def)
qed

lemma new_file_then_cat:
  assumes parents: "run (ensureParents env ctx p) ns = (Inr u, ns1)" and run: "run (createFile env ctx p data mode) ns1 = (Inr v, ns')"
    and absent: "run (resolvePath env ctx p True) ns = (Inl e, ns)"
    and ok: "consistent (e_token env) ns" "good_tokens (e_token env)" "e_arrays env = Inr b"
    and p: "p = abs_path (cs @ [c])" "plain_path cs" "plain_comp c"
  shows "run (Cat env ctx p) ns' = (Inr data, ns')"
proof -
  have ok1: "consistent (e_token env) ns1"
    using consistent_run [OF ok(1) safe_ensureParents [OF ok(2), where Q = "\<lambda>_ _. True"], of ctx p] parents by simp
  note ens = ensureParents_effect [OF parents [unfolded p(1)] ok(1,2) p(2,3)]
  obtain d created ns2 where made: "run (createFileIfMissing env ctx p data mode False) ns1 = (Inr (d, created), ns2)"
    using run by (auto simp: createFile_def run_simps split: sum.splits prod.splits)
  have created
  proof (rule ccontr)
    assume "\<not> created"
    then have "run (createFileIfMissing env ctx p data mode False) ns1 = (Inr (d, False), ns2)"
      using made by simp
    then obtain q parent q' d' where found: "run (resolvePath env ctx (abs_path cs) True) ns1 = (Inr (q, parent), ns1)"
      "dirent ns1 (d_id parent) c \<noteq> None" "run (resolvePath env ctx p True) ns1 = (Inr (q', d'), ns1)"
      using not_created [OF _ ok1 ok(3) p] by blast
    show False
    proof (cases "calm ns ns1")
      case True
      then show False
        using resolvePath_grown [OF consistentD(1) [OF ok1] calm_grown [OF calm_sym [OF True]] _ _ found(3)] absent
        by (auto simp: calm_def)
    next
      case False
      then obtain z where z: "dwalk ns1 rootInodeID cs = Some z" "\<forall>n. dirent ns1 z n = None"
        using ens by blast
      have "splitComponents (normalizePath (abs_path cs)) = cs"
        using normalizePath_canonical [OF p(2)] splitComponents_abs_path [OF p(2)] by simp
      then have "d_id parent = z"
        using resolvePath_dwalk [OF consistentD(1) [OF ok1], of env ctx "abs_path cs" z True] found(1) z(1)
          gen_ok_cong [of ns1 ns env ctx] ens ensureParents_gen [OF parents consistentD(1) [OF ok(1)]] by auto
      then show False
        using found(2) z(2) by simp
    qed
  qed
  then have "calm ns2 ns'"
    using run made calm_markRootDirty [of ns2 env ctx] by (simp add: createFile_def run_simps)
  then show ?thesis
    using created_then_cat [OF _ _ ok1 ok(2,3) p] made \<open>created\<close> by simp
qed


text \<open>C3. A client writes a file with \<open>Echo\<close> in any namespace that the clients of a workspace can have
  produced. If the write reports success, then \<open>Cat\<close> of the same path returns exactly the bytes that were
  written: whether the file was there or not, whatever symlinks the path goes through, with the
  missing parents made on the way, for empty contents and for both ways to store a content.\<close>

theorem echo_then_cat:
  assumes "consistent (e_token env) ns" "good_tokens (e_token env)" "backends env ns"
    and "run (Echo env ctx p data) ns = (Inr (), ns')"
  shows "run (Cat env ctx p) ns' = (Inr data, ns')"
proof -
  let ?p = "normalizePath p"
  obtain ds where ds: "plain_path ds" "?p = abs_path ds"
    using normalizePath_abs_path by blast
  have ok: "ns_ok ns"
    using consistentD(1) [OF assms(1)] .
  obtain r ns1 where resolve: "run (resolvePath env ctx ?p True) ns = (r, ns1)"
    by fastforce
  have ns1: "ns1 = ns"
    using run_resolvePath_reads [OF ok, of env ctx ?p True] resolve by simp
  have run: "run (case r of
      Inl e \<Rightarrow> if e = RedisNil then pbind (ensureParents env ctx ?p) (\<lambda>_. createFile env ctx ?p data 420) else fail e
    | Inr (resolved, d) \<Rightarrow>
        if i_type (d_inode d) \<noteq> ''file'' then fail ErrNotFile else overwrite env ctx resolved d data) ns = (Inr (), ns')"
    and root: "?p \<noteq> ''/''"
    using assms(4) resolve ns1
    by (auto simp: Echo_def writeFile_def Let_def run_simps split: if_splits sum.splits)
  obtain b where b: "e_arrays env = Inr b"
    using assms(3) unfolding backends_def by blast
  have "run (Cat env ctx ?p) ns' = (Inr data, ns')"
  proof (cases r)
    case (Inl e)
    obtain u ns2 where "run (ensureParents env ctx ?p) ns = (Inr u, ns2)" "run (createFile env ctx ?p data 420) ns2 = (Inr (), ns')"
      using run Inl by (auto simp: run_simps split: if_splits sum.splits prod.splits)
    moreover obtain cs c where "ds = cs @ [c]"
      using root ds(2) by (cases ds rule: rev_cases) (auto simp: abs_path_def)
    ultimately show ?thesis
      using new_file_then_cat [OF _ _ _ assms(1,2) b, of ctx ?p u ns2 data 420 "()" ns' e cs c] resolve ns1 Inl ds by auto
  next
    case (Inr qd)
    obtain q d where qd: "qd = (q, d)"
      by fastforce
    have d: "loaded ns (d_id d) d" "i_type (d_inode d) = ''file''" "run (overwrite env ctx q d data) ns = (Inr (), ns')"
      using run Inr qd resolvePath_found [OF ok, of env ctx ?p True] resolve by (auto simp: found_at_def split: if_splits)
    show ?thesis
      using wrote_then_cat [OF ok] overwrite_effect [OF d(3) assms(1-3) d(1,2)] resolve Inr qd by blast
  qed
  then show ?thesis
    by (simp add: Cat_normalized)
qed

section \<open>A write to a new workspace\<close>

definition new_ns :: ns where "new_ns = make_root 0 empty_ns"

definition new_root :: inodeData where
  "new_root = \<lparr>d_id = rootInodeID, d_inode = metadata (root_inode 0), d_content = []\<rparr>"

lemma new_ns_root: "inode_at new_ns rootInodeID = Some (root_inode 0)" "children new_ns x = []" "dirent new_ns x n = None"
  "ns_journal new_ns = NoJournal" "ns_files new_ns = 0" "ns_bytes new_ns = 0"
  by (simp_all add: new_ns_def make_root_def inode_at_def put_inode_def empty_ns_def children_def dirent_def write_fields_def
      root_inode_def stored_or_blank_def blank_inode_def)

lemma new_ns_loaded: "loaded new_ns rootInodeID new_root"
  by (simp add: loaded_def inodeFromValues_def new_ns_root new_root_def root_inode_def)

lemma new_root_simps: "d_id new_root = rootInodeID" "i_type (d_inode new_root) = ''dir''"
  by (simp_all add: new_root_def root_inode_def metadata_def)

lemma new_ns_resolve:
  "run (resolvePath env sample_ctx ''/f'' True) new_ns = (Inl RedisNil, new_ns)"
  "run (resolvePath env sample_ctx ''/'' True) new_ns = (Inr (''/'', new_root), new_ns)"
  by (simp_all add: run_resolvePath [OF new_ns_loaded] run_resolve_Cons new_ns_root splitComponents_def normalizePath_def
      path_Clean_def HasPrefix_def TrimPrefix_def new_root_simps del: resolve_loop.simps(2))

lemma sample_ctx_simps:
  "ctx_parents (fc_op sample_ctx) = []" "fc_expected sample_ctx = None" "managed_generation sample_ctx = []"
  "lease_of sample_ctx = []" "ctx_generation (fc_op sample_ctx) = None"
  by (simp_all add: sample_ctx_def managed_generation_def lease_of_def)

lemma sample_env_simps: "e_clock sample_env ns = 5" "e_disabled sample_env"
  by (simp_all add: sample_env_def)

lemma f_path: "parentOf ''/f'' = ''/''" "baseName ''/f'' = ''f''" "normalizePath ''/f'' = ''/f''"
  using parentOf_abs_path [of "[]" "''f''"] baseName_abs_path [of "[]" "''f''"] normalizePath_canonical [of "[''f'']"]
  by (simp_all add: abs_path_def plain_comp_def)

lemma new_ns_alloc: "run (allocInodeID env sample_ctx) new_ns = (Inr (FormatInt (ns_next new_ns + 1)), new_ns\<lparr>ns_next := ns_next new_ns + 1\<rparr>)"
  using run_ensureRoot [OF new_ns_loaded, of env sample_ctx] by (simp add: allocInodeID_def run_simps)

lemma new_ns_consistent: "consistent (e_token sample_env) new_ns"
  unfolding consistent_def using start_world [OF sample_tokens, of 0]
  by (intro exI [of _ "start_conf 0"]) (simp add: start_conf_def new_ns_def)

lemma new_ns_parents: "run (ensureParents env sample_ctx ''/f'') new_ns = (Inr (), new_ns)"
  using run_ensureRoot [OF new_ns_loaded, of env sample_ctx] by (simp add: ensureParents_def sample_ctx_simps f_path run_simps)

text \<open>Without a generation, a lease or history nothing outside refuses a publication.\<close>

lemma sample_publishes:
  assumes "ns_journal ns \<noteq> WrongType" "type_of ns (i_parent (d_inode d)) = ''dir''" "dirent ns (i_parent (d_inode d)) (i_name (d_inode d)) = None"
    and "map_of (ns_stages ns) stage \<noteq> None" "publication_counter (ns_files ns) 1"
    and "publication_counter (ns_bytes ns) (i_size (d_inode d) - size_of ns (d_id d))"
  shows "\<exists>d' ns'. run (publishStagedFile sample_env sample_ctx p d stage True None) ns = (Inr d', ns')"
proof -
  let ?ns = "ns\<lparr>ns_tokens := Suc (ns_tokens ns)\<rparr>"
  define a where "a = \<lparr>pb_id = d_id d, pb_inode = (d_inode d)\<lparr>i_path := p\<rparr>, pb_revision = e_token sample_env (ns_tokens ns),
     pb_create = True, pb_gen = [], pb_lease = [], pb_stage = stage,
     pb_ranged = fc_ranged sample_ctx, pb_chunks = None, pb_payload = e_payload sample_env ''inode'' [p]\<rparr>"
  have "inode_at ns (i_parent (d_inode d)) \<noteq> None"
    using assms(2) by (cases "inode_at ns (i_parent (d_inode d))") (auto simp: type_of_def)
  then have "publishFileScript a (e_capture sample_env ?ns) ?ns = Inr (1, publish_commit a ?ns)"
    using assms by (auto simp: publishFileScript_def a_def script_guard_def rbind_def sample_env_def Let_def
        inode_at_def dirent_def children_def type_of_def size_of_def revision_of_def)
  then show ?thesis
    by (simp add: publishStagedFile_def run_simps checkExpectedParent_def checkWriteCondition_def sample_ctx_simps Let_def
        runPreparedMutation_def numeral_eq_Suc runMutationScript_def eval_script_def code_error_def a_def [symmetric])
qed

lemma new_file_written: "\<exists>ns'. run (Echo sample_env sample_ctx ''/f'' ''hi'') new_ns = (Inr (), ns')"
proof -
  let ?m = "new_ns\<lparr>ns_next := ns_next new_ns + 1\<rparr>"
  define e where "e = \<lparr>d_id = FormatInt (ns_next new_ns + 1), d_inode = (new_inode ''file'' 420 2 5)
    \<lparr>i_parent := rootInodeID, i_name := ''f'', i_ref := RefExternal\<rparr>, d_content = ''hi''\<rparr>"
  have e: "i_size (d_inode e) = int (length (d_content e))" "i_parent (d_inode e) = rootInodeID" "i_name (d_inode e) = ''f''"
    by (simp_all add: e_def new_inode_def)
  define s where "s = kb_content (e_keys sample_env) (d_id e) @ '':stage:'' @ e_token sample_env (ns_tokens new_ns)"
  define ns1 where "ns1 = ?m\<lparr>ns_tokens := ns_tokens new_ns + 1, ns_stages := mset_key s ''hi'' (ns_stages new_ns)\<rparr>"
  have stage: "run (stageFullFile sample_env e) ?m = (Inr s, ns1)"
    by (simp add: stageFullFile_def run_simps Let_def e_def new_inode_def ns1_def s_def)
  have "inode_at ns1 = inode_at new_ns" "dirent ns1 = dirent new_ns" "ns_journal ns1 = NoJournal" "ns_files ns1 = 0" "ns_bytes ns1 = 0"
    "map_of (ns_stages ns1) s = Some ''hi''"
    by (simp_all add: ns1_def new_ns_root inode_at_def dirent_def children_def fun_eq_iff)
  moreover have "inode_at new_ns (d_id e) = None"
    using consistentD(3) [OF new_ns_consistent, of "ns_next new_ns + 1"] by (simp add: e_def)
  ultimately obtain d' ns2 where publish: "run (publishStagedFile sample_env sample_ctx ''/f'' e s True None) ns1 = (Inr d', ns2)"
    using sample_publishes [of ns1 e s "''/f''"] e
    by (auto simp: type_of_def size_of_def new_ns_root root_inode_def publication_counter_def e_def new_inode_def)
  have select: "run (selectContentRef sample_env \<lparr>d_id = FormatInt (ns_next new_ns + 1), d_inode = (new_inode ''file'' 420 2 5)
      \<lparr>i_parent := rootInodeID, i_name := ''f''\<rparr>, d_content = ''hi''\<rparr>) ?m = (Inr e, ?m)"
    by (simp add: selectContentRef_def preferredContentRef_def run_simps sample_env_def new_inode_def blank_inode_def e_def)
  have "run (createFileIfMissing sample_env sample_ctx ''/f'' ''hi'' 420 False) new_ns = (Inr (d', True), snd (run (discardStage s) ns2))"
    using stage publish select
    by (simp add: createFileIfMissing_def Let_def f_path new_ns_resolve new_root_simps new_ns_alloc run_simps sample_ctx_simps
        checkExpectedParent_def checkWriteCondition_def nowMs_def sample_env_simps claimed_def publishInvalidate_def)
  then have "fst (run (Echo sample_env sample_ctx ''/f'' ''hi'') new_ns) = Inr ()"
    by (simp add: Echo_def writeFile_def Let_def f_path new_ns_resolve new_ns_parents run_simps createFile_def markRootDirty_def
        sample_ctx_simps)
  then show ?thesis
    by (metis prod.collapse)
qed

theorem echo_then_cat_witness:
  "\<exists>ns'. run (Echo sample_env sample_ctx ''/f'' ''hi'') new_ns = (Inr (), ns') \<and>
     run (Cat sample_env sample_ctx ''/f'') ns' = (Inr ''hi'', ns')"
proof -
  have "backends sample_env new_ns"
    by (auto simp: backends_def sample_env_def new_ns_def make_root_def inode_at_def put_inode_def empty_ns_def write_fields_def
        root_inode_def stored_or_blank_def blank_inode_def)
  then show ?thesis
    using new_file_written echo_then_cat [OF new_ns_consistent sample_tokens] by blast
qed

end
