(* ===== verification/Native_Remove.thy ===== *)
theory Native_Remove
  imports Native_Effects
begin

text \<open>
  Removing a name: \<open>Rm\<close> deletes the inode with its content and its entry, refuses a directory that has
  entries, and leaves the tree as it was whenever it reports an error.
\<close>

declare resolve_loop.simps(2) [simp del]

section \<open>Resolution after a removal\<close>

text \<open>The tree without the inode \<open>x\<close>.\<close>

definition removed :: "ns \<Rightarrow> string \<Rightarrow> ns \<Rightarrow> bool" where
  "removed ns x ns' \<longleftrightarrow>
     (\<forall>d n. dirent ns' d n = (if dirent ns d n = Some x then None else dirent ns d n)) \<and>
     (\<forall>y i. y \<noteq> x \<longrightarrow> inode_at ns y = Some i \<longrightarrow>
        (\<exists>i'. inode_at ns' y = Some i' \<and> i_type i' = i_type i \<and> i_target i' = i_target i))"

lemma removed_inode:
  assumes "removed ns x ns'" "y \<noteq> x" "inodeFromValues y (inode_at ns y) = Some d"
  shows "\<exists>d'. inodeFromValues y (inode_at ns' y) = Some d' \<and> d_id d' = d_id d \<and>
    i_type (d_inode d') = i_type (d_inode d) \<and> i_target (d_inode d') = i_target (d_inode d)"
proof -
  obtain i where i: "inode_at ns y = Some i" "i_type i \<noteq> []" "d = \<lparr>d_id = y, d_inode = metadata i, d_content = []\<rparr>"
    using assms(3) by (auto simp: inodeFromValues_def split: option.splits if_splits)
  then obtain i' where "inode_at ns' y = Some i'" "i_type i' = i_type i" "i_target i' = i_target i"
    using assms(1,2) unfolding removed_def by blast
  then show ?thesis
    using i by (simp add: inodeFromValues_def metadata_def)
qed

lemma resolve_removed:
  assumes "removed ns x ns'" "x \<noteq> rootInodeID" "run (resolve_loop follow left curPath cur cs) ns = (Inr (q, d), ns)"
    and "d_id d = x" "d_id cur' = d_id cur" "d_id cur \<noteq> x"
  shows "run (resolve_loop follow left curPath cur' cs) ns' = (Inl RedisNil, ns')"
  using assms(3-)
proof (induction follow left curPath cur cs arbitrary: cur' rule: resolve_loop.induct)
  case (1 follow left curPath cur)
  then show ?case
    by simp
next
  case (2 follow left curPath cur c cs)
  note run = 2(3) [unfolded run_resolve_Cons]
  obtain y e where y: "dirent ns (d_id cur) c = Some y" "inodeFromValues y (inode_at ns y) = Some e"
    using run by (auto split: option.splits)
  show ?case
  proof (cases "y = x")
    case True
    then have "dirent ns' (d_id cur') c = None"
      using assms(1) y(1) 2(5) by (simp add: removed_def)
    then show ?thesis
      by (simp add: run_resolve_Cons)
  next
    case other: False
    then have y': "dirent ns' (d_id cur') c = Some y"
      using assms(1) y(1) 2(5) by (simp add: removed_def)
    obtain e' where e': "inodeFromValues y (inode_at ns' y) = Some e'" "d_id e' = d_id e"
      "i_type (d_inode e') = i_type (d_inode e)" "i_target (d_inode e') = i_target (d_inode e)"
      using removed_inode [OF assms(1) other y(2)] by blast
    have e: "d_id e = y"
      using loadedD(1) y(2) by (simp add: loaded_def)
    show ?thesis
    proof (cases "i_type (d_inode e) = ''symlink'' \<and> (follow \<or> cs \<noteq> [])")
      case True
      then obtain left' r where left: "left = Suc left'" "i_target (d_inode e) \<noteq> []" "loaded ns rootInodeID r"
        and goes_on: "run (resolve_loop follow left' ''/'' r
          (splitComponents (symlink_path curPath (i_target (d_inode e)) cs))) ns = (Inr (q, d), ns)"
        using run y by (auto simp: loaded_def split: option.splits nat.splits if_splits)
      obtain r' where r': "inodeFromValues rootInodeID (inode_at ns' rootInodeID) = Some r'" "d_id r' = d_id r"
        using removed_inode [OF assms(1) assms(2) [symmetric]] left(3) unfolding loaded_def by blast
      have "d_id r \<noteq> x"
        using loadedD(1) [OF left(3)] assms(2) by simp
      then show ?thesis
        using 2(1) [OF True left(1) left(2) goes_on 2(4) r'(2)] True left y' e' r' by (simp add: run_resolve_Cons)
    next
      case False
      then have "cs \<noteq> []"
        using run y e other 2(4) by (auto split: if_splits)
      moreover from this have goes_on: "run (resolve_loop follow left (joinPath curPath c) e cs) ns = (Inr (q, d), ns)"
        and dir: "\<not> i_type (d_inode e) \<noteq> ''dir''"
        using run y False by (auto split: if_splits)
      ultimately show ?thesis
        using 2(2) [OF False _ dir goes_on 2(4) e'(2)] False dir y' e' e other by (simp add: run_resolve_Cons)
    qed
  qed
qed

section \<open>The deletion\<close>

lemma delete_commit_views:
  assumes "inode_at ns (i_parent i) \<noteq> None" "i_parent i \<noteq> x"
  shows "inode_at (delete_commit x i now payload ns) =
      ((inode_at ns)(x := None))(i_parent i \<mapsto> (the (inode_at ns (i_parent i)))\<lparr>i_mtime := now, i_ctime := now\<rparr>)"
    "dirent (delete_commit x i now payload ns) =
      (\<lambda>d n. if d = x \<or> d = i_parent i \<and> n = i_name i then None else dirent ns d n)"
    "content_at (delete_commit x i now payload ns) = (content_at ns)(x := None)"
    "ns_generation (delete_commit x i now payload ns) = ns_generation ns"
    "ns_leases (delete_commit x i now payload ns) = ns_leases ns"
  using assms
  by (auto simp: delete_commit_def Let_def touch_times_def put_inode_def drop_inode_def del_dirent_def inode_at_def dirent_def
      children_def content_at_def emit_def count_kind_def fun_eq_iff split: option.splits)

lemma deleteInodeScript_outcome:
  assumes "deleteInodeScript x i gen lease now payload cap ns = Inr (code, ns')"
  shows "case code_error e code of
      Some _ \<Rightarrow> ns' = ns
    | None \<Rightarrow> (inode_at ns x = None \<and> ns' = ns) \<or>
        (ns' = delete_commit x i now payload ns \<and> dirent ns (i_parent i) (i_name i) = Some x \<and>
         \<not> (type_of ns x = ''dir'' \<and> list_ex (\<lambda>(n, c). inode_at ns c \<noteq> None) (children ns x)))"
  using assms
  by (auto simp: deleteInodeScript_def Let_def script_guard_def code_error_def rbind_def
      split: if_splits option.splits sum.splits)

text \<open>In a linked namespace a deletion that goes through takes an inode without entries out of the tree.\<close>

lemma deleted:
  assumes ok: "ns_ok ns" and x: "inode_at ns x = Some j" "x \<noteq> rootInodeID" "i_parent i = i_parent j" "i_name i = i_name j"
    and script: "deleteInodeScript x i gen lease now payload cap ns = Inr (code, ns')" "code_error e code = None"
  shows "removed ns x ns' \<and> inode_at ns' x = None \<and> (\<forall>n. dirent ns x n = None) \<and> content_at ns' = (content_at ns)(x := None) \<and>
    ns_generation ns' = ns_generation ns \<and> ns_leases ns' = ns_leases ns"
proof -
  note L = ns_okD(2) [OF ok]
  have commit: "ns' = delete_commit x i now payload ns"
    and empty: "\<not> (type_of ns x = ''dir'' \<and> list_ex (\<lambda>(n, c). inode_at ns c \<noteq> None) (children ns x))"
    using deleteInodeScript_outcome [OF script(1), of e] script(2) x(1) by auto
  have node: "nodes ns x = Some (node_of j)"
    using x(1) by (simp add: nodes_def)
  have none: "dirent ns x n = None" for n
  proof (rule ccontr)
    assume "dirent ns x n \<noteq> None"
    then obtain y where y: "dirent ns x n = Some y"
      by blast
    then have "type_of ns x = ''dir''" "inode_at ns y \<noteq> None"
      using links_entryD [OF L y] node x(1) by (auto simp: type_of_def nodes_def)
    then show False
      using empty y by (auto simp: dirent_def list_ex_iff dest!: map_of_SomeD)
  qed
  have entry: "dirent ns (i_parent j) (i_name j) = Some x" "inode_at ns (i_parent j) \<noteq> None"
    using links_nodeD [OF L node x(2)] by (auto simp: nodes_def)
  have parent: "inode_at ns (i_parent i) \<noteq> None" "i_parent i \<noteq> x"
    using entry none [of "i_name j"] x(3) by auto
  have only: "dirent ns d n = Some x \<longleftrightarrow> d = i_parent j \<and> n = i_name j" for d n
    using links_entryD [OF L, of d n x] entry(1) node by auto
  note v = delete_commit_views [OF parent, of now payload, folded commit]
  have "removed ns x ns'"
    unfolding removed_def using only none parent by (auto simp: v x(3,4))
  then show ?thesis
    using parent none by (simp add: v)
qed

lemma run_deletePublishedInode:
  "run (deletePublishedInode env ctx p d) ns =
     (case checkExpectedParent ctx p (i_parent (d_inode d)) of
        Inl e \<Rightarrow> (Inl e, ns)
      | Inr _ \<Rightarrow>
          (case checkWriteCondition ctx d False of
             Inl e \<Rightarrow> (Inl e, ns)
           | Inr _ \<Rightarrow>
               (let m = ns\<lparr>ns_tokens := Suc (ns_tokens ns)\<rparr>
                in case run (runPreparedMutation env ctx (\<lambda>ns.
                       deleteInodeScript (d_id d) (d_inode d) (managed_generation ctx) (lease_of ctx) (e_clock env m)
                         (e_payload env ''inode'' [p]) (e_capture env ns) ns)) m of
                     (Inl e, ns') \<Rightarrow> (Inl e, ns')
                   | (Inr code, ns') \<Rightarrow> (case code_error ErrDirNotEmpty code of Some e \<Rightarrow> Inl e | None \<Rightarrow> Inr (), ns'))))"
  by (auto simp: deletePublishedInode_def run_simps nowMs_def Let_def split: sum.splits option.splits prod.splits)

lemma delete_outcome:
  assumes run: "run (deletePublishedInode env ctx p d) ns = (r, ns')"
    and ok: "ns_ok ns" and d: "loaded ns x d" "x \<noteq> rootInodeID"
  shows "case r of
      Inl e \<Rightarrow> calm ns ns'
    | Inr _ \<Rightarrow> removed ns x ns' \<and> inode_at ns' x = None \<and> (\<forall>n. dirent ns x n = None) \<and>
        content_at ns' = (content_at ns)(x := None) \<and> ns_generation ns' = ns_generation ns \<and> ns_leases ns' = ns_leases ns"
proof -
  define m where "m = ns\<lparr>ns_tokens := Suc (ns_tokens ns)\<rparr>"
  have m: "calm ns m" "ns_ok m"
    using same_tree_views(5) [of ns m] ok by (simp_all add: m_def same_tree_def)
  have same: "inode_at m = inode_at ns" "dirent m = dirent ns" "content_at m = content_at ns"
    "ns_generation m = ns_generation ns" "ns_leases m = ns_leases ns"
    using m(1) by (simp_all add: calm_def)
  obtain j where j: "inode_at m x = Some j" "i_parent (d_inode d) = i_parent j" "i_name (d_inode d) = i_name j" "d_id d = x"
    using loadedD(1,2) [OF d(1)] by (auto simp: same metadata_def)
  let ?script = "\<lambda>ns'. deleteInodeScript (d_id d) (d_inode d) (managed_generation ctx) (lease_of ctx) (e_clock env m)
    (e_payload env ''inode'' [p]) (e_capture env ns') ns'"
  obtain q ns1 where script: "run (runPreparedMutation env ctx ?script) m = (q, ns1)"
    by fastforce
  have r: "(\<exists>e. r = Inl e) \<and> ns' = ns \<or> ns' = ns1 \<and>
      r = (case q of Inl e \<Rightarrow> Inl e | Inr code \<Rightarrow> (case code_error ErrDirNotEmpty code of Some e \<Rightarrow> Inl e | None \<Rightarrow> Inr ()))"
    using run [symmetric] script unfolding run_deletePublishedInode Let_def m_def [symmetric]
    by (cases "checkExpectedParent ctx p (i_parent (d_inode d))"; cases "checkWriteCondition ctx d False"; cases q) simp_all
  show ?thesis
  proof (cases q)
    case (Inl e)
    then show ?thesis
      using r run_prepared [OF script] m(1) by auto
  next
    case (Inr code)
    note out = run_prepared [OF script, unfolded Inr sum.case]
    show ?thesis
    proof (cases "code_error ErrDirNotEmpty code")
      case None
      have "removed m x ns1 \<and> inode_at ns1 x = None \<and> (\<forall>n. dirent m x n = None) \<and> content_at ns1 = (content_at m)(x := None) \<and>
          ns_generation ns1 = ns_generation m \<and> ns_leases ns1 = ns_leases m"
        using deleted [OF m(2) j(1) d(2) j(2,3) out [unfolded j(4)] None] .
      then show ?thesis
        using r None Inr by (auto simp: same removed_def)
    next
      case (Some e)
      then have "ns1 = m"
        using deleteInodeScript_outcome [OF out, of ErrDirNotEmpty] by simp
      then show ?thesis
        using r Some Inr m(1) by auto
    qed
  qed
qed

lemma resolve_entry:
  assumes "run (resolve_loop False left curPath cur cs) ns = (Inr (q, d), ns)" "cs \<noteq> []"
    and "curPath = abs_path ps" "plain_path cs" "plain_path ps"
  shows "\<exists>p n. dirent ns p n = Some (d_id d)"
  using assms
proof (induction False left curPath cur cs arbitrary: ps rule: resolve_loop.induct)
  case (2 left curPath cur b cs)
  note run = 2(3) [unfolded run_resolve_Cons]
  obtain z h where z: "dirent ns (d_id cur) b = Some z" "inodeFromValues z (inode_at ns z) = Some h"
    using run by (auto split: option.splits)
  show ?case
  proof (cases "i_type (d_inode h) = ''symlink'' \<and> (False \<or> cs \<noteq> [])")
    case True
    then obtain left' r where left: "left = Suc left'" "i_target (d_inode h) \<noteq> []"
      and goes_on: "run (resolve_loop False left' ''/'' r
        (splitComponents (symlink_path curPath (i_target (d_inode h)) cs))) ns = (Inr (q, d), ns)"
      using run z by (auto split: option.splits nat.splits if_splits)
    obtain as a where "cs = as @ [a]"
      using True by (cases cs rule: rev_cases) auto
    then have "splitComponents (symlink_path curPath (i_target (d_inode h)) cs) \<noteq> []"
      using symlink_comps_snoc [of as a ps] 2(5,6) by simp
    then show ?thesis
      using 2(1) [OF True left(1) left(2) goes_on _, of "[]"] symlink_path_plain by (simp add: abs_path_def)
  next
    case False
    show ?thesis
    proof (cases "cs = []")
      case True
      then show ?thesis
        using run z loadedD(1) [of ns z h] by (auto simp: loaded_def)
    next
      case more: False
      then have goes_on: "run (resolve_loop False left (joinPath curPath b) h cs) ns = (Inr (q, d), ns)"
        and dir: "\<not> i_type (d_inode h) \<noteq> ''dir''"
        using run z False by (auto split: if_splits)
      have "plain_path (ps @ [b])" "joinPath curPath b = abs_path (ps @ [b])"
        using 2(5-7) joinPath_abs_path by auto
      then show ?thesis
        using 2(2) [OF False more dir goes_on more, of "ps @ [b]"] 2(6) by simp
    qed
  qed
qed simp


section \<open>Rm\<close>

lemma resolvePath_removed:
  assumes ok: "ns_ok ns" and run: "run (resolvePath env ctx p False) ns = (Inr (q, d), ns)" and d: "d_id d = x" "x \<noteq> rootInodeID"
    and ns': "removed ns x ns'" "ns_generation ns' = ns_generation ns" "ns_leases ns' = ns_leases ns"
  shows "run (resolvePath env ctx p False) ns' = (Inl RedisNil, ns')"
proof -
  obtain r where r: "loaded ns rootInodeID r" "d_id r = rootInodeID"
    using ns_ok_root [OF ok] loadedD(1) by blast
  obtain r' where r': "loaded ns' rootInodeID r'" "d_id r' = d_id r"
    using removed_inode [OF ns'(1) d(2) [symmetric]] r(1) unfolding loaded_def by blast
  have loop: "run (resolve_loop False maxSymlinkDepth ''/'' r (splitComponents (normalizePath p))) ns = (Inr (q, d), ns)"
    and gen: "gen_ok env ctx ns' = Inr ()"
    using run run_resolvePath [OF r(1)] gen_ok_cong [OF ns'(2,3), of env ctx] by (auto split: sum.splits)
  show ?thesis
    using resolve_removed [OF ns'(1) d(2) loop d(1) r'(2)] r(2) d(2) by (simp add: run_resolvePath [OF r'(1)] gen)
qed

lemma resolvePath_not_root:
  assumes ok: "ns_ok ns" and run: "run (resolvePath env ctx p False) ns = (Inr (q, d), ns)" and p: "normalizePath p \<noteq> ''/''"
  shows "d_id d \<noteq> rootInodeID"
proof -
  obtain r where r: "loaded ns rootInodeID r"
    using ns_ok_root [OF ok] by blast
  obtain cs where cs: "plain_path cs" "normalizePath p = abs_path cs"
    using normalizePath_abs_path by blast
  have "cs \<noteq> []" "splitComponents (normalizePath p) = cs"
    using p cs splitComponents_abs_path [OF cs(1)] by (auto simp: abs_path_def)
  moreover have "run (resolve_loop False maxSymlinkDepth ''/'' r (splitComponents (normalizePath p))) ns = (Inr (q, d), ns)"
    using run run_resolvePath [OF r] by (auto split: sum.splits)
  ultimately show ?thesis
    using resolve_entry [of maxSymlinkDepth "''/''" r cs ns q d "[]"] cs(1) links_entryD [OF ns_okD(2) [OF ok]]
    by (fastforce simp: abs_path_def)
qed


lemma sample_views:
  "inode_at (sample_ns\<lparr>ns_tokens := n\<rparr>) ''2'' = Some sample_dir" "dirent (sample_ns\<lparr>ns_tokens := n\<rparr>) rootInodeID ''a'' = Some ''2''"
  "children (sample_ns\<lparr>ns_tokens := n\<rparr>) ''2'' = []" "ns_journal sample_ns = NoJournal" "ns_dirs sample_ns = 2" "ns_bytes sample_ns = 0"
  "i_parent sample_dir = rootInodeID" "i_name sample_dir = ''a''" "i_type sample_dir = ''dir''" "i_size sample_dir = 0"
  by (simp_all add: sample_ns_def create_commit_def sample_dir_def root_inode_def touch_times_def Let_def emit_def write_fields_def
      stored_or_blank_def blank_inode_def inode_at_def make_root_def empty_ns_def dirent_def children_def put_dirent_def
      put_inode_def rootInodeID_def)

definition sample_found :: inodeData where
  "sample_found = \<lparr>d_id = ''2'', d_inode = metadata sample_dir, d_content = []\<rparr>"

lemma sample_resolved:
  "run (resolvePath sample_env sample_ctx ''/a'' False) sample_ns = (Inr (''/a'', sample_found), sample_ns)" "normalizePath ''/a'' = ''/a''"
proof -
  obtain r where r: "loaded sample_ns rootInodeID r"
    using ns_ok_root [OF sample_ok] by blast
  have "splitComponents (normalizePath ''/a'') = [''a'']" and path: "normalizePath ''/a'' = ''/a''"
    by (simp_all add: normalizePath_def path_Clean_def HasPrefix_def splitComponents_def TrimPrefix_def)
  then show "run (resolvePath sample_env sample_ctx ''/a'' False) sample_ns = (Inr (''/a'', sample_found), sample_ns)"
    using loadedD(1) [OF r] sample_views(1,2) [of "ns_tokens sample_ns"]
    by (simp add: run_resolvePath [OF r] run_resolve_Cons joinPath_def inodeFromValues_def sample_views(9) sample_found_def)
qed (simp add: normalizePath_def path_Clean_def HasPrefix_def)

lemma sample_removed: "fst (run (Rm sample_env sample_ctx ''/a'') sample_ns) = Inr ()"
proof -
  let ?m = "sample_ns\<lparr>ns_tokens := Suc (ns_tokens sample_ns)\<rparr>"
  have "deleteInodeScript ''2'' (metadata sample_dir) [] [] 5 [] (Inr False) ?m = Inr (1, delete_commit ''2'' (metadata sample_dir) 5 [] ?m)"
    by (simp add: deleteInodeScript_def script_guard_def rbind_def metadata_def sample_views revision_of_def type_of_def size_of_def
        publication_counter_def kind_counter_def Let_def)
  then have "run (deletePublishedInode sample_env sample_ctx ''/a'' sample_found) sample_ns = (Inr (), delete_commit ''2'' (metadata sample_dir) 5 [] ?m)"
    by (simp add: run_deletePublishedInode sample_found_def Let_def checkExpectedParent_def checkWriteCondition_def sample_ctx_def sample_env_def
        managed_generation_def lease_of_def runPreparedMutation_def numeral_eq_Suc runMutationScript_def run_simps eval_script_def
        code_error_def)
  then show ?thesis
    using sample_resolved by (simp add: Rm_def Let_def run_simps publishInvalidate_def sample_env_def)
qed


end
