(* ===== verification/Native_Chunks.thy ===== *)
theory Native_Chunks
  imports Native_Range
begin

text \<open>
  Chunked transfer (\<open>src/mount/internal/client/publication.go\<close>: \<open>publishChunks\<close>; \<open>native_core.go\<close>:
  \<open>WriteChunks\<close>, \<open>ReadChunks\<close>, \<open>ChunkMeta\<close>): folder sync sends the chunks of a file that changed; the
  client copies the published content to a stage inside Redis, writes the chunks over it and
  publishes the stage with the hashes of all chunks.
\<close>

section \<open>Hash lists\<close>

definition encodeChunkHashes :: "string list \<Rightarrow> string" where
  "encodeChunkHashes hashes = (if hashes = [] then [] else join_with CHR '','' hashes)"

definition decodeChunkHashes :: "string \<Rightarrow> string list" where
  "decodeChunkHashes s = (if s = [] then [] else split_on CHR '','' s)"

section \<open>Publishing chunks\<close>

text \<open>The new-file check: every chunk up to the size is there and complete.\<close>

definition chunks_complete :: "(int \<times> string) list \<Rightarrow> int \<Rightarrow> int \<Rightarrow> bool" where
  "chunks_complete chunks chunkSize newSize \<longleftrightarrow>
     newSize \<le> 0 \<or>
     list_all (\<lambda>k.
       let off = int k * chunkSize; want = min chunkSize (newSize - off)
       in case map_of chunks (int k) of None \<Rightarrow> False | Some b \<Rightarrow> int (length b) = want)
       [0..<nat ((newSize + chunkSize - 1) div chunkSize)]"

text \<open>
  The range writes, in the order of the indices; a negative index stops them. Neither \<open>WriteRange\<close> nor
  \<open>SETRANGE\<close> touches the key for an empty chunk.
\<close>

fun write_chunks :: "fs_env \<Rightarrow> string \<Rightarrow> string \<Rightarrow> int \<Rightarrow> (int \<times> string) list \<Rightarrow> unit prog" where
  "write_chunks env ref stage chunkSize [] = return ()"
| "write_chunks env ref stage chunkSize ((idx, b) # rest) =
     (if idx < 0 then fail (ErrOther ''negative chunk index'')
      else if b = [] then write_chunks env ref stage chunkSize rest
      else
        pbind (arrays_needed env ref) (\<lambda>_.
        pbind (stage_update stage (set_range (nat (idx * chunkSize)) b)) (\<lambda>_.
          write_chunks env ref stage chunkSize rest)))"

definition sorted_chunks :: "(int \<times> string) list \<Rightarrow> (int \<times> string) list" where
  "sorted_chunks chunks = sort_key fst chunks"

definition stage_chunks ::
  "fs_env \<Rightarrow> string \<Rightarrow> inodeData \<Rightarrow> inodeData \<Rightarrow> bool \<Rightarrow> (int \<times> string) list \<Rightarrow> int \<Rightarrow> int \<Rightarrow> unit prog" where
  "stage_chunks env stage d e creating chunks chunkSize newSize =
     (let originalRef = i_ref (d_inode d); ref = i_ref (d_inode e); oldSize = i_size (d_inode d)
      in pbind
           (if \<not> creating \<and> isExternalContentRef originalRef \<and> originalRef = ref then
              pbind (copy_content (d_id d) stage) (\<lambda>_. return ())
            else
              pbind (if creating then return (d_content d) else loadContentExternal env (d_id d) originalRef) (\<lambda>content.
                if content = [] \<and> TrimSpace ref = RefArray then discardStage stage else stage_write stage content)) (\<lambda>_.
         pbind (if ref = RefArray \<and> oldSize = 0 then stage_write stage [] else return ()) (\<lambda>_.
         pbind
           (if ref = RefArray then
              pbind (write_chunks env ref stage chunkSize (sorted_chunks chunks)) (\<lambda>_.
                resize_array env stage oldSize newSize)
            else if list_ex (\<lambda>(idx, b). idx < 0) chunks then fail (ErrOther ''negative chunk index'')
            else
              pbind (write_chunks env ref stage chunkSize (sorted_chunks chunks)) (\<lambda>_.
                if newSize < oldSize then stage_update stage (take (nat newSize)) else return ())) (\<lambda>_.
           if newSize = 0 then stage_write stage [] else return ()))))"

definition publish_chunks_of ::
  "fs_env \<Rightarrow> fs_ctx \<Rightarrow> string \<Rightarrow> inodeData \<Rightarrow> bool \<Rightarrow> (int \<times> string) list \<Rightarrow> int \<Rightarrow> int \<Rightarrow> string list \<Rightarrow> unit prog" where
  "publish_chunks_of env ctx resolved d creating chunks chunkSize newSize hashes =
     (if i_type (d_inode d) \<noteq> ''file'' then fail ErrNotFile
      else
        pbind (Done (checkWriteCondition ctx d creating)) (\<lambda>_.
        pbind (selectContentRef env d) (\<lambda>e.
        pbind (newOriginID env) (\<lambda>token.
        let stage = kb_content (e_keys env) (d_id d) @ '':stage:'' @ token
        in pfinally
             (pbind (stage_chunks env stage d e creating chunks chunkSize newSize) (\<lambda>_.
              pbind (nowMs env) (\<lambda>now.
              pbind (publishStagedFile env ctx resolved
                       (e\<lparr>d_inode := (d_inode e)\<lparr>i_size := newSize, i_mtime := now, i_atime := now\<rparr>\<rparr>) stage creating
                       (Some (chunkSize, encodeChunkHashes hashes))) (\<lambda>_.
              pbind (publishInvalidate env ''inode'' resolved) (\<lambda>_.
                if creating then publishInvalidate env ''dir'' (parentOf resolved) else return ())))))
             (discardStage stage)))))"

definition publishChunks ::
  "fs_env \<Rightarrow> fs_ctx \<Rightarrow> string \<Rightarrow> (int \<times> string) list \<Rightarrow> int \<Rightarrow> int \<Rightarrow> string list \<Rightarrow> unit prog" where
  "publishChunks env ctx p chunks chunkSize newSize hashes =
     (if chunkSize < 0 \<or> newSize < 0 \<or> chunkSize = 0 \<and> chunks \<noteq> [] then
        fail (ErrOther ''invalid chunk size or file size'')
      else
        pcase (resolvePath env ctx p True) (\<lambda>r.
          case r of
            Inr (resolved, d) \<Rightarrow> publish_chunks_of env ctx resolved d False chunks chunkSize newSize hashes
          | Inl e \<Rightarrow>
              if e \<noteq> RedisNil then fail e
              else if chunkSize = 0 \<and> newSize > 0 then fail (ErrOther ''missing complete chunks for new file'')
              else
                let p = normalizePath p
                in pbind (ensureParents env ctx p) (\<lambda>_.
                   pbind (resolvePath env ctx (parentOf p) True) (\<lambda>(_, parent).
                   pbind (allocInodeID env ctx) (\<lambda>x.
                   pbind (nowMs env) (\<lambda>now.
                     if \<not> chunks_complete chunks chunkSize newSize then
                       fail (ErrOther ''missing complete chunk for new file'')
                     else
                       publish_chunks_of env ctx p
                         \<lparr>d_id = x,
                          d_inode = (new_inode ''file'' 420 0 now)\<lparr>i_parent := d_id parent, i_name := baseName p\<rparr>,
                          d_content = []\<rparr>
                         True chunks chunkSize newSize hashes))))))"

definition WriteChunks ::
  "fs_env \<Rightarrow> fs_ctx \<Rightarrow> string \<Rightarrow> (int \<times> string) list \<Rightarrow> int \<Rightarrow> int \<Rightarrow> string list \<Rightarrow> unit prog" where
  "WriteChunks env ctx p chunks chunkSize newSize hashes = publishChunks env ctx p chunks chunkSize newSize hashes"

section \<open>Reading chunks\<close>

text \<open>\<open>GETRANGE\<close>, whose negative offsets count from the end.\<close>

definition getrange :: "string \<Rightarrow> int \<Rightarrow> int \<Rightarrow> string" where
  "getrange b from to =
     (let len = int (length b);
          s = (if from < 0 then max 0 (len + from) else from);
          t = min (len - 1) (if to < 0 then len + to else to)
      in if t < s then [] else take (nat (t - s + 1)) (drop (nat s) b))"

fun array_chunks :: "fs_env \<Rightarrow> inodeData \<Rightarrow> int \<Rightarrow> int list \<Rightarrow> (int \<times> string) list prog" where
  "array_chunks env d chunkSize [] = return []"
| "array_chunks env d chunkSize (k # ks) =
     (let off = k * chunkSize; sz = i_size (d_inode d)
      in if chunkSize > 0 \<and> off < 0 \<and> off < sz then fail (ErrOther ''invalid offset'')
         else
           pbind (if chunkSize \<le> 0 \<or> off \<ge> sz then return []
                  else
                    pbind (arrays_needed env RefArray) (\<lambda>_.
                      query (\<lambda>ns. Inr (range_bytes RefArray sz off chunkSize (map_of (ns_content ns) (d_id d)))))) (\<lambda>b.
           pbind (array_chunks env d chunkSize ks) (\<lambda>rest. return ((k, b) # rest))))"

definition ReadChunks :: "fs_env \<Rightarrow> fs_ctx \<Rightarrow> string \<Rightarrow> int list \<Rightarrow> int \<Rightarrow> (int \<times> string) list prog" where
  "ReadChunks env ctx p indices chunkSize =
     pbind (resolvePath env ctx p True) (\<lambda>(_, d).
       let i = d_inode d
       in if i_type i \<noteq> ''file'' then fail ErrNotFile
          else if i_ref i = RefArray then array_chunks env d chunkSize indices
          else
            query (\<lambda>ns. Inr (map (\<lambda>k. (k, getrange (case map_of (ns_content ns) (d_id d) of None \<Rightarrow> [] | Some b \<Rightarrow> b)
              (k * chunkSize) (k * chunkSize + chunkSize - 1))) indices)))"

definition ChunkMeta :: "fs_env \<Rightarrow> fs_ctx \<Rightarrow> string \<Rightarrow> (int \<times> string list) prog" where
  "ChunkMeta env ctx p =
     pbind (resolvePath env ctx p True) (\<lambda>(_, d).
       if i_type (d_inode d) \<noteq> ''file'' then fail ErrNotFile
       else query (\<lambda>ns. let i = stored_or_blank ns (d_id d) in Inr (i_chunk i, decodeChunkHashes (i_hashes i))))"

end
