(* ===== verification/Spec2Isabelle.thy ===== *)
theory Spec2Isabelle
  imports Lock_Store History_Policy Redis_Content Manifest_Diff Text_Diff Full_Plan Native_Write Native_Remove Native_Chunks
begin

text \<open>
  AFS keeps agent workspaces in Redis and presents them as files.
\<close>

end
